(* ===== verification/Prelude.thy ===== *)
theory Prelude
  imports Main "HOL-Library.Word" "HOL-Library.AList" "HOL-Library.Sublist"
begin

text \<open>
  Shared vocabulary of the development: the machine integers of the Rust code, results
  with an error message, the string operations of Rust's standard library the program
  calls, and in-memory hash maps as association lists.

  Strings are lists of \<^typ>\<open>char\<close>; a character stands for one code point between
  U+0000 and U+00FF. Errors are the message an \<^verbatim>\<open>anyhow::Error\<close> displays, which is
  the outermost context.
\<close>

section \<open>Machine integers and results\<close>

type_synonym u8 = "8 word"
type_synonym u16 = "16 word"
type_synonym u32 = "32 word"
type_synonym u64 = "64 word"

type_synonym 'a result = "string + 'a"

text \<open>Rust's \<^verbatim>\<open>Result::context\<close>: the new message hides the old one when displayed.\<close>

definition with_context :: "string \<Rightarrow> 'a result \<Rightarrow> 'a result" where
  "with_context msg r = (case r of Inl _ \<Rightarrow> Inl msg | Inr a \<Rightarrow> Inr a)"

lemma with_context_simps [simp]:
  "with_context msg (Inl e) = Inl msg"
  "with_context msg (Inr a) = Inr a"
  by (simp_all add: with_context_def)

lemma with_context_Inr_iff [simp]: "with_context msg r = Inr a \<longleftrightarrow> r = Inr a"
  by (cases r) simp_all

text \<open>\<^verbatim>\<open>u64::saturating_sub\<close> and \<^verbatim>\<open>u64::saturating_add\<close>, at any width.\<close>

definition saturating_sub :: "'a::len word \<Rightarrow> 'a word \<Rightarrow> 'a word" where
  "saturating_sub a b = (if a \<le> b then 0 else a - b)"

definition saturating_add :: "'a::len word \<Rightarrow> 'a word \<Rightarrow> 'a word" where
  "saturating_add a b = of_nat (min (unat a + unat b) (2 ^ LENGTH('a) - 1))"

lemma unat_saturating_sub: "unat (saturating_sub a b) = unat a - unat b"
  by (simp add: saturating_sub_def word_le_nat_alt unat_sub)

lemma unat_saturating_add:
  "unat (saturating_add a b) = min (unat a + unat b) (2 ^ LENGTH('a) - 1)"
  for a b :: "'a::len word"
proof -
  have "min (unat a + unat b) (2 ^ LENGTH('a) - 1) < (2 ^ LENGTH('a) :: nat)"
    by (simp add: min_less_iff_disj)
  then show ?thesis by (simp only: saturating_add_def unat_of_nat mod_less)
qed

text \<open>An \<^verbatim>\<open>iter().map(..).collect::<Result<Vec<_>>>()\<close>: stops at the first error.\<close>

fun collect_results :: "'a result list \<Rightarrow> 'a list result" where
  "collect_results [] = Inr []"
| "collect_results (Inl e # rs) = Inl e"
| "collect_results (Inr a # rs) =
     (case collect_results rs of Inl e \<Rightarrow> Inl e | Inr as \<Rightarrow> Inr (a # as))"

lemma collect_results_map_Inr [simp]: "collect_results (map Inr as) = Inr as"
  by (induction as) auto

lemma collect_results_Inr_iff:
  "collect_results rs = Inr as \<longleftrightarrow> rs = map Inr as"
proof
  show "collect_results rs = Inr as \<Longrightarrow> rs = map Inr as"
    by (induction rs arbitrary: as rule: collect_results.induct) (auto split: sum.splits)
qed simp

lemma collect_results_Inl_iff:
  "(\<exists>e. collect_results rs = Inl e) \<longleftrightarrow> (\<exists>e. Inl e \<in> set rs)"
proof (induction rs)
  case (Cons r rs)
  then show ?case by (cases r) (auto split: sum.splits)
qed simp

section \<open>Strings\<close>

named_theorems str_simps \<open>facts about the string operations\<close>

text \<open>\<^verbatim>\<open>char::is_whitespace\<close> on U+0000..U+00FF, and \<^verbatim>\<open>str::trim\<close>.\<close>

definition is_whitespace :: "char \<Rightarrow> bool" where
  "is_whitespace c =
     (let n = (of_char c :: nat) in (9 \<le> n \<and> n \<le> 13) \<or> n = 32 \<or> n = 133 \<or> n = 160)"

definition trim :: "string \<Rightarrow> string" where
  "trim s = rev (dropWhile is_whitespace (rev (dropWhile is_whitespace s)))"

lemma set_trim: "set (trim s) \<subseteq> set s"
  by (auto simp: trim_def dest!: set_dropWhileD)

lemma trim_Nil [simp]: "trim [] = []"
  by (simp add: trim_def)

lemma hd_trim: "trim s \<noteq> [] \<Longrightarrow> \<not> is_whitespace (hd (trim s))"
proof -
  assume ne: "trim s \<noteq> []"
  let ?d = "dropWhile is_whitespace s"
  obtain w where w: "?d = trim s @ w"
    by (metis append.assoc rev_append rev_rev_ident takeWhile_dropWhile_id trim_def)
  with ne have "hd (trim s) = hd ?d" "?d \<noteq> []" by auto
  then show ?thesis by (metis hd_dropWhile)
qed

lemma last_trim: "trim s \<noteq> [] \<Longrightarrow> \<not> is_whitespace (last (trim s))"
  by (simp add: trim_def last_rev hd_dropWhile)

text \<open>A string is trimmed when trimming leaves it alone.\<close>

lemma trim_id:
  assumes "s = [] \<or> (\<not> is_whitespace (hd s) \<and> \<not> is_whitespace (last s))"
  shows "trim s = s"
proof (cases s rule: rev_cases)
  case (snoc ys y)
  with assms have y: "\<not> is_whitespace y" and h: "\<not> is_whitespace (hd s)" by auto
  from h have "dropWhile is_whitespace s = s" by (cases s) auto
  with y snoc show ?thesis by (simp add: trim_def)
qed simp

lemma trim_trim [simp]: "trim (trim s) = trim s"
  by (rule trim_id) (use hd_trim last_trim in blast)

text \<open>\<^verbatim>\<open>str::split\<close> on a character: always at least one piece.\<close>

fun split_on :: "char \<Rightarrow> string \<Rightarrow> string list" where
  "split_on c [] = [[]]"
| "split_on c (x # xs) =
     (if x = c then [] # split_on c xs
      else (case split_on c xs of [] \<Rightarrow> [[x]] | p # ps \<Rightarrow> (x # p) # ps))"

lemma split_on_nonempty [simp]: "split_on c s \<noteq> []"
  by (cases s) (auto split: list.splits)

lemma split_on_pieces: "p \<in> set (split_on c s) \<Longrightarrow> set p \<subseteq> set s - {c}"
proof (induction s arbitrary: p)
  case (Cons x xs)
  then show ?case by (cases "split_on c xs") (fastforce split: if_splits)+
qed simp

lemma split_on_no_sep: "c \<notin> set s \<Longrightarrow> split_on c s = [s]"
  by (induction s) auto

lemma split_on_append: "c \<notin> set p \<Longrightarrow> split_on c (p @ c # s) = p # split_on c s"
  by (induction p) auto

text \<open>\<^verbatim>\<open>[..].join(sep)\<close>.\<close>

fun join :: "string \<Rightarrow> string list \<Rightarrow> string" where
  "join sep [] = []"
| "join sep [s] = s"
| "join sep (s # t # ss) = s @ sep @ join sep (t # ss)"

lemma set_join: "set (join sep ss) \<subseteq> set sep \<union> \<Union> (set ` set ss)"
  by (induction sep ss rule: join.induct) auto

lemma split_on_join:
  "ss \<noteq> [] \<Longrightarrow> \<forall>s \<in> set ss. c \<notin> set s \<Longrightarrow> split_on c (join [c] ss) = ss"
  by (induction "[c]" ss rule: join.induct) (auto simp: split_on_append split_on_no_sep)

text \<open>\<^verbatim>\<open>str::split_once\<close> and \<^verbatim>\<open>str::rsplit_once\<close> on a character.\<close>

fun split_once :: "char \<Rightarrow> string \<Rightarrow> (string \<times> string) option" where
  "split_once c [] = None"
| "split_once c (x # xs) =
     (if x = c then Some ([], xs)
      else map_option (\<lambda>(a, b). (x # a, b)) (split_once c xs))"

definition rsplit_once :: "char \<Rightarrow> string \<Rightarrow> (string \<times> string) option" where
  "rsplit_once c s = map_option (\<lambda>(a, b). (rev b, rev a)) (split_once c (rev s))"

lemma split_once_Some_iff:
  "split_once c s = Some (a, b) \<longleftrightarrow> s = a @ c # b \<and> c \<notin> set a"
proof (induction s arbitrary: a)
  case (Cons x xs)
  then show ?case by (cases a) auto
qed simp

lemma split_once_None_iff: "split_once c s = None \<longleftrightarrow> c \<notin> set s"
  by (induction s) auto

lemma rsplit_once_Some_iff:
  "rsplit_once c s = Some (a, b) \<longleftrightarrow> s = a @ c # b \<and> c \<notin> set b"
proof -
  have "rsplit_once c s = Some (a, b) \<longleftrightarrow> split_once c (rev s) = Some (rev b, rev a)"
    by (auto simp: rsplit_once_def)
  also have "\<dots> \<longleftrightarrow> rev s = rev b @ c # rev a \<and> c \<notin> set b"
    by (simp add: split_once_Some_iff)
  also have "rev s = rev b @ c # rev a \<longleftrightarrow> s = a @ c # b"
    by (metis append.assoc append_Cons append_Nil rev.simps(2) rev_append rev_rev_ident)
  finally show ?thesis .
qed

lemma rsplit_once_None_iff: "rsplit_once c s = None \<longleftrightarrow> c \<notin> set s"
  by (simp add: rsplit_once_def split_once_None_iff)

text \<open>\<^verbatim>\<open>str::strip_prefix\<close> and \<^verbatim>\<open>str::split_once\<close> on a string pattern.\<close>

fun strip_prefix :: "string \<Rightarrow> string \<Rightarrow> string option" where
  "strip_prefix [] s = Some s"
| "strip_prefix (p # ps) [] = None"
| "strip_prefix (p # ps) (x # xs) = (if x = p then strip_prefix ps xs else None)"

lemma strip_prefix_Some_iff: "strip_prefix p s = Some r \<longleftrightarrow> s = p @ r"
  by (induction p s rule: strip_prefix.induct) auto

lemma strip_prefix_append [simp]: "strip_prefix p (p @ s) = Some s"
  by (simp add: strip_prefix_Some_iff)

fun split_once_str :: "string \<Rightarrow> string \<Rightarrow> (string \<times> string) option" where
  "split_once_str p [] = (if p = [] then Some ([], []) else None)"
| "split_once_str p (x # xs) =
     (case strip_prefix p (x # xs) of
        Some r \<Rightarrow> Some ([], r)
      | None \<Rightarrow> map_option (\<lambda>(a, b). (x # a, b)) (split_once_str p xs))"

lemma split_once_str_append: "split_once_str p s = Some (a, b) \<Longrightarrow> s = a @ p @ b"
  by (induction s arbitrary: a)
    (auto simp: strip_prefix_Some_iff split: option.splits if_splits)

text \<open>
  \<^verbatim>\<open>trim_start_matches\<close> and \<^verbatim>\<open>trim_end_matches\<close> with a string pattern strip every
  repetition of it.
\<close>

function trim_start_matches :: "string \<Rightarrow> string \<Rightarrow> string" where
  "trim_start_matches p s =
     (case strip_prefix p s of
        Some r \<Rightarrow> if p = [] then s else trim_start_matches p r
      | None \<Rightarrow> s)"
  by pat_completeness auto
termination
  by (relation "measure (\<lambda>(p, s). length s)") (auto simp: strip_prefix_Some_iff)

declare trim_start_matches.simps [simp del]

definition trim_end_matches :: "string \<Rightarrow> string \<Rightarrow> string" where
  "trim_end_matches p s = rev (trim_start_matches (rev p) (rev s))"

lemma trim_start_matches_None:
  "strip_prefix p s = None \<Longrightarrow> trim_start_matches p s = s"
  by (simp add: trim_start_matches.simps)

lemma trim_start_matches_Some:
  "p \<noteq> [] \<Longrightarrow> trim_start_matches p (p @ s) = trim_start_matches p s"
  by (simp add: trim_start_matches.simps [of p "p @ s"])

lemma trim_start_matches_suffix: "\<exists>w. s = w @ trim_start_matches p s"
proof (induction p s rule: trim_start_matches.induct)
  case (1 p s)
  show ?case
  proof (cases "strip_prefix p s")
    case None
    then show ?thesis by (auto simp: trim_start_matches_None)
  next
    case (Some r)
    show ?thesis
    proof (cases "p = []")
      case True
      then show ?thesis by (subst trim_start_matches.simps) auto
    next
      case False
      with "1" Some obtain w where "r = w @ trim_start_matches p r" by blast
      moreover from Some False have "trim_start_matches p s = trim_start_matches p r"
        by (subst trim_start_matches.simps) simp
      moreover from Some have "s = p @ r" by (simp add: strip_prefix_Some_iff)
      ultimately have "s = (p @ w) @ trim_start_matches p s" by simp
      then show ?thesis by blast
    qed
  qed
qed

text \<open>Trimming a single character off the end, as \<^verbatim>\<open>trim_end_matches('/')\<close> does.\<close>

definition trim_end_char :: "char \<Rightarrow> string \<Rightarrow> string" where
  "trim_end_char c s = rev (dropWhile (\<lambda>x. x = c) (rev s))"

lemma trim_end_char_append:
  "trim_end_char c (s @ t) =
     (if \<forall>x \<in> set t. x = c then trim_end_char c s else s @ trim_end_char c t)"
  by (auto simp: trim_end_char_def dropWhile_append)

text \<open>\<^verbatim>\<open>char::is_ascii_digit\<close> and \<^verbatim>\<open>char::is_ascii_alphanumeric\<close>.\<close>

definition is_digit :: "char \<Rightarrow> bool" where
  "is_digit c = (let n = (of_char c :: nat) in 48 \<le> n \<and> n \<le> 57)"

definition is_alphanumeric :: "char \<Rightarrow> bool" where
  "is_alphanumeric c =
     (let n = (of_char c :: nat)
      in is_digit c \<or> (65 \<le> n \<and> n \<le> 90) \<or> (97 \<le> n \<and> n \<le> 122))"

text \<open>Decimal rendering of an unsigned integer, as \<^verbatim>\<open>format!("{}", n)\<close>.\<close>

definition digit_char :: "nat \<Rightarrow> char" where
  "digit_char d = char_of (48 + d)"

fun decimal :: "nat \<Rightarrow> string" where
  "decimal n = (if n < 10 then [digit_char n] else decimal (n div 10) @ [digit_char (n mod 10)])"

declare decimal.simps [simp del]

lemma is_digit_digit_char: "d < 10 \<Longrightarrow> is_digit (digit_char d)"
  by (simp add: is_digit_def digit_char_def)

lemma decimal_digits: "\<forall>c \<in> set (decimal n). is_digit c"
proof (induction n rule: decimal.induct)
  case (1 n)
  then show ?case
    by (subst decimal.simps) (auto simp: is_digit_digit_char)
qed

lemma decimal_nonempty [simp]: "decimal n \<noteq> []"
  by (subst decimal.simps) simp

section \<open>Hash maps\<close>

text \<open>
  A \<^verbatim>\<open>HashMap\<close> is an association list with distinct keys. Rust leaves its iteration
  order unspecified; the model iterates in list order, and properties are stated over
  sets of keys.
\<close>

type_synonym ('k, 'v) hmap = "('k \<times> 'v) list"

lemma option_ext: "(\<And>r. x = Some r \<longleftrightarrow> y = Some r) \<Longrightarrow> x = y"
  by (cases x; cases y) auto

lemma case_result_ex: "(case x of Inl _ \<Rightarrow> False | Inr r \<Rightarrow> P r) \<longleftrightarrow> (\<exists>r. x = Inr r \<and> P r)"
  by (cases x) auto

lemma case_option_ex: "(case x of None \<Rightarrow> False | Some y \<Rightarrow> P y) \<longleftrightarrow> (\<exists>y. x = Some y \<and> P y)"
  by (cases x) auto

abbreviation hm_get :: "('k, 'v) hmap \<Rightarrow> 'k \<Rightarrow> 'v option" where
  "hm_get \<equiv> map_of"

abbreviation hm_insert :: "'k \<Rightarrow> 'v \<Rightarrow> ('k, 'v) hmap \<Rightarrow> ('k, 'v) hmap" where
  "hm_insert \<equiv> AList.update"

abbreviation hm_remove :: "'k \<Rightarrow> ('k, 'v) hmap \<Rightarrow> ('k, 'v) hmap" where
  "hm_remove \<equiv> AList.delete"

definition hm_retain :: "('k \<Rightarrow> bool) \<Rightarrow> ('k, 'v) hmap \<Rightarrow> ('k, 'v) hmap" where
  "hm_retain P m = filter (\<lambda>(k, _). P k) m"

definition hm_contains :: "('k, 'v) hmap \<Rightarrow> 'k \<Rightarrow> bool" where
  "hm_contains m k = (map_of m k \<noteq> None)"

definition hm_keys :: "('k, 'v) hmap \<Rightarrow> 'k list" where
  "hm_keys m = map fst m"

text \<open>\<^verbatim>\<open>iter.collect::<HashMap<_, _>>()\<close>: a later pair overwrites an earlier one.\<close>

definition hm_collect :: "('k \<times> 'v) list \<Rightarrow> ('k, 'v) hmap" where
  "hm_collect ps = fold (\<lambda>(k, v) m. AList.update k v m) ps []"

abbreviation hm_wf :: "('k, 'v) hmap \<Rightarrow> bool" where
  "hm_wf m \<equiv> distinct (map fst m)"

lemma hm_get_retain [simp]: "map_of (hm_retain P m) k = (if P k then map_of m k else None)"
  by (induction m) (auto simp: hm_retain_def)

lemma hm_wf_retain [simp]: "hm_wf m \<Longrightarrow> hm_wf (hm_retain P m)"
proof (induction m)
  case (Cons x m)
  have "fst ` set (hm_retain P m) \<subseteq> fst ` set m" by (auto simp: hm_retain_def)
  with Cons show ?case by (cases x) (auto simp: hm_retain_def)
qed (simp add: hm_retain_def)

lemma hm_contains_iff: "hm_contains m k \<longleftrightarrow> k \<in> fst ` set m"
  by (simp add: hm_contains_def map_of_eq_None_iff)

lemma hm_contains_insert [simp]:
  "hm_contains (hm_insert k v m) j \<longleftrightarrow> j = k \<or> hm_contains m j"
  by (simp add: hm_contains_def update_conv')

lemma set_hm_keys [simp]: "set (hm_keys m) = dom (map_of m)"
  by (simp add: hm_keys_def dom_map_of_conv_image_fst)

lemma hm_get_collect: "map_of (hm_collect ps) = map_of (rev ps)"
proof -
  have "map_of (fold (\<lambda>(k, v) m. AList.update k v m) ps m) = map_of (rev ps @ m)" for m
    by (induction ps arbitrary: m) (auto simp: update_conv' map_add_def split: option.splits)
  then show ?thesis by (simp add: hm_collect_def)
qed

lemma hm_wf_collect [simp]: "hm_wf (hm_collect ps)"
proof -
  have "hm_wf m \<Longrightarrow> hm_wf (fold (\<lambda>(k, v) m. AList.update k v m) ps m)" for m
    by (induction ps arbitrary: m) (auto simp: distinct_update)
  then show ?thesis by (simp add: hm_collect_def)
qed

section \<open>Keyed stores\<close>

text \<open>
  The contract every keyed store of the program offers: in-memory hash maps, and the
  SQLite tables with a text primary key. \<open>keyed_run\<close> folds a sequence of writes; the
  client of the interface learns that the last write to a key decides its value.
\<close>

datatype ('k, 'v) kv_op = Put 'k 'v | Del 'k

fun kv_key :: "('k, 'v) kv_op \<Rightarrow> 'k" where
  "kv_key (Put k _) = k"
| "kv_key (Del k) = k"

fun kv_result :: "('k, 'v) kv_op \<Rightarrow> 'v option" where
  "kv_result (Put _ v) = Some v"
| "kv_result (Del _) = None"

fun kv_step ::
  "('k \<Rightarrow> 'v \<Rightarrow> 's \<Rightarrow> 's) \<Rightarrow> ('k \<Rightarrow> 's \<Rightarrow> 's) \<Rightarrow> ('k, 'v) kv_op \<Rightarrow> 's \<Rightarrow> 's" where
  "kv_step put del (Put k v) s = put k v s"
| "kv_step put del (Del k) s = del k s"

definition kv_run ::
  "('k \<Rightarrow> 'v \<Rightarrow> 's \<Rightarrow> 's) \<Rightarrow> ('k \<Rightarrow> 's \<Rightarrow> 's) \<Rightarrow> ('k, 'v) kv_op list \<Rightarrow> 's \<Rightarrow> 's" where
  "kv_run put del = fold (kv_step put del)"

locale keyed_store =
  fixes get :: "'s \<Rightarrow> 'k \<Rightarrow> 'v option"
    and put :: "'k \<Rightarrow> 'v \<Rightarrow> 's \<Rightarrow> 's"
    and del :: "'k \<Rightarrow> 's \<Rightarrow> 's"
    and wf :: "'s \<Rightarrow> bool"
  assumes get_put: "wf s \<Longrightarrow> get (put k v s) j = (if j = k then Some v else get s j)"
    and get_del: "wf s \<Longrightarrow> get (del k s) j = (if j = k then None else get s j)"
    and wf_put: "wf s \<Longrightarrow> wf (put k v s)"
    and wf_del: "wf s \<Longrightarrow> wf (del k s)"
begin

lemma get_step:
  "wf s \<Longrightarrow> get (kv_step put del opn s) j = (if kv_key opn = j then kv_result opn else get s j)"
  by (cases opn) (auto simp: get_put get_del)

lemma wf_step: "wf s \<Longrightarrow> wf (kv_step put del opn s)"
  by (cases opn) (auto simp: wf_put wf_del)

lemma wf_run: "wf s \<Longrightarrow> wf (kv_run put del ops s)"
  by (induction ops arbitrary: s) (auto simp: kv_run_def wf_step)

lemma get_run_unchanged:
  "wf s \<Longrightarrow> \<forall>opn \<in> set ops. kv_key opn \<noteq> j \<Longrightarrow> get (kv_run put del ops s) j = get s j"
  by (induction ops arbitrary: s) (auto simp: kv_run_def get_step wf_step)

lemma last_write_wins:
  assumes "wf s" and "\<forall>o' \<in> set later. kv_key o' \<noteq> kv_key opn"
  shows "get (kv_run put del (earlier @ opn # later) s) (kv_key opn) = kv_result opn"
proof -
  let ?s = "kv_run put del earlier s"
  have "kv_run put del (earlier @ opn # later) s
      = kv_run put del later (kv_step put del opn ?s)"
    by (simp add: kv_run_def)
  moreover have "wf ?s" using assms(1) by (rule wf_run)
  ultimately show ?thesis
    using assms(2) by (simp add: get_run_unchanged wf_step get_step)
qed

end

interpretation hash_map: keyed_store map_of AList.update AList.delete "\<lambda>m. hm_wf m"
  by unfold_locales (auto simp: update_conv' delete_conv' distinct_update distinct_delete)

end
