(* ===== verification/Failover.thy ===== *)
theory Failover
  imports Prelude
begin

text \<open>
  Pools of interchangeable endpoints. Both the gRPC client and the RPC pool try their
  endpoints one after the other until one answers; they differ in the order. The locale
  names what the order has to promise, and both pools interpret it.
\<close>

section \<open>Trying one endpoint after the other\<close>

text \<open>
  The first success with the endpoint that gave it, else the last error, if there was any.
\<close>

fun try_each :: "('i \<Rightarrow> 'a result) \<Rightarrow> 'i list \<Rightarrow> string option \<Rightarrow> string option + ('i \<times> 'a)" where
  "try_each op [] last_err = Inl last_err"
| "try_each op (i # is) last_err =
     (case op i of Inr a \<Rightarrow> Inr (i, a) | Inl e \<Rightarrow> try_each op is (Some e))"

lemma try_each_Inr_iff:
  "try_each op is last_err = Inr (i, a) \<longleftrightarrow>
     (\<exists>before after. is = before @ i # after \<and> op i = Inr a \<and> (\<forall>j \<in> set before. \<exists>e. op j = Inl e))"
proof (induction "is" arbitrary: last_err)
  case (Cons k ks)
  show ?case
  proof (cases "op k")
    case (Inl e)
    with Cons show ?thesis
      by (simp add: Cons_eq_append_conv) (metis Inl_Inr_False list.set_intros(2) set_ConsD)
  next
    case (Inr b)
    then show ?thesis by (auto simp: Cons_eq_append_conv)
  qed
qed simp

lemma try_each_Inl:
  "try_each op is last_err = Inl e' \<Longrightarrow>
     (\<forall>i \<in> set is. \<exists>e. op i = Inl e) \<and> (is \<noteq> [] \<longrightarrow> e' \<noteq> None) \<and> (is = [] \<longrightarrow> e' = last_err)"
proof (induction "is" arbitrary: last_err)
  case (Cons k ks)
  then show ?case by (cases ks) (auto split: sum.splits)
qed simp

text \<open>Where a list of distinct elements is cut before one of them is determined.\<close>

lemma distinct_cut:
  assumes "distinct xs" and "xs = before @ x # after" and "i < length xs" and "xs ! i = x"
  shows "before = take i xs"
proof -
  from assms(2) have "xs ! length before = x" "length before < length xs" by auto
  with assms(1,3,4) have "length before = i"
    using nth_eq_iff_index_eq by blast
  with assms(2) show ?thesis by simp
qed

section \<open>Pools\<close>

locale endpoint_pool =
  fixes order :: "'s \<Rightarrow> 'i list"
    and members :: "'s \<Rightarrow> 'i set"
    and ok :: "'s \<Rightarrow> bool"
  assumes order_members: "ok s \<Longrightarrow> set (order s) = members s"
    and order_distinct: "ok s \<Longrightarrow> distinct (order s)"
    and members_nonempty: "ok s \<Longrightarrow> members s \<noteq> {}"
begin

lemma succeeds_iff:
  assumes "ok s"
  shows "(\<exists>r. try_each op (order s) None = Inr r) \<longleftrightarrow> (\<exists>i \<in> members s. \<exists>a. op i = Inr a)"
proof
  assume "\<exists>r. try_each op (order s) None = Inr r"
  then obtain i a where "try_each op (order s) None = Inr (i, a)" by auto
  then have "i \<in> set (order s) \<and> op i = Inr a" by (auto simp: try_each_Inr_iff)
  with assms show "\<exists>i \<in> members s. \<exists>a. op i = Inr a" by (auto simp: order_members)
next
  assume *: "\<exists>i \<in> members s. \<exists>a. op i = Inr a"
  show "\<exists>r. try_each op (order s) None = Inr r"
  proof (cases "try_each op (order s) None")
    case (Inl e)
    with * assms show ?thesis using try_each_Inl [OF Inl] by (force simp: order_members)
  qed blast
qed

lemma fails_with_error:
  assumes "ok s" and "try_each op (order s) None = Inl e"
  shows "e \<noteq> None \<and> (\<forall>i \<in> members s. \<exists>e. op i = Inl e)"
proof -
  from assms(1) have "order s \<noteq> []"
    using order_members members_nonempty by fastforce
  with try_each_Inl [OF assms(2)] assms(1) show ?thesis by (simp add: order_members)
qed

lemma first_in_order:
  assumes "ok s" and "try_each op (order s) None = Inr (order s ! n, a)" and "n < length (order s)"
  shows "op (order s ! n) = Inr a \<and> (\<forall>k < n. \<exists>e. op (order s ! k) = Inl e)"
proof -
  from assms(2) obtain before after where
    o: "order s = before @ order s ! n # after" "op (order s ! n) = Inr a"
      "\<forall>j \<in> set before. \<exists>e. op j = Inl e"
    by (auto simp: try_each_Inr_iff)
  from distinct_cut [OF order_distinct [OF assms(1)] o(1) assms(3)] have b: "before = take n (order s)"
    by simp
  have "order s ! k \<in> set before" if "k < n" for k
    using that assms(3) unfolding b by (metis in_set_conv_nth length_take min.absorb4 nth_take)
  with o show ?thesis by blast
qed

end

section \<open>Rotation\<close>

definition rotation :: "nat \<Rightarrow> nat \<Rightarrow> nat list" where
  "rotation start count = map (\<lambda>i. (start + i) mod count) [0..<count]"

lemma length_rotation [simp]: "length (rotation start count) = count"
  by (simp add: rotation_def)

lemma nth_rotation [simp]: "i < count \<Longrightarrow> rotation start count ! i = (start + i) mod count"
  by (simp add: rotation_def)

text \<open>\<open>start\<close>, \<open>start + 1\<close>, .. modulo the count is the list of indices, rotated.\<close>

lemma rotation_rotate: "rotation start count = rotate start [0..<count]"
  by (rule nth_equalityI) (simp_all add: nth_rotate)

lemma set_rotation [simp]: "set (rotation start count) = {..<count}"
  by (auto simp: rotation_rotate)

lemma distinct_rotation [simp]: "distinct (rotation start count)"
  by (simp add: rotation_rotate)

end
