(* ===== verification/Auth.thy ===== *)
theory Auth
  imports Prelude
begin

text \<open>
  \<^verbatim>\<open>src/auth.rs\<close>: comma-separated lists of \<^verbatim>\<open>url|token\<close> endpoints, the URL-safe
  gateway token whose invariant the constructor enforces, and the rendering of an
  endpoint list for the log with the tokens stripped.
\<close>

section \<open>Tokens\<close>

datatype token_error = TokenEmpty | TokenUnsupported char

datatype auth_token = AuthToken (as_str: string)

definition url_safe_char :: "char \<Rightarrow> bool" where
  "url_safe_char c \<longleftrightarrow>
     is_alphanumeric c \<or> c = CHR ''-'' \<or> c = CHR ''_'' \<or> c = CHR ''.'' \<or> c = CHR ''~''"

definition token_from_str :: "string \<Rightarrow> token_error + auth_token" where
  "token_from_str s =
     (if s = [] then Inl TokenEmpty
      else case List.find (\<lambda>c. \<not> url_safe_char c) s of
             Some bad \<Rightarrow> Inl (TokenUnsupported bad)
           | None \<Rightarrow> Inr (AuthToken s))"

definition valid_token :: "string \<Rightarrow> bool" where
  "valid_token s \<longleftrightarrow> s \<noteq> [] \<and> (\<forall>c \<in> set s. url_safe_char c)"

lemma token_from_str_Inr_iff:
  "token_from_str s = Inr t \<longleftrightarrow> valid_token s \<and> t = AuthToken s"
  by (auto simp: token_from_str_def valid_token_def find_None_iff find_Some_iff
      split: option.splits)

text \<open>
  The characters with a meaning in a URL or in an endpoint list are not URL-safe.
\<close>

lemma not_url_safe [simp]:
  "\<not> url_safe_char CHR '',''" "\<not> url_safe_char CHR ''|''" "\<not> url_safe_char CHR ''@''"
  "\<not> url_safe_char CHR '':''" "\<not> url_safe_char CHR ''/''" "\<not> url_safe_char CHR ''?''"
  "\<not> url_safe_char CHR ''#''"
  by (simp_all add: url_safe_char_def is_alphanumeric_def is_digit_def)

lemma valid_token_free:
  "valid_token t \<Longrightarrow> \<not> url_safe_char c \<Longrightarrow> c \<notin> set t"
  by (auto simp: valid_token_def)

lemma url_safe_not_whitespace: "url_safe_char c \<Longrightarrow> \<not> is_whitespace c"
  by (auto simp: url_safe_char_def is_alphanumeric_def is_digit_def is_whitespace_def Let_def)

lemma url_safe_visible:
  "url_safe_char c \<Longrightarrow> 33 \<le> (of_char c :: nat) \<and> (of_char c :: nat) < 127"
  by (auto simp: url_safe_char_def is_alphanumeric_def is_digit_def Let_def)

lemma trim_valid_token [simp]: "valid_token t \<Longrightarrow> trim t = t"
  by (rule trim_id) (auto simp: valid_token_def url_safe_not_whitespace)

text \<open>
  \<^verbatim>\<open>AuthToken::metadata_value\<close>: tonic's \<^verbatim>\<open>AsciiMetadataValue::from_str\<close> is the
  argument \<open>parse\<close>; \<open>None\<close> is the panic of \<^verbatim>\<open>expect\<close>.
\<close>

definition metadata_value :: "(string \<Rightarrow> 'v option) \<Rightarrow> auth_token \<Rightarrow> 'v option" where
  "metadata_value parse t = parse (as_str t)"

section \<open>Endpoint lists\<close>

record endpoint_spec =
  ep_url :: string
  ep_token :: "auth_token option"

definition entries :: "string \<Rightarrow> string list" where
  "entries spec = filter (\<lambda>s. s \<noteq> []) (map trim (split_on CHR '','' spec))"

definition split_entry :: "string \<Rightarrow> string \<times> string" where
  "split_entry entry =
     (case split_once CHR ''|'' entry of
        Some (u, t) \<Rightarrow> (trim u, trim t)
      | None \<Rightarrow> (entry, []))"

definition parse_entry :: "string \<Rightarrow> endpoint_spec result" where
  "parse_entry entry =
     (let (url, token) = split_entry entry in
      if token = [] then Inr \<lparr>ep_url = url, ep_token = None\<rparr>
      else case token_from_str token of
             Inl _ \<Rightarrow> Inl (''invalid auth token for endpoint '' @ url)
           | Inr t \<Rightarrow> Inr \<lparr>ep_url = url, ep_token = Some t\<rparr>)"

definition parse_endpoint_specs :: "string \<Rightarrow> endpoint_spec list result" where
  "parse_endpoint_specs spec = collect_results (map parse_entry (entries spec))"

definition redact_endpoint_specs :: "string \<Rightarrow> string" where
  "redact_endpoint_specs spec =
     join '', '' (map (\<lambda>entry. fst (split_entry entry)) (entries spec))"

text \<open>
  The abstract reading: how an operator writes a list of endpoints down, and which
  endpoints can be written so.
\<close>

definition render_entry :: "endpoint_spec \<Rightarrow> string" where
  "render_entry e =
     ep_url e @ (case ep_token e of None \<Rightarrow> [] | Some t \<Rightarrow> CHR ''|'' # as_str t)"

definition render_specs :: "endpoint_spec list \<Rightarrow> string" where
  "render_specs es = join '','' (map render_entry es)"

definition wf_endpoint :: "endpoint_spec \<Rightarrow> bool" where
  "wf_endpoint e \<longleftrightarrow>
     ep_url e \<noteq> [] \<and> trim (ep_url e) = ep_url e
     \<and> CHR '','' \<notin> set (ep_url e) \<and> CHR ''|'' \<notin> set (ep_url e)
     \<and> (case ep_token e of None \<Rightarrow> True | Some t \<Rightarrow> valid_token (as_str t))"

lemma is_whitespace_bar [simp]: "\<not> is_whitespace CHR ''|''"
  by (simp add: is_whitespace_def)

lemma render_entry_nonempty [simp]: "wf_endpoint e \<Longrightarrow> render_entry e \<noteq> []"
  by (simp add: wf_endpoint_def render_entry_def)

lemma render_entry_no_comma: "wf_endpoint e \<Longrightarrow> CHR '','' \<notin> set (render_entry e)"
  by (cases "ep_token e") (auto simp: wf_endpoint_def render_entry_def valid_token_free)

lemma trim_render_entry:
  assumes "wf_endpoint e"
  shows "trim (render_entry e) = render_entry e"
proof (rule trim_id, rule disjI2, rule conjI)
  from assms have u: "ep_url e \<noteq> []" "trim (ep_url e) = ep_url e"
    by (auto simp: wf_endpoint_def)
  with hd_trim [of "ep_url e"] show "\<not> is_whitespace (hd (render_entry e))"
    by (simp add: render_entry_def)
  show "\<not> is_whitespace (last (render_entry e))"
  proof (cases "ep_token e")
    case None
    with u last_trim [of "ep_url e"] show ?thesis by (simp add: render_entry_def)
  next
    case (Some t)
    with assms have "valid_token (as_str t)" by (simp add: wf_endpoint_def)
    then have "as_str t \<noteq> []" "url_safe_char (last (as_str t))"
      by (auto simp: valid_token_def)
    with Some show ?thesis by (simp add: render_entry_def url_safe_not_whitespace)
  qed
qed

lemma split_render_entry:
  assumes "wf_endpoint e"
  shows "split_entry (render_entry e)
    = (ep_url e, case ep_token e of None \<Rightarrow> [] | Some t \<Rightarrow> as_str t)"
proof (cases "ep_token e")
  case None
  with assms have "split_once CHR ''|'' (render_entry e) = None"
    by (simp add: split_once_None_iff render_entry_def wf_endpoint_def)
  with None show ?thesis by (simp add: split_entry_def render_entry_def)
next
  case (Some t)
  with assms have "split_once CHR ''|'' (render_entry e) = Some (ep_url e, as_str t)"
    by (simp add: split_once_Some_iff render_entry_def wf_endpoint_def)
  with Some assms show ?thesis by (simp add: split_entry_def wf_endpoint_def)
qed

lemma parse_render_entry: "wf_endpoint e \<Longrightarrow> parse_entry (render_entry e) = Inr e"
proof -
  assume wf: "wf_endpoint e"
  show ?thesis
  proof (cases "ep_token e")
    case None
    with wf show ?thesis by (simp add: parse_entry_def split_render_entry)
  next
    case (Some t)
    with wf have v: "valid_token (as_str t)" by (simp add: wf_endpoint_def)
    then have "token_from_str (as_str t) = Inr t" by (simp add: token_from_str_Inr_iff)
    with v Some wf show ?thesis
      by (simp add: parse_entry_def split_render_entry valid_token_def)
  qed
qed

lemma entries_render:
  assumes "\<forall>e \<in> set es. wf_endpoint e"
  shows "entries (render_specs es) = map render_entry es"
proof (cases "es = []")
  case True
  then show ?thesis by (simp add: entries_def render_specs_def)
next
  case False
  with assms have "split_on CHR '','' (render_specs es) = map render_entry es"
    by (auto simp: render_specs_def render_entry_no_comma intro!: split_on_join)
  moreover from assms have "map trim (map render_entry es) = map render_entry es"
    by (simp add: trim_render_entry)
  ultimately show ?thesis
    using assms by (simp add: entries_def)
qed

text \<open>What a successful parse returns, entry by entry.\<close>

lemma parse_entry_Inr:
  "parse_entry entry = Inr e \<Longrightarrow>
     ep_url e = fst (split_entry entry) \<and> (\<forall>t. ep_token e = Some t \<longrightarrow> valid_token (as_str t))"
  by (auto simp: parse_entry_def token_from_str_Inr_iff Let_def
      split: prod.splits sum.splits if_splits)

lemma parse_endpoint_specs_Inr:
  assumes "parse_endpoint_specs spec = Inr es"
  shows "map ep_url es = map (\<lambda>entry. fst (split_entry entry)) (entries spec)"
    and "e \<in> set es \<Longrightarrow> ep_token e = Some t \<Longrightarrow> valid_token (as_str t)"
proof -
  from assms have eq: "map parse_entry (entries spec) = map Inr es"
    by (simp add: parse_endpoint_specs_def collect_results_Inr_iff)
  have *: "map parse_entry xs = map Inr es \<Longrightarrow>
      map ep_url es = map (\<lambda>entry. fst (split_entry entry)) xs
      \<and> (\<forall>e \<in> set es. \<forall>t. ep_token e = Some t \<longrightarrow> valid_token (as_str t))" for xs es
  proof (induction xs arbitrary: es)
    case (Cons x xs)
    then show ?case by (cases es) (auto dest: parse_entry_Inr)
  qed simp
  from * [OF eq] show "map ep_url es = map (\<lambda>entry. fst (split_entry entry)) (entries spec)"
    and "e \<in> set es \<Longrightarrow> ep_token e = Some t \<Longrightarrow> valid_token (as_str t)"
    by blast+
qed

lemma split_entry_no_bar: "CHR ''|'' \<notin> set (fst (split_entry entry))"
proof (cases "split_once CHR ''|'' entry")
  case None
  then have "CHR ''|'' \<notin> set entry" by (simp add: split_once_None_iff)
  with None show ?thesis by (simp add: split_entry_def)
next
  case (Some p)
  then obtain u t where "p = (u, t)" "CHR ''|'' \<notin> set u"
    by (cases p) (auto simp: split_once_Some_iff)
  with Some set_trim [of u] show ?thesis by (auto simp: split_entry_def)
qed

section \<open>Properties\<close>

text \<open>a list of endpoints written as \<^verbatim>\<open>url|token\<close> (the token optional) and joined
  with commas parses back to exactly these endpoints, in order.\<close>

theorem parse_render_specs:
  assumes "\<forall>e \<in> set es. wf_endpoint e"
  shows "parse_endpoint_specs (render_specs es) = Inr es"
proof -
  from assms have "map parse_entry (map render_entry es) = map Inr es"
    by (simp add: parse_render_entry)
  then have "collect_results (map parse_entry (map render_entry es)) = Inr es"
    by (simp only: collect_results_map_Inr)
  with assms show ?thesis
    by (simp only: parse_endpoint_specs_def entries_render)
qed

theorem parse_render_specs_witness:
  "parse_endpoint_specs (render_specs
     [\<lparr>ep_url = ''http://a:9090'', ep_token = Some (AuthToken ''tokA'')\<rparr>,
      \<lparr>ep_url = ''http://b:9090'', ep_token = None\<rparr>])
   = Inr [\<lparr>ep_url = ''http://a:9090'', ep_token = Some (AuthToken ''tokA'')\<rparr>,
      \<lparr>ep_url = ''http://b:9090'', ep_token = None\<rparr>]"
  by (rule parse_render_specs) code_simp

text \<open>whatever the configured list looks like, the line written to the log instead of it
  is the comma-separated list of the parsed URLs: it has no bar, hence no token part.\<close>

theorem redact_shows_urls_only:
  assumes "parse_endpoint_specs spec = Inr es"
  shows "redact_endpoint_specs spec = join '', '' (map ep_url es)
    \<and> CHR ''|'' \<notin> set (redact_endpoint_specs spec)"
proof
  from assms show eq: "redact_endpoint_specs spec = join '', '' (map ep_url es)"
    by (simp add: redact_endpoint_specs_def parse_endpoint_specs_Inr(1))
  have "CHR ''|'' \<notin> \<Union> (set ` set (map (\<lambda>entry. fst (split_entry entry)) (entries spec)))"
    using split_entry_no_bar by auto
  then show "CHR ''|'' \<notin> set (redact_endpoint_specs spec)"
    using set_join [of "'', ''" "map (\<lambda>entry. fst (split_entry entry)) (entries spec)"]
    by (auto simp: redact_endpoint_specs_def)
qed

theorem redact_shows_urls_only_witness:
  "redact_endpoint_specs '' http://a:1|tokA , http://b:2'' = ''http://a:1, http://b:2''"
proof -
  have "parse_endpoint_specs '' http://a:1|tokA , http://b:2''
      = Inr [\<lparr>ep_url = ''http://a:1'', ep_token = Some (AuthToken ''tokA'')\<rparr>,
             \<lparr>ep_url = ''http://b:2'', ep_token = None\<rparr>]"
    by code_simp
  from redact_shows_urls_only [OF this] show ?thesis by simp
qed

text \<open>a token that came out of a parsed endpoint list can always be sent as gRPC
  metadata: given a parser that accepts every string of visible ASCII characters, as
  tonic documents, the \<^verbatim>\<open>expect\<close> in \<^verbatim>\<open>metadata_value\<close> never panics.\<close>

theorem metadata_value_never_panics:
  assumes "parse_endpoint_specs spec = Inr es" and "e \<in> set es" and "ep_token e = Some t"
    and visible: "\<And>s. \<forall>c \<in> set s. 32 \<le> (of_char c :: nat) \<and> (of_char c :: nat) < 127 \<Longrightarrow>
      parse s \<noteq> None"
  shows "metadata_value parse t \<noteq> None"
proof -
  from assms(1-3) have "valid_token (as_str t)" by (rule parse_endpoint_specs_Inr(2))
  then have "\<forall>c \<in> set (as_str t). 32 \<le> (of_char c :: nat) \<and> (of_char c :: nat) < 127"
    using url_safe_visible by (fastforce simp: valid_token_def)
  then show ?thesis unfolding metadata_value_def by (rule visible)
qed

theorem metadata_value_never_panics_witness:
  "metadata_value (\<lambda>s. if \<forall>c \<in> set s. 32 \<le> (of_char c :: nat) \<and> (of_char c :: nat) < 127
     then Some s else None) (AuthToken ''tokA'') \<noteq> None"
proof (rule metadata_value_never_panics)
  show "parse_endpoint_specs ''http://a:1|tokA''
      = Inr [\<lparr>ep_url = ''http://a:1'', ep_token = Some (AuthToken ''tokA'')\<rparr>]"
    by code_simp
qed auto

end
