(* ===== verification/Address.thy ===== *)
theory Address
  imports Prelude
begin

text \<open>
  \<^verbatim>\<open>src/lib.rs\<close>: derivation of a forwarding address, and of the relayer's own address and
  key. The crates it calls (\<^verbatim>\<open>hex\<close>, \<^verbatim>\<open>sha2\<close>, \<^verbatim>\<open>bech32\<close>, \<^verbatim>\<open>cosmrs\<close>, \<^verbatim>\<open>bip39\<close>) are the fields of the
  record \<open>crypto\<close>; what is proved is which bytes the program commits to, and that
  different commitments can only meet in a hash collision.
\<close>

section \<open>Library functions\<close>

type_synonym bytes = "u8 list"

record crypto =
  hex_decode :: "string \<Rightarrow> bytes result"
  sha256 :: "bytes \<Rightarrow> bytes"
  bech32_encode :: "string \<Rightarrow> bytes \<Rightarrow> string result"

definition bytes_of_string :: "string \<Rightarrow> bytes" where
  "bytes_of_string s = map of_char s"

text \<open>\<^verbatim>\<open>u32::to_be_bytes\<close>.\<close>

definition to_be_bytes :: "u32 \<Rightarrow> bytes" where
  "to_be_bytes d = [ucast (drop_bit 24 d), ucast (drop_bit 16 d), ucast (drop_bit 8 d), ucast d]"

lemma length_to_be_bytes [simp]: "length (to_be_bytes d) = 4"
  by (simp add: to_be_bytes_def)

lemma to_be_bytes_inject [simp]: "to_be_bytes d = to_be_bytes e \<longleftrightarrow> d = e"
proof
  assume eq: "to_be_bytes d = to_be_bytes e"
  have b: "bit (ucast (drop_bit k x) :: u8) n = bit x (k + n)" if "n < 8" for k n and x :: u32
    using that by (simp add: bit_simps)
  show "d = e"
  proof (rule bit_eqI)
    fix n assume "possible_bit TYPE(u32) n"
    then have n: "n < 32" by simp
    have *: "bit d (k + m) = bit e (k + m)" if "k \<in> {24, 16, 8, 0}" "m < 8" for k m
    proof -
      from eq that(1) have "(ucast (drop_bit k d) :: u8) = ucast (drop_bit k e)"
        by (auto simp: to_be_bytes_def)
      with b [OF that(2), of k d] b [OF that(2), of k e] show ?thesis by simp
    qed
    from n consider "n < 8" | "8 \<le> n" "n < 16" | "16 \<le> n" "n < 24" | "24 \<le> n" by linarith
    then show "bit d n = bit e n"
    proof cases
      case 1 then show ?thesis using * [of 0 n] by simp
    next
      case 2 then show ?thesis using * [of 8 "n - 8"] by simp
    next
      case 3 then show ?thesis using * [of 16 "n - 16"] by simp
    next
      case 4 with n show ?thesis using * [of 24 "n - 24"] by simp
    qed
  qed
qed simp

section \<open>Forwarding addresses\<close>

abbreviation trim_0x :: "string \<Rightarrow> string" where
  "trim_0x \<equiv> trim_start_matches ''0x''"

definition parse_recipient :: "crypto \<Rightarrow> string \<Rightarrow> bytes result" where
  "parse_recipient cr dest_recipient =
     (case with_context ''Failed to decode dest_recipient as hex''
             (hex_decode cr (trim_0x dest_recipient)) of
        Inl e \<Rightarrow> Inl e
      | Inr bs \<Rightarrow>
          if length bs \<noteq> 32
          then Inl (''dest_recipient must be exactly 32 bytes, got '' @ decimal (length bs))
          else Inr bs)"

definition parse_token_id :: "crypto \<Rightarrow> string \<Rightarrow> bytes result" where
  "parse_token_id cr token_id =
     with_context ''Failed to decode token_id as hex'' (hex_decode cr (trim_0x token_id))"

definition parse_hook :: "crypto \<Rightarrow> string option \<Rightarrow> bytes option result" where
  "parse_hook cr custom_hook_id =
     (case custom_hook_id of
        Some hook \<Rightarrow>
          if trim_0x hook \<noteq> [] then
            (case with_context ''Failed to decode custom_hook_id as hex''
                    (hex_decode cr (trim_0x hook)) of
               Inl e \<Rightarrow> Inl e
             | Inr bs \<Rightarrow>
                 if length bs \<noteq> 32
                 then Inl (''custom_hook_id must be exactly 32 bytes, got '' @ decimal (length bs))
                 else if \<forall>b \<in> set bs. b = 0 then Inr None else Inr (Some bs))
          else Inr None
      | None \<Rightarrow> Inr None)"

definition parse_metadata :: "crypto \<Rightarrow> string option \<Rightarrow> bytes option result" where
  "parse_metadata cr custom_hook_metadata =
     (case custom_hook_metadata of
        Some meta \<Rightarrow>
          if trim_0x meta \<noteq> [] then
            map_sum id Some (with_context ''Failed to decode custom_hook_metadata as hex''
              (hex_decode cr (trim_0x meta)))
          else Inr None
      | None \<Rightarrow> Inr None)"

definition call_preimage ::
  "u32 \<Rightarrow> bytes \<Rightarrow> bytes \<Rightarrow> bytes option \<Rightarrow> bytes option \<Rightarrow> bytes" where
  "call_preimage dest_domain recipient_bytes token_id_bytes hook_bytes metadata_bytes =
     (let bound = (hook_bytes \<noteq> None \<or> metadata_bytes \<noteq> None);
          domain_bytes = replicate 28 0 @ to_be_bytes dest_domain
      in domain_bytes @ recipient_bytes @ token_id_bytes @
         (if bound
          then (case hook_bytes of Some h \<Rightarrow> h | None \<Rightarrow> replicate 32 0)
             @ (case metadata_bytes of Some m \<Rightarrow> m | None \<Rightarrow> [])
          else []))"

definition FORWARD_VERSION :: u8 where
  "FORWARD_VERSION = 1"

text \<open>The three byte strings hashed after the module tag, in order.\<close>

definition salt_preimage :: "crypto \<Rightarrow> bytes \<Rightarrow> bytes" where
  "salt_preimage cr pre = [FORWARD_VERSION] @ sha256 cr pre"

definition module_preimage :: "crypto \<Rightarrow> bytes \<Rightarrow> bytes" where
  "module_preimage cr pre =
     sha256 cr (bytes_of_string ''module'') @ bytes_of_string ''forwarding'' @ [0]
       @ sha256 cr (salt_preimage cr pre)"

definition address_of_preimage :: "crypto \<Rightarrow> bytes \<Rightarrow> string result" where
  "address_of_preimage cr pre =
     (let addr_bytes = take 20 (sha256 cr (module_preimage cr pre))
      in with_context ''Failed to encode address as bech32''
           (bech32_encode cr ''celestia'' addr_bytes))"

definition derive_forwarding_address ::
  "crypto \<Rightarrow> u32 \<Rightarrow> string \<Rightarrow> string \<Rightarrow> string option \<Rightarrow> string option \<Rightarrow> string result" where
  "derive_forwarding_address cr dest_domain dest_recipient token_id custom_hook_id
       custom_hook_metadata =
     (case parse_recipient cr dest_recipient of
        Inl e \<Rightarrow> Inl e
      | Inr recipient_bytes \<Rightarrow>
     (case parse_token_id cr token_id of
        Inl e \<Rightarrow> Inl e
      | Inr token_id_bytes \<Rightarrow>
     (case parse_hook cr custom_hook_id of
        Inl e \<Rightarrow> Inl e
      | Inr hook_bytes \<Rightarrow>
     (case parse_metadata cr custom_hook_metadata of
        Inl e \<Rightarrow> Inl e
      | Inr metadata_bytes \<Rightarrow>
          address_of_preimage cr
            (call_preimage dest_domain recipient_bytes token_id_bytes hook_bytes metadata_bytes)))))"

section \<open>Keys\<close>

text \<open>
  The relayer's account address from its private key. \<open>from_slice\<close> and \<open>account_id\<close> stand
  for \<^verbatim>\<open>cosmrs\<close>' \<^verbatim>\<open>SigningKey::from_slice\<close> and \<^verbatim>\<open>PublicKey::account_id\<close>.
\<close>

definition derive_relayer_address_from_private_key_hex ::
  "crypto \<Rightarrow> (bytes \<Rightarrow> 'key result) \<Rightarrow> (string \<Rightarrow> 'key \<Rightarrow> string result) \<Rightarrow> string
     \<Rightarrow> string result" where
  "derive_relayer_address_from_private_key_hex cr from_slice account_id private_key_hex =
     (case with_context ''Invalid private key hex'' (hex_decode cr (trim_0x (trim private_key_hex))) of
        Inl e \<Rightarrow> Inl e
      | Inr private_key \<Rightarrow>
     (case from_slice private_key of
        Inl e \<Rightarrow> Inl (''Invalid secp256k1 private key: '' @ e)
      | Inr signing_key \<Rightarrow>
     (case account_id ''celestia'' signing_key of
        Inl e \<Rightarrow> Inl (''Failed to derive address: '' @ e)
      | Inr address \<Rightarrow> Inr address)))"

text \<open>
  \<^verbatim>\<open>derive_private_key_from_mnemonic\<close>: \<open>parse_mnemonic\<close>, \<open>to_seed\<close>, \<open>parse_path\<close>,
  \<open>derive_from_path\<close> and \<open>hex_encode\<close> stand for the calls into \<^verbatim>\<open>bip39\<close>, \<^verbatim>\<open>bip32\<close> and \<^verbatim>\<open>hex\<close>.
\<close>

definition derive_private_key_from_mnemonic ::
  "(string \<Rightarrow> 'm result) \<Rightarrow> ('m \<Rightarrow> string \<Rightarrow> bytes) \<Rightarrow> (string \<Rightarrow> 'p result)
     \<Rightarrow> (bytes \<Rightarrow> 'p \<Rightarrow> bytes result) \<Rightarrow> (bytes \<Rightarrow> string) \<Rightarrow> string \<Rightarrow> string result" where
  "derive_private_key_from_mnemonic parse_mnemonic to_seed parse_path derive_from_path hex_encode
       mnemonic =
     (case parse_mnemonic mnemonic of
        Inl e \<Rightarrow> Inl (''Invalid mnemonic: '' @ e)
      | Inr m \<Rightarrow>
     (case with_context ''Failed to parse derivation path''
             (parse_path (''m/44'' @ [CHR 0x27] @ ''/118'' @ [CHR 0x27] @ ''/0'' @ [CHR 0x27] @ ''/0/0'')) of
        Inl e \<Rightarrow> Inl e
      | Inr path \<Rightarrow>
     (case with_context ''Failed to derive key from path'' (derive_from_path (to_seed m []) path) of
        Inl e \<Rightarrow> Inl e
      | Inr key_bytes \<Rightarrow> Inr (hex_encode key_bytes))))"

section \<open>What an address commits to\<close>

text \<open>
  The abstract reading of a derivation's arguments: domain, recipient, token, and the hook
  pair, which is absent when neither a hook nor metadata is given.
\<close>

type_synonym commitment = "u32 \<times> bytes \<times> bytes \<times> (bytes \<times> bytes) option"

definition hook_pair :: "bytes option \<Rightarrow> bytes option \<Rightarrow> (bytes \<times> bytes) option" where
  "hook_pair h m =
     (if h = None \<and> m = None then None
      else Some (case h of Some b \<Rightarrow> b | None \<Rightarrow> replicate 32 0, case m of Some b \<Rightarrow> b | None \<Rightarrow> []))"

definition commitment ::
  "crypto \<Rightarrow> u32 \<Rightarrow> string \<Rightarrow> string \<Rightarrow> string option \<Rightarrow> string option \<Rightarrow> commitment option" where
  "commitment cr d r t h m =
     (case (parse_recipient cr r, parse_token_id cr t, parse_hook cr h, parse_metadata cr m) of
        (Inr rb, Inr tb, Inr hb, Inr mb) \<Rightarrow> Some (d, rb, tb, hook_pair hb mb)
      | _ \<Rightarrow> None)"

definition preimage :: "commitment \<Rightarrow> bytes" where
  "preimage c = (case c of (d, rb, tb, hp) \<Rightarrow>
     replicate 28 0 @ to_be_bytes d @ rb @ tb @ (case hp of None \<Rightarrow> [] | Some (h, m) \<Rightarrow> h @ m))"

lemma call_preimage_commitment:
  "call_preimage d rb tb hb mb = preimage (d, rb, tb, hook_pair hb mb)"
  by (auto simp: call_preimage_def preimage_def hook_pair_def Let_def split: option.splits)

lemma derive_commitment:
  "commitment cr d r t h m = Some c \<Longrightarrow>
     derive_forwarding_address cr d r t h m = address_of_preimage cr (preimage c)"
  by (auto simp: commitment_def derive_forwarding_address_def call_preimage_commitment
      split: sum.splits)

lemma derive_Inr_commitment:
  "derive_forwarding_address cr d r t h m = Inr a \<Longrightarrow> \<exists>c. commitment cr d r t h m = Some c"
  by (auto simp: commitment_def derive_forwarding_address_def split: sum.splits)

lemma parse_recipient_length: "parse_recipient cr r = Inr rb \<Longrightarrow> length rb = 32"
  by (auto simp: parse_recipient_def split: sum.splits if_splits)

lemma parse_hook_length: "parse_hook cr h = Inr (Some hb) \<Longrightarrow> length hb = 32"
  by (auto simp: parse_hook_def split: sum.splits if_splits option.splits)

definition commitment_wf :: "commitment \<Rightarrow> bool" where
  "commitment_wf c \<longleftrightarrow> (case c of (d, rb, tb, hp) \<Rightarrow>
     length rb = 32 \<and> (case hp of None \<Rightarrow> True | Some (h, m) \<Rightarrow> length h = 32))"

lemma commitment_wf: "commitment cr d r t h m = Some c \<Longrightarrow> commitment_wf c"
  by (auto simp: commitment_def commitment_wf_def hook_pair_def
      dest: parse_recipient_length parse_hook_length split: sum.splits option.splits)

text \<open>
  With tokens of a fixed width the preimage determines the commitment: the bound form is
  at least 32 bytes longer than the unbound one.
\<close>

lemma preimage_inject:
  assumes "commitment_wf c" "commitment_wf c'" "length (fst (snd (snd c))) = 32"
    "length (fst (snd (snd c'))) = 32" "preimage c = preimage c'"
  shows "c = c'"
  using assms
  by (cases c; cases c')
    (auto simp: preimage_def commitment_wf_def split: option.splits)

section \<open>Hash inputs\<close>

text \<open>
  No collision between the two derivations: at each of the three hash calls, equal digests
  (at the last call, equal first 20 bytes) come from equal inputs.
\<close>

definition collision_free :: "crypto \<Rightarrow> bytes \<Rightarrow> bytes \<Rightarrow> bool" where
  "collision_free cr p q \<longleftrightarrow>
     (sha256 cr p = sha256 cr q \<longrightarrow> p = q)
     \<and> (sha256 cr (salt_preimage cr p) = sha256 cr (salt_preimage cr q) \<longrightarrow>
          salt_preimage cr p = salt_preimage cr q)
     \<and> (take 20 (sha256 cr (module_preimage cr p)) = take 20 (sha256 cr (module_preimage cr q)) \<longrightarrow>
          module_preimage cr p = module_preimage cr q)"

text \<open>Bech32 is a positional encoding with a checksum: what it encodes can be decoded.\<close>

definition bech32_injective :: "crypto \<Rightarrow> bool" where
  "bech32_injective cr \<longleftrightarrow>
     (\<forall>hrp x y s. bech32_encode cr hrp x = Inr s \<and> bech32_encode cr hrp y = Inr s \<longrightarrow> x = y)"

lemma address_of_preimage_inject:
  assumes "collision_free cr p q" and bech32: "bech32_injective cr"
    and "address_of_preimage cr p = Inr a" "address_of_preimage cr q = Inr a"
  shows "p = q"
proof -
  from assms(3,4) bech32
  have "take 20 (sha256 cr (module_preimage cr p)) = take 20 (sha256 cr (module_preimage cr q))"
    by (simp add: address_of_preimage_def Let_def bech32_injective_def) blast
  with assms(1) have "module_preimage cr p = module_preimage cr q"
    by (simp add: collision_free_def)
  then have "sha256 cr (salt_preimage cr p) = sha256 cr (salt_preimage cr q)"
    by (simp add: module_preimage_def)
  with assms(1) have "salt_preimage cr p = salt_preimage cr q"
    by (simp add: collision_free_def)
  then have "sha256 cr p = sha256 cr q" by (simp add: salt_preimage_def)
  with assms(1) show "p = q" by (simp add: collision_free_def)
qed

text \<open>A hexadecimal decoder, to instantiate the examples.\<close>

definition example_nibble :: "char \<Rightarrow> u8 option" where
  "example_nibble c =
     (let n = (of_char c :: nat) in
      if 48 \<le> n \<and> n \<le> 57 then Some (of_nat (n - 48))
      else if 97 \<le> n \<and> n \<le> 102 then Some (of_nat (n - 87))
      else if 65 \<le> n \<and> n \<le> 70 then Some (of_nat (n - 55)) else None)"

fun example_hex :: "string \<Rightarrow> bytes result" where
  "example_hex [] = Inr []"
| "example_hex [c] = Inl ''Odd number of digits''"
| "example_hex (a # b # s) =
     (case (example_nibble a, example_nibble b, example_hex s) of
        (Some x, Some y, Inr bs) \<Rightarrow> Inr ((16 * x + y) # bs)
      | _ \<Rightarrow> Inl ''Invalid character'')"

definition example_crypto :: crypto where
  "example_crypto = \<lparr>hex_decode = example_hex, sha256 = rev,
     bech32_encode = (\<lambda>hrp bs. Inr (hrp @ map (\<lambda>b. char_of (unat b)) bs))\<rparr>"

lemma example_bech32_injective: "bech32_injective example_crypto"
proof -
  have "inj (\<lambda>b :: u8. char_of (unat b))"
  proof (rule injI)
    fix b c :: u8
    assume "char_of (unat b) = char_of (unat c)"
    then have "unat b mod 256 = unat c mod 256" by (metis of_char_of)
    moreover have "unat b < 2 ^ LENGTH(8)" "unat c < 2 ^ LENGTH(8)" by (rule unsigned_less)+
    ultimately show "b = c" by (simp add: word_unat_eq_iff)
  qed
  then have "x = y" if "map (\<lambda>b :: u8. char_of (unat b)) x = map (\<lambda>b. char_of (unat b)) y" for x y
    using that by (metis map_injective)
  then show ?thesis by (auto simp: bech32_injective_def example_crypto_def)
qed

definition example_recipient :: string where
  "example_recipient = concat (replicate 31 ''00'') @ ''a1''"

definition example_token :: string where
  "example_token = concat (replicate 31 ''00'') @ ''b2''"

definition example_hook :: string where
  "example_hook = concat (replicate 31 ''00'') @ ''c3''"

lemma example_commitments:
  "commitment example_crypto 7 example_recipient example_token None None
     = Some (7, replicate 31 0 @ [0xa1], replicate 31 0 @ [0xb2], None)"
  "commitment example_crypto 7 (''0x'' @ example_recipient) (''0x'' @ example_token) None None
     = Some (7, replicate 31 0 @ [0xa1], replicate 31 0 @ [0xb2], None)"
  by code_simp+

section \<open>Properties\<close>

text \<open>C1: an address commits to everything it is derived from. Two derivations with 32-byte
  token ids that end in the same address have the same domain, recipient, token and hook
  pair, unless SHA-256 collides on the byte strings they hash. (bech32 is injective.)\<close>

theorem address_binds_commitment:
  assumes "derive_forwarding_address cr d r t h m = Inr a"
    and "derive_forwarding_address cr d' r' t' h' m' = Inr a"
    and "commitment cr d r t h m = Some c" and "commitment cr d' r' t' h' m' = Some c'"
    and "length (fst (snd (snd c))) = 32" and "length (fst (snd (snd c'))) = 32"
    and "collision_free cr (preimage c) (preimage c')"
    and "bech32_injective cr"
  shows "c = c'"
proof -
  from assms(1,3) have "address_of_preimage cr (preimage c) = Inr a"
    by (simp add: derive_commitment)
  moreover from assms(2,4) have "address_of_preimage cr (preimage c') = Inr a"
    by (simp add: derive_commitment)
  ultimately have "preimage c = preimage c'"
    using address_of_preimage_inject [OF assms(7,8)] by blast
  with assms(3-6) show ?thesis by (blast intro: preimage_inject commitment_wf)
qed

theorem address_binds_commitment_witness:
  "commitment example_crypto 7 (''0x'' @ example_recipient) (''0x'' @ example_token) None None
     = Some (7, replicate 31 0 @ [0xa1], replicate 31 0 @ [0xb2], None)"
proof -
  let ?c = "(7, replicate 31 0 @ [0xa1], replicate 31 0 @ [0xb2], None) :: commitment"
  obtain a where a: "address_of_preimage example_crypto (preimage ?c) = Inr a"
    by (simp add: address_of_preimage_def example_crypto_def Let_def)
  obtain c where c: "commitment example_crypto 7 (''0x'' @ example_recipient)
      (''0x'' @ example_token) None None = Some c" and eq: "c = ?c"
    using example_commitments(2) by blast
  have "?c = c"
  proof (rule address_binds_commitment [OF _ _ example_commitments(1) c])
    show "derive_forwarding_address example_crypto 7 example_recipient example_token None None = Inr a"
      using a by (simp only: derive_commitment [OF example_commitments(1)])
    show "derive_forwarding_address example_crypto 7 (''0x'' @ example_recipient)
        (''0x'' @ example_token) None None = Inr a"
      using a by (simp only: derive_commitment [OF example_commitments(2)])
    show "collision_free example_crypto (preimage ?c) (preimage c)"
      by (simp add: eq collision_free_def)
  qed (simp_all add: eq example_bech32_injective)
  with c show ?thesis by simp
qed

lemma parse_hook_default:
  "parse_hook cr (Some []) = Inr None" "parse_hook cr (Some ''0x'') = Inr None"
  "parse_hook cr None = Inr None"
  by (simp_all add: parse_hook_def trim_start_matches.simps)

lemma trim_0x_prefix: "trim_0x (''0x'' @ s) = trim_0x s"
  by (rule trim_start_matches_Some) simp

lemma derive_0x_prefix:
  "derive_forwarding_address cr d (''0x'' @ r) (''0x'' @ t) (Some (''0x'' @ h)) (Some (''0x'' @ m))
   = derive_forwarding_address cr d r t (Some h) (Some m)"
  by (simp only: derive_forwarding_address_def parse_recipient_def parse_token_id_def
      parse_hook_def parse_metadata_def trim_0x_prefix option.case)

text \<open>a missing hook, an empty one, a bare \<^verbatim>\<open>0x\<close> and the 32-byte zero hook, with or
  without its \<^verbatim>\<open>0x\<close> prefix, all derive the same address.\<close>

theorem default_hook_forms_agree:
  assumes "hex_decode cr (trim_0x zero) = Inr (replicate 32 0)"
  shows "\<forall>h \<in> {Some [], Some ''0x'', Some zero, Some (''0x'' @ zero)}.
    derive_forwarding_address cr d r t h m = derive_forwarding_address cr d r t None m"
proof -
  from assms have "parse_hook cr (Some zero) = Inr None"
    by (simp add: parse_hook_def)
  moreover from this have "parse_hook cr (Some (''0x'' @ zero)) = Inr None"
    by (simp only: parse_hook_def trim_0x_prefix option.case)
  ultimately show ?thesis
    by (simp only: derive_forwarding_address_def parse_hook_default ball_simps simp_thms)
qed

theorem default_hook_forms_agree_witness:
  "derive_forwarding_address example_crypto 7 example_recipient example_token
     (Some (''0x'' @ concat (replicate 32 ''00''))) None
   = derive_forwarding_address example_crypto 7 example_recipient example_token None None"
proof -
  have "hex_decode example_crypto (trim_0x (concat (replicate 32 ''00''))) = Inr (replicate 32 0)"
    by code_simp
  from default_hook_forms_agree [OF this] show ?thesis by blast
qed

text \<open>what the derivation refuses, and with which message, in the order of the checks: a
  recipient that is not hex, one that is not 32 bytes long, a token that is not hex, a
  hook that is not 32 bytes long.\<close>

theorem derive_rejections:
  "(\<forall>e. hex_decode cr (trim_0x r) = Inl e \<longrightarrow>
      derive_forwarding_address cr d r t h m = Inl ''Failed to decode dest_recipient as hex'')
   \<and> (\<forall>rb. hex_decode cr (trim_0x r) = Inr rb \<longrightarrow> length rb \<noteq> 32 \<longrightarrow>
      derive_forwarding_address cr d r t h m
        = Inl (''dest_recipient must be exactly 32 bytes, got '' @ decimal (length rb)))
   \<and> (\<forall>rb e. hex_decode cr (trim_0x r) = Inr rb \<longrightarrow> length rb = 32 \<longrightarrow>
      hex_decode cr (trim_0x t) = Inl e \<longrightarrow>
      derive_forwarding_address cr d r t h m = Inl ''Failed to decode token_id as hex'')
   \<and> (\<forall>rb tb hook hb. hex_decode cr (trim_0x r) = Inr rb \<longrightarrow> length rb = 32 \<longrightarrow>
      hex_decode cr (trim_0x t) = Inr tb \<longrightarrow> h = Some hook \<longrightarrow> trim_0x hook \<noteq> [] \<longrightarrow>
      hex_decode cr (trim_0x hook) = Inr hb \<longrightarrow> length hb \<noteq> 32 \<longrightarrow>
      derive_forwarding_address cr d r t h m
        = Inl (''custom_hook_id must be exactly 32 bytes, got '' @ decimal (length hb)))"
  by (simp add: derive_forwarding_address_def parse_recipient_def parse_token_id_def parse_hook_def)

theorem derive_rejections_witness:
  "derive_forwarding_address example_crypto 1 ''0x'' ''zz'' None None
     = Inl (''dest_recipient must be exactly 32 bytes, got '' @ decimal 0)
   \<and> derive_forwarding_address example_crypto 1 example_recipient example_token (Some ''0xdeadbeef'') None
     = Inl (''custom_hook_id must be exactly 32 bytes, got '' @ decimal 4)"
proof
  have "hex_decode example_crypto (trim_0x ''0x'') = Inr []" by code_simp
  then show "derive_forwarding_address example_crypto 1 ''0x'' ''zz'' None None
     = Inl (''dest_recipient must be exactly 32 bytes, got '' @ decimal 0)"
    using derive_rejections [of example_crypto "''0x''" 1 "''zz''" None None] by simp
  have "hex_decode example_crypto (trim_0x example_recipient) = Inr (replicate 31 0 @ [0xa1])"
    "hex_decode example_crypto (trim_0x example_token) = Inr (replicate 31 0 @ [0xb2])"
    "trim_0x ''0xdeadbeef'' \<noteq> []"
    "hex_decode example_crypto (trim_0x ''0xdeadbeef'') = Inr [0xde, 0xad, 0xbe, 0xef]"
    by code_simp+
  then show "derive_forwarding_address example_crypto 1 example_recipient example_token
      (Some ''0xdeadbeef'') None
     = Inl (''custom_hook_id must be exactly 32 bytes, got '' @ decimal 4)"
    using derive_rejections [of example_crypto example_recipient 1 example_token
        "Some ''0xdeadbeef''" None] by (simp add: numeral_eq_Suc)
qed

text \<open>C38: the token id is hashed with whatever length it decodes to, so the bound form is not
  always longer than the unbound one: a token followed by a hook and metadata, given as
  one long token id and no hook, derives the address of the hook-bound request.\<close>

theorem long_token_aliases_hook_binding:
  assumes "hex_decode cr (trim_0x token) = Inr tb"
    and "hex_decode cr (trim_0x hook) = Inr hb" and "length hb = 32" and "\<exists>b \<in> set hb. b \<noteq> 0"
    and "trim_0x hook \<noteq> []"
    and "parse_metadata cr m = Inr mb"
    and "hex_decode cr (trim_0x long) = Inr (tb @ hb @ (case mb of None \<Rightarrow> [] | Some b \<Rightarrow> b))"
  shows "derive_forwarding_address cr d r long None None
    = derive_forwarding_address cr d r token (Some hook) m"
proof -
  from assms(2-5) have "parse_hook cr (Some hook) = Inr (Some hb)"
    by (auto simp: parse_hook_def)
  moreover have "parse_metadata cr None = Inr None" by (simp add: parse_metadata_def)
  ultimately show ?thesis
    using assms(1,6,7)
    by (simp add: derive_forwarding_address_def parse_token_id_def parse_hook_default
        call_preimage_def split: option.splits sum.splits)
qed

theorem long_token_aliases_hook_binding_witness:
  "derive_forwarding_address example_crypto 7 example_recipient (example_token @ example_hook) None None
   = derive_forwarding_address example_crypto 7 example_recipient example_token
       (Some example_hook) None"
proof (rule long_token_aliases_hook_binding)
  show "hex_decode example_crypto (trim_0x example_token) = Inr (replicate 31 0 @ [0xb2])"
    "hex_decode example_crypto (trim_0x example_hook) = Inr (replicate 31 0 @ [0xc3])"
    "trim_0x example_hook \<noteq> []"
    "hex_decode example_crypto (trim_0x (example_token @ example_hook))
      = Inr ((replicate 31 0 @ [0xb2]) @ (replicate 31 0 @ [0xc3])
          @ (case None of None \<Rightarrow> [] | Some b \<Rightarrow> b))"
    by code_simp+
  show "parse_metadata example_crypto None = Inr None" by (simp add: parse_metadata_def)
qed simp_all

end
