(* ===== verification/F64.thy ===== *)
theory F64
  imports Prelude "HOL-Library.Log_Nat"
begin

text \<open>
  Rust's \<^verbatim>\<open>f64\<close>, as far as the fee computation and the gauges use it: decimal parsing,
  multiplication, conversion from and to integers. A finite number is \<open>m * 2 ^ e\<close> with
  \<open>2 ^ 52 \<le> \<bar>m\<bar> < 2 ^ 53\<close> or \<open>e = - 1074\<close> (the subnormals and zero), and every operation
  rounds its exact result to nearest, ties to even, as IEEE 754 prescribes. The sign of a
  zero is not kept: none of the operations used tells the two zeros apart.
\<close>

section \<open>Rounding\<close>

datatype f64 = NaN | Infinite bool | Finite int int

text \<open>Nearest integer to \<open>n / d\<close>, ties to even, for \<open>0 < d\<close>.\<close>

definition round_nearest_even :: "int \<Rightarrow> int \<Rightarrow> int" where
  "round_nearest_even n d =
     (let q = n div d; r = n mod d
      in if 2 * r < d \<or> (2 * r = d \<and> even q) then q else q + 1)"

text \<open>The exponent \<open>k\<close> with \<open>2 ^ k \<le> a / b < 2 ^ (k + 1)\<close>, for positive \<open>a\<close> and \<open>b\<close>.\<close>

definition ilog2_ratio :: "int \<Rightarrow> int \<Rightarrow> int" where
  "ilog2_ratio a b =
     (let k = bitlen a - bitlen b
      in if b * 2 ^ nat k \<le> a * 2 ^ nat (- k) then k else k - 1)"

definition round_pos :: "int \<Rightarrow> int \<Rightarrow> int \<times> int" where
  "round_pos a b =
     (let e = max (- 1074) (ilog2_ratio a b - 52);
          m = round_nearest_even (a * 2 ^ nat (- e)) (b * 2 ^ nat e)
      in if m = 2 ^ 53 then (2 ^ 52, e + 1) else (m, e))"

definition round_ratio :: "int \<Rightarrow> int \<Rightarrow> f64" where
  "round_ratio a b =
     (if a = 0 then Finite 0 (- 1074)
      else let (m, e) = round_pos \<bar>a\<bar> b
           in if e > 971 then Infinite (a < 0) else Finite (sgn a * m) e)"

section \<open>Operations\<close>

definition f64_of_int :: "int \<Rightarrow> f64" where
  "f64_of_int n = round_ratio n 1"

instantiation f64 :: times
begin

fun times_f64 :: "f64 \<Rightarrow> f64 \<Rightarrow> f64" where
  "NaN * y = NaN"
| "x * NaN = NaN"
| "Infinite s * Infinite t = Infinite (s \<noteq> t)"
| "Infinite s * Finite m e = (if m = 0 then NaN else Infinite (s \<noteq> (m < 0)))"
| "Finite m e * Infinite s = (if m = 0 then NaN else Infinite (s \<noteq> (m < 0)))"
| "Finite m e * Finite n f = round_ratio (m * n * 2 ^ nat (e + f)) (2 ^ nat (- (e + f)))"

instance ..

end

text \<open>\<^verbatim>\<open>x as u64\<close>: truncates towards zero, saturates, and sends NaN to 0.\<close>

fun f64_trunc :: "f64 \<Rightarrow> int" where
  "f64_trunc NaN = 0"
| "f64_trunc (Infinite s) = (if s then 0 else 2 ^ 64 - 1)"
| "f64_trunc (Finite m e) =
     (if m < 0 then 0 else min (2 ^ 64 - 1) (m * 2 ^ nat e div 2 ^ nat (- e)))"

definition f64_as_u64 :: "f64 \<Rightarrow> u64" where
  "f64_as_u64 x = word_of_int (f64_trunc x)"

section \<open>Parsing\<close>

definition digit_value :: "char \<Rightarrow> int" where
  "digit_value c = int (of_char c) - 48"

definition digits_value :: "string \<Rightarrow> int" where
  "digits_value s = foldl (\<lambda>n c. 10 * n + digit_value c) 0 s"

definition to_lower :: "char \<Rightarrow> char" where
  "to_lower c = (let n = (of_char c :: nat) in if 65 \<le> n \<and> n \<le> 90 then char_of (n + 32) else c)"

definition strip_sign :: "string \<Rightarrow> bool \<times> string" where
  "strip_sign s =
     (case s of [] \<Rightarrow> (False, [])
      | c # r \<Rightarrow> if c = CHR ''-'' then (True, r) else if c = CHR ''+'' then (False, r)
                 else (False, s))"

definition scale10 :: "int \<Rightarrow> int \<Rightarrow> f64" where
  "scale10 d x = round_ratio (d * 10 ^ nat x) (10 ^ nat (- x))"

text \<open>
  The grammar of \<^verbatim>\<open>f64::from_str\<close>: digits with an optional fraction (one digit at least on
  one side of the point), then an optional exponent.
\<close>

definition parse_exponent :: "string \<Rightarrow> int option" where
  "parse_exponent s =
     (case s of [] \<Rightarrow> Some 0
      | c # r \<Rightarrow>
          if to_lower c = CHR ''e'' then
            (let (neg, ds) = strip_sign r in
             if ds \<noteq> [] \<and> (\<forall>d \<in> set ds. is_digit d)
             then Some (if neg then - digits_value ds else digits_value ds) else None)
          else None)"

definition parse_number :: "string \<Rightarrow> f64 option" where
  "parse_number s =
     (let ip = takeWhile is_digit s; rest = dropWhile is_digit s;
          (fp, rest') = (case rest of
             c # r \<Rightarrow> if c = CHR ''.'' then (takeWhile is_digit r, dropWhile is_digit r)
                      else ([], rest)
           | [] \<Rightarrow> ([], []))
      in if ip @ fp = [] then None
         else map_option (\<lambda>x. scale10 (digits_value (ip @ fp)) (x - int (length fp)))
                (parse_exponent rest'))"

fun f64_neg :: "f64 \<Rightarrow> f64" where
  "f64_neg NaN = NaN"
| "f64_neg (Infinite s) = Infinite (\<not> s)"
| "f64_neg (Finite m e) = Finite (- m) e"

definition f64_parse :: "string \<Rightarrow> f64 option" where
  "f64_parse s =
     (let (neg, r) = strip_sign s; l = map to_lower r in
      map_option (\<lambda>x. if neg then f64_neg x else x)
        (if l = ''inf'' \<or> l = ''infinity'' then Some (Infinite False)
         else if l = ''nan'' then Some NaN
         else parse_number r))"

section \<open>Facts about rounding\<close>

lemma round_nearest_even_ge_div: "n div d \<le> round_nearest_even n d"
  by (simp add: round_nearest_even_def Let_def)

lemma round_nearest_even_le_div: "round_nearest_even n d \<le> n div d + 1"
  by (simp add: round_nearest_even_def Let_def)

lemma round_nearest_even_mono_int:
  assumes "0 < d" and "k * d \<le> n"
  shows "k \<le> round_nearest_even n d"
proof -
  from assms have "k \<le> n div d" by (simp add: zdiv_mono1 [of "k * d" n d, simplified])
  with round_nearest_even_ge_div [of n d] show ?thesis by linarith
qed

lemma round_nearest_even_exact [simp]: "round_nearest_even n 1 = n"
  by (simp add: round_nearest_even_def)

lemma ilog2_ratio_le:
  assumes "0 < a" and "0 < b"
  shows "b * 2 ^ nat (ilog2_ratio a b) \<le> a * 2 ^ nat (- ilog2_ratio a b)"
proof -
  let ?la = "bitlen a" and ?lb = "bitlen b"
  let ?k = "?la - ?lb"
  have la: "1 \<le> ?la" and lb: "1 \<le> ?lb"
    using assms by (auto simp: bitlen_alt_def)
  from bitlen_bounds [OF assms(1)] have a: "2 ^ nat (?la - 1) \<le> a" by simp
  from bitlen_bounds [OF assms(2)] have b: "b \<le> 2 ^ nat ?lb" by simp
  show ?thesis
  proof (cases "b * 2 ^ nat ?k \<le> a * 2 ^ nat (- ?k)")
    case True
    then show ?thesis by (simp add: ilog2_ratio_def Let_def)
  next
    case False
    then have k: "ilog2_ratio a b = ?k - 1" by (simp add: ilog2_ratio_def Let_def)
    show ?thesis
    proof (cases "1 \<le> ?k")
      case True
      then have "nat ?lb + nat (?k - 1) = nat (?la - 1)" using la lb by linarith
      then have "(2::int) ^ nat ?lb * 2 ^ nat (?k - 1) = 2 ^ nat (?la - 1)"
        by (simp add: power_add [symmetric])
      with b a have "b * 2 ^ nat (?k - 1) \<le> a"
        by (metis dual_order.trans mult_right_mono zero_le_numeral zero_le_power)
      with True k show ?thesis by simp
    next
      case F: False
      then have "nat (?la - 1) + nat (1 - ?k) = nat ?lb" using la lb by linarith
      then have "(2::int) ^ nat (?la - 1) * 2 ^ nat (1 - ?k) = 2 ^ nat ?lb"
        by (simp add: power_add [symmetric])
      with b a have "b \<le> a * 2 ^ nat (1 - ?k)"
        by (metis dual_order.trans mult_right_mono zero_le_numeral zero_le_power)
      with F k show ?thesis by simp
    qed
  qed
qed

text \<open>The integer part of \<open>m * 2 ^ e\<close>.\<close>

definition scaled :: "int \<Rightarrow> int \<Rightarrow> int" where
  "scaled m e = m * 2 ^ nat e div 2 ^ nat (- e)"

lemma scaled_mono: "m \<le> m' \<Longrightarrow> scaled m e \<le> scaled m' e"
  by (simp add: scaled_def zdiv_mono1)

lemma scaled_carry: "scaled (2 ^ 52) (e + 1) = scaled (2 ^ 53) e"
proof (cases "0 \<le> e")
  case True
  then have "nat (e + 1) = Suc (nat e)" "nat (- e) = 0" "nat (- (e + 1)) = 0" by auto
  then show ?thesis by (simp add: scaled_def)
next
  case False
  then have "nat (- e) = Suc (nat (- (e + 1)))" "nat e = 0" "nat (e + 1) = 0" by auto
  then show ?thesis by (simp add: scaled_def)
qed

lemma round_pos_carry:
  "round_pos a b = (m, e) \<Longrightarrow>
     \<exists>m' e'. e' = max (- 1074) (ilog2_ratio a b - 52)
        \<and> m' = round_nearest_even (a * 2 ^ nat (- e')) (b * 2 ^ nat e')
        \<and> scaled m e = scaled m' e' \<and> e' \<le> e \<and> (0 < m' \<longrightarrow> 0 < m)"
  by (auto simp: round_pos_def Let_def scaled_carry [simplified] split: if_splits)

text \<open>
  Rounding never crosses an integer below \<open>2 ^ 53\<close> downwards: all of these are
  representable.
\<close>

lemma round_pos_ge:
  assumes "0 < b" and "0 \<le> n" and "n < 2 ^ 53" and "n * b \<le> a" and "0 < a"
    and "round_pos a b = (m, e)"
  shows "n \<le> scaled m e"
proof -
  from round_pos_carry [OF assms(6)] obtain m' e' where
    e': "e' = max (- 1074) (ilog2_ratio a b - 52)" and
    m': "m' = round_nearest_even (a * 2 ^ nat (- e')) (b * 2 ^ nat e')" and
    sc: "scaled m e = scaled m' e'"
    by blast
  show ?thesis
  proof (cases "e' \<le> 0")
    case True
    let ?s = "2 ^ nat (- e') :: int"
    from assms(4) have "n * ?s * b \<le> a * ?s"
      by (metis mult.assoc mult.commute mult_right_mono zero_le_numeral zero_le_power)
    then have "n * ?s \<le> m'"
      using True assms(1) by (simp add: m' round_nearest_even_mono_int)
    then have "n \<le> m' div ?s" by (metis zdiv_mono1 nonzero_mult_div_cancel_right
          power_not_zero zero_less_numeral zero_less_power zero_neq_numeral)
    moreover have "scaled m' e' = m' div ?s" using True by (simp add: scaled_def)
    ultimately show ?thesis by (simp only: sc)
  next
    case False
    then have k: "ilog2_ratio a b = e' + 52" using e' by linarith
    then have "nat (ilog2_ratio a b) = 52 + nat e'" "nat (- ilog2_ratio a b) = 0"
      using False by auto
    with ilog2_ratio_le [OF assms(5,1)] have "2 ^ 52 * (b * 2 ^ nat e') \<le> a"
      by (simp add: power_add mult.assoc mult.left_commute)
    then have "2 ^ 52 \<le> m'"
      using False assms(1) m' round_nearest_even_mono_int [of "b * 2 ^ nat e'" "2 ^ 52" a] by simp
    moreover have "(2::int) \<le> 2 ^ nat e'"
      using False self_le_power [of "2::int" "nat e'"] by simp
    ultimately have "2 ^ 52 * 2 \<le> m' * 2 ^ nat e'"
      by (intro mult_mono) auto
    moreover have "scaled m' e' = m' * 2 ^ nat e'" using False by (simp add: scaled_def)
    ultimately show ?thesis using assms(3) by (simp add: sc)
  qed
qed

lemma round_ratio_trunc_ge:
  assumes "0 < b" and "0 \<le> n" and "n < 2 ^ 53" and "n * b \<le> a"
  shows "n \<le> f64_trunc (round_ratio a b)"
proof (cases "a = 0")
  case True
  with assms have "n \<le> 0"
    by (metis mult_le_0_iff not_le order_antisym_conv)
  with True show ?thesis by (simp add: round_ratio_def)
next
  case False
  with assms have a: "0 < a" by (smt (verit) mult_nonneg_nonneg)
  obtain m e where me: "round_pos a b = (m, e)" by fastforce
  from round_pos_ge [OF assms a me] have "n \<le> scaled m e" .
  moreover have "scaled m e \<le> 0" if "m < 0"
    using that scaled_mono [of m 0 e] by (simp add: scaled_def)
  ultimately show ?thesis using assms(2,3) a me
    by (auto simp: round_ratio_def scaled_def Let_def)
qed

text \<open>Integers below \<open>2 ^ 53\<close> are represented exactly.\<close>

lemma f64_of_int_exact:
  assumes "0 < n" and "n < 2 ^ 53"
  shows "\<exists>e \<le> 0. f64_of_int n = Finite (n * 2 ^ nat (- e)) e"
proof -
  have one: "bitlen 1 = 1" by (simp add: bitlen_alt_def)
  from assms(2) have le: "bitlen n \<le> 53" by (simp add: bitlen_le_iff_power)
  from assms(1) have ge: "1 \<le> bitlen n" by (auto simp: bitlen_alt_def)
  with bitlen_bounds [OF assms(1)] have k: "ilog2_ratio n 1 = bitlen n - 1"
    by (simp add: ilog2_ratio_def one)
  let ?e = "bitlen n - 53"
  have e: "max (- 1074) (ilog2_ratio n 1 - 52) = ?e" using ge k by simp
  have "n < 2 ^ nat (bitlen n)" using bitlen_bounds [OF assms(1)] by simp
  then have "n * 2 ^ nat (- ?e) < 2 ^ nat (bitlen n) * 2 ^ nat (- ?e)" by simp
  also have "\<dots> = 2 ^ (nat (bitlen n) + nat (- ?e))" by (simp add: power_add)
  also have "nat (bitlen n) + nat (- ?e) = 53" using le ge by linarith
  finally have "n * 2 ^ nat (- ?e) \<noteq> 2 ^ 53" by simp
  then have "round_pos n 1 = (n * 2 ^ nat (- ?e), ?e)"
    unfolding round_pos_def Let_def e using le by simp
  with assms(1) le show ?thesis
    by (intro exI [of _ ?e]) (simp add: f64_of_int_def round_ratio_def)
qed

text \<open>Multiplying by a factor of at least one does not lose an integral quote.\<close>

lemma f64_mult_ge:
  assumes "0 \<le> n" and "n < 2 ^ 53" and "1 \<le> scaled mb eb"
  shows "n \<le> f64_trunc (f64_of_int n * Finite mb eb)"
proof (cases "n = 0")
  case True
  have "0 \<le> f64_trunc (round_ratio 0 (2 ^ k))" for k by (simp add: round_ratio_def)
  with True show ?thesis by (simp add: f64_of_int_def round_ratio_def)
next
  case False
  with assms(1) have n: "0 < n" by simp
  from f64_of_int_exact [OF n assms(2)] obtain e where
    e: "e \<le> 0" and x: "f64_of_int n = Finite (n * 2 ^ nat (- e)) e" by blast
  have "2 ^ nat (- (e + eb)) \<le> 2 ^ nat (- e) * mb * 2 ^ nat (e + eb)"
  proof (cases "0 \<le> eb")
    case True
    with assms(3) have mb: "1 \<le> mb"
      by (simp add: scaled_def) (metis int_one_le_iff_zero_less mult_le_0_iff not_le zero_le_numeral zero_le_power order_less_le_trans zero_less_one)
    have "(2::int) ^ nat (- (e + eb)) \<le> 2 ^ nat (- e)"
      using True by (intro power_increasing) auto
    also have "\<dots> \<le> 2 ^ nat (- e) * (mb * 2 ^ nat (e + eb))"
      using mb by (simp add: mult_le_cancel_left1 mult_pos_pos int_one_le_iff_zero_less)
    finally show ?thesis by (simp add: mult.assoc)
  next
    case F: False
    with assms(3) have "1 * 2 ^ nat (- eb) \<le> mb"
      by (simp add: scaled_def pos_imp_zdiv_pos_iff int_one_le_iff_zero_less)
    moreover have "nat (- (e + eb)) = nat (- e) + nat (- eb)" "nat (e + eb) = 0"
      using F e by auto
    ultimately show ?thesis by (simp add: power_add)
  qed
  with n have "n * 2 ^ nat (- (e + eb)) \<le> n * (2 ^ nat (- e) * mb * 2 ^ nat (e + eb))"
    by simp
  then have "n \<le> f64_trunc (round_ratio (n * 2 ^ nat (- e) * mb * 2 ^ nat (e + eb)) (2 ^ nat (- (e + eb))))"
    using assms(1,2) by (intro round_ratio_trunc_ge) (simp_all add: mult.assoc)
  then show ?thesis by (simp add: x)
qed

lemma f64_trunc_range: "0 \<le> f64_trunc x \<and> f64_trunc x < 2 ^ 64"
proof (cases x)
  case (Finite m e)
  have "0 \<le> m \<Longrightarrow> 0 \<le> m * 2 ^ nat e div 2 ^ nat (- e)"
    by (simp add: pos_imp_zdiv_nonneg_iff)
  with Finite show ?thesis by (simp add: min_less_iff_disj)
qed auto

lemma uint_f64_as_u64: "uint (f64_as_u64 x) = f64_trunc x"
  using f64_trunc_range [of x] by (simp add: f64_as_u64_def uint_word_of_int_eq take_bit_int_eq_self)

section \<open>Decimal integers parse to themselves\<close>

lemma digit_value_digit_char: "d < 10 \<Longrightarrow> digit_value (digit_char d) = int d"
  by (simp add: digit_value_def digit_char_def)

lemma digits_value_decimal: "digits_value (decimal n) = int n"
proof (induction n rule: decimal.induct)
  case (1 n)
  show ?case
  proof (cases "n < 10")
    case True
    then show ?thesis
      by (subst decimal.simps) (simp add: digits_value_def digit_value_digit_char)
  next
    case False
    with 1 have "digits_value (decimal (n div 10)) = int (n div 10)" by simp
    moreover have "decimal n = decimal (n div 10) @ [digit_char (n mod 10)]"
      using False by (subst decimal.simps) simp
    ultimately have "digits_value (decimal n) = 10 * int (n div 10) + int (n mod 10)"
      by (simp add: digits_value_def digit_value_digit_char)
    also have "\<dots> = int n" by presburger
    finally show ?thesis .
  qed
qed

lemma is_digit_not_letter:
  "is_digit c \<Longrightarrow> to_lower c = c \<and> c \<noteq> CHR ''i'' \<and> c \<noteq> CHR ''n'' \<and> c \<noteq> CHR ''-'' \<and> c \<noteq> CHR ''+''"
  by (auto simp: is_digit_def to_lower_def Let_def)

lemma f64_parse_decimal: "f64_parse (decimal n) = Some (f64_of_int (int n))"
proof -
  obtain c r where cr: "decimal n = c # r" by (cases "decimal n") auto
  with decimal_digits [of n] have c: "is_digit c" by simp
  from is_digit_not_letter [OF c] cr have sign: "strip_sign (decimal n) = (False, decimal n)"
    by (simp add: strip_sign_def)
  from is_digit_not_letter [OF c] cr
  have "map to_lower (decimal n) \<notin> {''inf'', ''infinity'', ''nan''}" by auto
  moreover have tw: "takeWhile is_digit (decimal n) = decimal n"
    and dw: "dropWhile is_digit (decimal n) = []"
    using decimal_digits by (auto simp: takeWhile_eq_all_conv)
  have "parse_number (decimal n) = Some (f64_of_int (int n))"
    unfolding parse_number_def Let_def tw dw
    by (simp add: parse_exponent_def scale10_def f64_of_int_def digits_value_decimal)
  ultimately show ?thesis by (simp add: f64_parse_def sign)
qed

end
