(* ===== verification/Types.thy ===== *)
theory Types
  imports F64
begin

text \<open>
  The data shared by the backend and the relayer (\<^verbatim>\<open>src/lib.rs\<close>), the metrics both emit,
  and the interface through which the relayer sees the backend's request registry.
\<close>

section \<open>Requests and balances\<close>

record forwarding_request =
  forward_addr :: string
  dest_domain :: u32
  dest_recipient :: string
  token_id :: string
  custom_hook_id :: "string option"
  custom_hook_metadata :: "string option"
  created_at :: string

record create_forwarding_request =
  c_forward_addr :: string
  c_dest_domain :: u32
  c_dest_recipient :: string
  c_token_id :: string
  c_custom_hook_id :: "string option"
  c_custom_hook_metadata :: "string option"

record balance =
  denom :: string
  amount :: string

section \<open>Metrics\<close>

datatype metric =
    Counter string "(string \<times> string) list" nat
  | Gauge string "(string \<times> string) list" f64

text \<open>How often a counter was incremented under a label value, over a metrics log.\<close>

fun counter_label :: "string \<Rightarrow> string \<Rightarrow> metric \<Rightarrow> string option" where
  "counter_label name label (Counter n ls _) = (if n = name then map_of ls label else None)"
| "counter_label name label (Gauge _ _ _) = None"

definition counted :: "string \<Rightarrow> string \<Rightarrow> metric list \<Rightarrow> string list" where
  "counted name label ms = List.map_filter (counter_label name label) ms"

lemma counted_simps [simp]:
  "counted name label [] = []"
  "counted name label (m # ms) =
     (case counter_label name label m of None \<Rightarrow> counted name label ms
      | Some v \<Rightarrow> v # counted name label ms)"
  by (simp_all add: counted_def map_filter_simps split: option.splits)

lemma counted_append [simp]: "counted name label (xs @ ys) = counted name label xs @ counted name label ys"
  by (induction xs) (auto split: option.splits)

section \<open>The registry interface\<close>

text \<open>
  What the relayer relies on: a listing with at most one request per address, and a
  completion that removes exactly the request of one address.
\<close>

locale registry =
  fixes fetch :: "'s \<Rightarrow> forwarding_request list"
    and complete :: "string \<Rightarrow> 's \<Rightarrow> 's"
    and ok :: "'s \<Rightarrow> bool"
  assumes fetch_distinct: "ok s \<Longrightarrow> distinct (map forward_addr (fetch s))"
    and fetch_complete: "ok s \<Longrightarrow>
      set (fetch (complete a s)) = {r \<in> set (fetch s). forward_addr r \<noteq> a}"
    and ok_complete: "ok s \<Longrightarrow> ok (complete a s)"
begin

lemma ok_complete_all: "ok s \<Longrightarrow> ok (fold complete as s)"
  by (induction as arbitrary: s) (auto simp: ok_complete)

lemma fetch_complete_all:
  "ok s \<Longrightarrow> set (fetch (fold complete as s)) = {r \<in> set (fetch s). forward_addr r \<notin> set as}"
proof (induction as arbitrary: s)
  case (Cons a as)
  then show ?case by (auto simp: fetch_complete ok_complete)
qed simp

lemma complete_idem: "ok s \<Longrightarrow> set (fetch (complete a (complete a s))) = set (fetch (complete a s))"
  by (auto simp: fetch_complete ok_complete)

end

end
