(* ===== verification/Client.thy ===== *)
theory Client
  imports Failover Auth Address Types "HOL-Library.Multiset"
begin

text \<open>
  \<^verbatim>\<open>src/client.rs\<close>: the Celestia gRPC client. Its endpoints are tried in rotation from a
  preferred one; a query fails over within the call, a submission never does. The node's
  side of each call is a field of the record \<open>grpc_env\<close>, so every theorem holds for all
  patterns of answers, errors and timeouts.

  A panic (\<^verbatim>\<open>expect\<close>, an index out of bounds) is the error with its message. Each call is
  one step of the client: \<open>current\<close> is the atomic counter, \<open>client_log\<close> the metrics and
  \<open>submissions\<close> the trace of messages handed to the transaction client, with the URL of
  its endpoint.
\<close>

section \<open>Messages and endpoints\<close>

record hook_binding =
  hook_id :: "string option"
  metadata :: "string option"

record coin =
  coin_denom :: string
  coin_amount :: string

record quote_request =
  qr_dest_domain :: u32
  qr_token_id :: string
  qr_custom_hook_id :: string
  qr_custom_hook_metadata :: string

record msg_forward =
  mf_signer :: string
  mf_forward_addr :: string
  mf_dest_domain :: u32
  mf_dest_recipient :: string
  mf_token_id :: string
  mf_max_igp_fee :: "coin option"
  mf_custom_hook_id :: string
  mf_custom_hook_metadata :: string

record grpc_endpoint =
  ge_url :: string
  ge_channel_token :: "string option"
  ge_tx_token :: "string option"

text \<open>What a call under \<^verbatim>\<open>tokio::time::timeout\<close> can end in.\<close>

datatype 'a call = TimedOut | Refused string | Reply 'a

definition call_result :: "string \<Rightarrow> string \<Rightarrow> 'a call \<Rightarrow> 'a result" where
  "call_result timed_out refused c =
     (case c of TimedOut \<Rightarrow> Inl timed_out | Refused _ \<Rightarrow> Inl refused | Reply a \<Rightarrow> Inr a)"

record grpc_env =
  all_balances :: "grpc_endpoint \<Rightarrow> string \<Rightarrow> coin list call"
  quote_forwarding_fee :: "grpc_endpoint \<Rightarrow> quote_request \<Rightarrow> coin option call"
  submit_message :: "grpc_endpoint \<Rightarrow> msg_forward \<Rightarrow> string call"

record celestia_client =
  endpoints :: "grpc_endpoint list"
  current :: nat
  signer_address :: string
  client_log :: "metric list"
  submissions :: "(string \<times> msg_forward) list"

type_synonym 'a client_io = "celestia_client \<Rightarrow> 'a result \<times> celestia_client"

section \<open>Construction\<close>

definition AUTH_METADATA_KEY :: string where
  "AUTH_METADATA_KEY = ''x-token''"

text \<open>\<^verbatim>\<open>AuthInterceptor::call\<close> on the metadata of a request.\<close>

definition intercept :: "string option \<Rightarrow> (string, string) hmap \<Rightarrow> (string, string) hmap" where
  "intercept token md =
     (case token of Some t \<Rightarrow> hm_insert AUTH_METADATA_KEY t md | None \<Rightarrow> md)"

text \<open>
  \<^verbatim>\<open>GrpcEndpoint::build\<close>. \<open>endpoint_new\<close> and \<open>tx_build\<close> are tonic's and lumina's
  constructors, \<open>parse_ascii\<close> tonic's metadata parser.
\<close>

definition build_endpoint ::
  "(string \<Rightarrow> unit result) \<Rightarrow> (string \<Rightarrow> string option \<Rightarrow> string \<Rightarrow> unit result)
     \<Rightarrow> (string \<Rightarrow> string option) \<Rightarrow> string \<Rightarrow> endpoint_spec \<Rightarrow> grpc_endpoint result" where
  "build_endpoint endpoint_new tx_build parse_ascii private_key_hex spec =
     (case with_context (''Invalid CELESTIA_GRPC URL (expected http/https): '' @ ep_url spec)
             (endpoint_new (ep_url spec)) of
        Inl e \<Rightarrow> Inl e
      | Inr _ \<Rightarrow>
     (case map_option (metadata_value parse_ascii) (ep_token spec) of
        Some None \<Rightarrow> Inl ''a URL-safe AuthToken is always a valid ASCII metadata value''
      | channel_token \<Rightarrow>
     (case with_context (''Failed to initialize Celestia gRPC tx client for '' @ ep_url spec)
             (tx_build (ep_url spec) (map_option as_str (ep_token spec)) private_key_hex) of
        Inl e \<Rightarrow> Inl e
      | Inr _ \<Rightarrow> Inr \<lparr>ge_url = ep_url spec,
            ge_channel_token = Option.bind channel_token id,
            ge_tx_token = map_option as_str (ep_token spec)\<rparr>)))"

definition prepare_private_key ::
  "crypto \<Rightarrow> (bytes \<Rightarrow> 'key result) \<Rightarrow> (string \<Rightarrow> 'key \<Rightarrow> string result) \<Rightarrow> string
     \<Rightarrow> (string \<times> string) result" where
  "prepare_private_key cr from_slice account_id private_key_hex =
     (let normalized = trim_0x (trim private_key_hex) in
      case with_context ''Invalid private key hex'' (hex_decode cr normalized) of
        Inl e \<Rightarrow> Inl e
      | Inr private_key \<Rightarrow>
     (case from_slice private_key of
        Inl e \<Rightarrow> Inl (''Invalid secp256k1 private key: '' @ e)
      | Inr signing_key \<Rightarrow>
     (case account_id ''celestia'' signing_key of
        Inl e \<Rightarrow> Inl (''Failed to get account ID: '' @ e)
      | Inr address \<Rightarrow> Inr (normalized, address))))"

definition client_new ::
  "crypto \<Rightarrow> (bytes \<Rightarrow> 'key result) \<Rightarrow> (string \<Rightarrow> 'key \<Rightarrow> string result)
     \<Rightarrow> (string \<Rightarrow> unit result) \<Rightarrow> (string \<Rightarrow> string option \<Rightarrow> string \<Rightarrow> unit result)
     \<Rightarrow> (string \<Rightarrow> string option) \<Rightarrow> string \<Rightarrow> string \<Rightarrow> celestia_client result" where
  "client_new cr from_slice account_id endpoint_new tx_build parse_ascii grpc_urls private_key_hex =
     (case prepare_private_key cr from_slice account_id private_key_hex of
        Inl e \<Rightarrow> Inl e
      | Inr (key, signer) \<Rightarrow>
     (case parse_endpoint_specs grpc_urls of
        Inl e \<Rightarrow> Inl e
      | Inr specs \<Rightarrow>
     (case collect_results (map (build_endpoint endpoint_new tx_build parse_ascii key) specs) of
        Inl e \<Rightarrow> Inl e
      | Inr eps \<Rightarrow>
          if eps = [] then Inl ''CELESTIA_GRPC contained no usable URLs''
          else Inr \<lparr>endpoints = eps, current = 0, signer_address = signer,
                 client_log = [], submissions = []\<rparr>)))"

definition endpoint_count :: "celestia_client \<Rightarrow> nat" where
  "endpoint_count c = length (endpoints c)"

definition client_url_list :: "celestia_client \<Rightarrow> string" where
  "client_url_list c = join '', '' (map ge_url (endpoints c))"

section \<open>Queries\<close>

definition grpc_failover_metric :: metric where
  "grpc_failover_metric = Counter ''relayer_grpc_failover_total'' [] 1"

definition with_failover :: "string \<Rightarrow> (grpc_endpoint \<Rightarrow> 'a result) \<Rightarrow> 'a client_io" where
  "with_failover what op c =
     (let start = current c; count = length (endpoints c) in
      case try_each (\<lambda>idx. op (endpoints c ! idx)) (rotation start count) None of
        Inr (idx, value) \<Rightarrow>
          (Inr value,
           if idx \<noteq> start
           then c\<lparr>current := idx, client_log := client_log c @ [grpc_failover_metric]\<rparr>
           else c)
      | Inl (Some e) \<Rightarrow> (Inl (what @ '' failed on all gRPC endpoints''), c)
      | Inl None \<Rightarrow> (Inl ''pool has at least one endpoint'', c))"

definition query_balances :: "grpc_env \<Rightarrow> string \<Rightarrow> balance list client_io" where
  "query_balances env address c =
     (case with_failover ''Balance query''
             (\<lambda>ep. call_result ''Balance query timed out'' ''Failed to query balances via gRPC''
                     (all_balances env ep address)) c of
        (Inl e, c') \<Rightarrow> (Inl e, c')
      | (Inr coins, c') \<Rightarrow>
          (Inr (map (\<lambda>x. \<lparr>denom = coin_denom x, amount = coin_amount x\<rparr>) coins), c'))"

definition unwrap_or_default :: "string option \<Rightarrow> string" where
  "unwrap_or_default s = (case s of Some x \<Rightarrow> x | None \<Rightarrow> [])"

definition quote_request_of :: "u32 \<Rightarrow> string \<Rightarrow> hook_binding \<Rightarrow> quote_request" where
  "quote_request_of domain token hook =
     \<lparr>qr_dest_domain = domain, qr_token_id = token,
      qr_custom_hook_id = unwrap_or_default (hook_id hook),
      qr_custom_hook_metadata = unwrap_or_default (metadata hook)\<rparr>"

definition quoted_amount :: "coin option \<Rightarrow> string" where
  "quoted_amount fee = (case fee of Some f \<Rightarrow> coin_amount f | None \<Rightarrow> ''0'')"

definition query_igp_fee :: "grpc_env \<Rightarrow> u32 \<Rightarrow> string \<Rightarrow> hook_binding \<Rightarrow> string client_io" where
  "query_igp_fee env domain token hook c =
     (case with_failover ''IGP fee query''
             (\<lambda>ep. map_sum id quoted_amount
                (call_result ''IGP fee query timed out''
                   ''Failed to query IGP fee via forwarding gRPC query''
                   (quote_forwarding_fee env ep (quote_request_of domain token hook)))) c of
        (Inr fee, c') \<Rightarrow> (Inr fee, c')
      | (Inl e, c') \<Rightarrow> (Inr ''0'', c'))"

section \<open>Submission\<close>

definition ends_with :: "string \<Rightarrow> string \<Rightarrow> bool" where
  "ends_with pat s = (strip_prefix (rev pat) (rev s) \<noteq> None)"

definition fee_coin :: "string \<Rightarrow> coin" where
  "fee_coin max_igp_fee =
     (let fee_amount = trim_end_matches ''utoken'' (trim_end_matches ''utia'' max_igp_fee);
          fee_denom = if ends_with ''utia'' max_igp_fee then ''utia'' else ''utoken''
      in \<lparr>coin_denom = fee_denom, coin_amount = fee_amount\<rparr>)"

definition forward_message ::
  "string \<Rightarrow> string \<Rightarrow> u32 \<Rightarrow> string \<Rightarrow> string \<Rightarrow> string \<Rightarrow> hook_binding \<Rightarrow> msg_forward" where
  "forward_message signer addr domain recipient token max_igp_fee hook =
     \<lparr>mf_signer = signer, mf_forward_addr = addr, mf_dest_domain = domain,
      mf_dest_recipient = recipient, mf_token_id = token,
      mf_max_igp_fee = Some (fee_coin max_igp_fee),
      mf_custom_hook_id = unwrap_or_default (hook_id hook),
      mf_custom_hook_metadata = unwrap_or_default (metadata hook)\<rparr>"

definition submit_forward ::
  "grpc_env \<Rightarrow> string \<Rightarrow> u32 \<Rightarrow> string \<Rightarrow> string \<Rightarrow> string \<Rightarrow> hook_binding \<Rightarrow> string client_io" where
  "submit_forward env addr domain recipient token max_igp_fee hook c =
     (let msg = forward_message (signer_address c) addr domain recipient token max_igp_fee hook;
          idx = current c; count = length (endpoints c)
      in if count \<le> idx then (Inl ''index out of bounds'', c)
         else
           let endpoint = endpoints c ! idx;
               c1 = c\<lparr>submissions := submissions c @ [(ge_url endpoint, msg)]\<rparr>
           in case call_result ''Transaction submission timed out'' ''Failed to submit MsgForward''
                     (submit_message env endpoint msg) of
                Inr tx_hash \<Rightarrow> (Inr tx_hash, c1)
              | Inl e \<Rightarrow>
                  (Inl e,
                   if 1 < count
                   then c1\<lparr>current := (idx + 1) mod count,
                        client_log := client_log c @ [grpc_failover_metric]\<rparr>
                   else c1))"

section \<open>The pool\<close>

definition client_ok :: "celestia_client \<Rightarrow> bool" where
  "client_ok c \<longleftrightarrow> current c < length (endpoints c)"

interpretation grpc_pool: endpoint_pool
  "\<lambda>c. rotation (current c) (length (endpoints c))" "\<lambda>c. {..<length (endpoints c)}" client_ok
proof unfold_locales
  fix c assume "client_ok c"
  then show "{..<length (endpoints c)} \<noteq> {}" by (auto simp: client_ok_def)
qed simp_all

text \<open>Everything the client keeps fixed while it works.\<close>

definition same_endpoints :: "celestia_client \<Rightarrow> celestia_client \<Rightarrow> bool" where
  "same_endpoints c c' \<longleftrightarrow> endpoints c' = endpoints c \<and> signer_address c' = signer_address c"

lemma same_endpoints_simps [simp]:
  "same_endpoints c c"
  "same_endpoints c (d\<lparr>current := i\<rparr>) = same_endpoints c d"
  "same_endpoints c (d\<lparr>client_log := l\<rparr>) = same_endpoints c d"
  "same_endpoints c (d\<lparr>submissions := m\<rparr>) = same_endpoints c d"
  by (simp_all add: same_endpoints_def)

lemma with_failover_cases:
  assumes ok: "client_ok c" and eq: "with_failover what op c = (r, c')"
  obtains (served) n v where "n < length (endpoints c)" "r = Inr v"
      "op (endpoints c ! ((current c + n) mod length (endpoints c))) = Inr v"
      "\<forall>k < n. \<exists>e. op (endpoints c ! ((current c + k) mod length (endpoints c))) = Inl e"
      "current c' = (current c + n) mod length (endpoints c)"
      "same_endpoints c c'" "submissions c' = submissions c"
  | (all_failed) "r = Inl (what @ '' failed on all gRPC endpoints'')" "c' = c"
      "\<forall>ep \<in> set (endpoints c). \<exists>e. op ep = Inl e"
proof -
  let ?op = "\<lambda>idx. op (endpoints c ! idx)" and ?order = "rotation (current c) (length (endpoints c))"
  show thesis
  proof (cases "try_each ?op ?order None")
    case (Inl e)
    from grpc_pool.fails_with_error [OF ok Inl] obtain msg where
      "e = Some msg" "\<forall>i < length (endpoints c). \<exists>e. op (endpoints c ! i) = Inl e" by auto
    with Inl eq show thesis
      by (intro all_failed) (auto simp: with_failover_def in_set_conv_nth)
  next
    case (Inr q)
    obtain idx v where q: "q = (idx, v)" by (cases q)
    from Inr q have "idx \<in> set ?order"
      by (metis in_set_conv_decomp try_each_Inr_iff)
    then obtain n where n: "n < length (endpoints c)" "idx = ?order ! n"
      by (metis in_set_conv_nth length_rotation)
    from Inr q n have *: "try_each ?op ?order None = Inr (?order ! n, v)" by simp
    from grpc_pool.first_in_order [OF ok *] n
    have "op (endpoints c ! ((current c + n) mod length (endpoints c))) = Inr v"
      "\<forall>k < n. \<exists>e. op (endpoints c ! ((current c + k) mod length (endpoints c))) = Inl e"
      by simp_all
    moreover from eq * n(1) have "r = Inr v" by (simp add: with_failover_def Let_def)
    moreover from eq * n(1) have "current c' = (current c + n) mod length (endpoints c)"
      "same_endpoints c c'" "submissions c' = submissions c"
      by (auto simp: with_failover_def Let_def)
    ultimately show thesis using served [OF n(1)] by blast
  qed
qed

lemma with_failover_ok:
  assumes "client_ok c" and "with_failover what op c = (r, c')"
  shows "client_ok c' \<and> same_endpoints c c' \<and> submissions c' = submissions c"
proof -
  from assms(1) have "current c < length (endpoints c)" "0 < length (endpoints c)"
    by (auto simp: client_ok_def)
  with assms show ?thesis
    by (cases rule: with_failover_cases) (simp_all add: client_ok_def same_endpoints_def)
qed

lemma query_balances_ok:
  assumes "client_ok c" and "query_balances env a c = (r, c')"
  shows "client_ok c' \<and> same_endpoints c c' \<and> submissions c' = submissions c"
  using assms with_failover_ok [OF assms(1)]
  by (auto simp: query_balances_def split: prod.splits sum.splits)

lemma query_igp_fee_ok:
  assumes "client_ok c" and "query_igp_fee env d t h c = (r, c')"
  shows "client_ok c' \<and> same_endpoints c c' \<and> submissions c' = submissions c \<and> (\<exists>fee. r = Inr fee)"
  using assms with_failover_ok [OF assms(1)]
  by (auto simp: query_igp_fee_def split: prod.splits sum.splits)

lemma submit_forward_cases:
  assumes "client_ok c" and "submit_forward env a d rcp t fee h c = (r, c')"
  obtains (accepted) tx where "r = Inr tx" "current c' = current c"
      "client_ok c'" "same_endpoints c c'"
      "submissions c' = submissions c @ [(ge_url (endpoints c ! current c),
         forward_message (signer_address c) a d rcp t fee h)]"
  | (rejected) e where "r = Inl e" "current c' = (current c + 1) mod length (endpoints c)"
      "client_ok c'" "same_endpoints c c'"
      "submissions c' = submissions c @ [(ge_url (endpoints c ! current c),
         forward_message (signer_address c) a d rcp t fee h)]"
proof -
  have one: "current c = Suc (current c) mod length (endpoints c)" if "\<not> 1 < length (endpoints c)"
  proof -
    from that assms(1) have "length (endpoints c) = 1" "current c = 0"
      by (auto simp: client_ok_def)
    then show ?thesis by simp
  qed
  show thesis
  proof (cases "call_result ''Transaction submission timed out'' ''Failed to submit MsgForward''
      (submit_message env (endpoints c ! current c)
        (forward_message (signer_address c) a d rcp t fee h))")
    case (Inl e)
    from assms(1) have "0 < length (endpoints c)" by (auto simp: client_ok_def)
    with Inl assms one show thesis
      by (intro rejected [of e])
        (auto simp: submit_forward_def client_ok_def Let_def split: if_splits)
  next
    case (Inr tx)
    with assms show thesis
      by (intro accepted [of tx]) (auto simp: submit_forward_def client_ok_def Let_def)
  qed
qed

section \<open>Properties\<close>

text \<open>C32: a query is answered exactly when some endpoint answers it. The answer is that of the
  first working endpoint in rotation order from the preferred one, which becomes the
  preferred one; when every endpoint fails nothing changes. The pool itself never changes
  and the preferred index stays inside it.\<close>

theorem failover_reaches_first_working:
  assumes "client_ok c" and "with_failover what op c = (r, c')"
  shows "client_ok c' \<and> endpoints c' = endpoints c
    \<and> (case r of
         Inr v \<Rightarrow> op (endpoints c ! current c') = Inr v
           \<and> (\<exists>n < length (endpoints c). current c' = (current c + n) mod length (endpoints c)
               \<and> (\<forall>k < n. \<exists>e. op (endpoints c ! ((current c + k) mod length (endpoints c))) = Inl e))
       | Inl e \<Rightarrow> c' = c \<and> (\<forall>ep \<in> set (endpoints c). \<exists>e. op ep = Inl e))"
proof -
  have ok: "client_ok c' \<and> same_endpoints c c'" using with_failover_ok [OF assms] by simp
  from assms show ?thesis
    by (cases rule: with_failover_cases) (use ok in \<open>auto simp: same_endpoints_def\<close>)
qed

definition example_endpoint :: "string \<Rightarrow> grpc_endpoint" where
  "example_endpoint u = \<lparr>ge_url = u, ge_channel_token = None, ge_tx_token = None\<rparr>"

definition example_client :: celestia_client where
  "example_client = \<lparr>endpoints = map example_endpoint [''http://a'', ''http://b'', ''http://c''],
     current = 1, signer_address = ''celestia1me'', client_log = [], submissions = []\<rparr>"

text \<open>Only the first endpoint works.\<close>

definition example_grpc :: grpc_env where
  "example_grpc = \<lparr>
     all_balances = (\<lambda>ep a. if ge_url ep = ''http://a''
        then Reply [\<lparr>coin_denom = ''utia'', coin_amount = ''500''\<rparr>] else TimedOut),
     quote_forwarding_fee = (\<lambda>ep q. Refused ''unavailable''),
     submit_message = (\<lambda>ep m. if ge_url ep = ''http://a'' then Reply ''AB12'' else TimedOut)\<rparr>"

lemma example_client_ok: "client_ok example_client"
  by (simp add: client_ok_def example_client_def)

lemma example_failover:
  "with_failover ''Balance query'' (\<lambda>ep. if ge_url ep = ''http://a'' then Inr (5::nat) else Inl ''down'')
     example_client
   = (Inr 5, example_client\<lparr>current := 0, client_log := [grpc_failover_metric]\<rparr>)"
  by (simp add: with_failover_def example_client_def example_endpoint_def rotation_def
      upt_rec Let_def)

theorem failover_reaches_first_working_witness:
  "current (example_client\<lparr>current := 0, client_log := [grpc_failover_metric]\<rparr>) = 0
   \<and> (if ge_url (endpoints example_client ! 0) = ''http://a'' then Inr (5::nat) else Inl ''down'') = Inr 5"
  using failover_reaches_first_working [OF example_client_ok example_failover] by simp

lemma query_igp_fee_all_fail:
  assumes "client_ok c"
    and down: "\<forall>ep \<in> set (endpoints c). \<forall>q.
      quote_forwarding_fee env ep (quote_request_of d t h) \<noteq> Reply q"
  shows "query_igp_fee env d t h c = (Inr ''0'', c)"
proof -
  let ?op = "\<lambda>ep. map_sum id quoted_amount (call_result ''IGP fee query timed out''
      ''Failed to query IGP fee via forwarding gRPC query''
      (quote_forwarding_fee env ep (quote_request_of d t h)))"
  obtain r1 c1 where 1: "with_failover ''IGP fee query'' ?op c = (r1, c1)" by fastforce
  have fails: "\<exists>e. ?op ep = Inl e" if "ep \<in> set (endpoints c)" for ep
    using that down by (auto simp: call_result_def split: call.splits)
  from assms(1) 1 have "c1 = c \<and> (\<exists>e. r1 = Inl e)"
  proof (cases rule: with_failover_cases)
    case (served n v)
    then have "endpoints c ! ((current c + n) mod length (endpoints c)) \<in> set (endpoints c)"
      by (intro nth_mem) (auto intro: mod_less_divisor)
    with served(3) fails show ?thesis by fastforce
  qed auto
  with 1 show ?thesis by (auto simp: query_igp_fee_def)
qed

text \<open>a fee query never fails. When no endpoint answers, or the node quotes no coin, it
  reports a fee of zero, exactly as if the destination were free.\<close>

theorem igp_fee_zero_on_outage:
  assumes "client_ok c" and "query_igp_fee env d t h c = (r, c')"
  shows "(\<exists>fee. r = Inr fee)
    \<and> ((\<forall>ep \<in> set (endpoints c). \<forall>q. quote_forwarding_fee env ep (quote_request_of d t h) \<noteq> Reply q)
        \<longrightarrow> r = Inr ''0'' \<and> c' = c)"
  using query_igp_fee_ok [OF assms] query_igp_fee_all_fail [OF assms(1), of env d t h] assms(2)
  by auto

theorem igp_fee_zero_on_outage_witness:
  "query_igp_fee example_grpc 7 ''token'' \<lparr>hook_id = None, metadata = None\<rparr> example_client
   = (Inr ''0'', example_client)"
proof -
  let ?h = "\<lparr>hook_id = None, metadata = None\<rparr>"
  obtain r c' where eq: "query_igp_fee example_grpc 7 ''token'' ?h example_client = (r, c')"
    by fastforce
  show ?thesis
    using igp_fee_zero_on_outage [OF example_client_ok eq] eq by (simp add: example_grpc_def)
qed

text \<open>
  Submissions one after the other. \<open>requests\<close> are the arguments of each call.
\<close>

fun submit_all ::
  "grpc_env \<Rightarrow> (string \<times> u32 \<times> string \<times> string \<times> string \<times> hook_binding) list
     \<Rightarrow> celestia_client \<Rightarrow> string result list \<times> celestia_client" where
  "submit_all env [] c = ([], c)"
| "submit_all env ((a, d, rcp, t, fee, h) # reqs) c =
     (let (r, c1) = submit_forward env a d rcp t fee h c;
          (rs, c2) = submit_all env reqs c1
      in (r # rs, c2))"

lemma submit_all_rotates:
  assumes "client_ok c" and "submit_all env reqs c = (rs, c')" and "\<forall>r \<in> set rs. \<exists>e. r = Inl e"
  shows "map fst (submissions c') = map fst (submissions c)
      @ map (\<lambda>i. ge_url (endpoints c ! ((current c + i) mod length (endpoints c)))) [0..<length reqs]
    \<and> current c' = (current c + length reqs) mod length (endpoints c)
    \<and> client_ok c' \<and> same_endpoints c c'"
  using assms
proof (induction reqs arbitrary: c rs)
  case Nil
  then show ?case by (simp add: client_ok_def)
next
  case (Cons q reqs)
  obtain a d rcp t fee h where q: "q = (a, d, rcp, t, fee, h)" by (metis prod.exhaust)
  obtain r c1 where 1: "submit_forward env a d rcp t fee h c = (r, c1)" by fastforce
  obtain rs2 where 2: "submit_all env reqs c1 = (rs2, c')" and rs: "rs = r # rs2"
    using Cons.prems(2) 1 by (auto simp: q split: prod.splits)
  have c_lt: "current c < length (endpoints c)" using Cons.prems(1) by (simp add: client_ok_def)
  from Cons.prems(1) 1 have c1: "current c1 = (current c + 1) mod length (endpoints c)
      \<and> client_ok c1 \<and> same_endpoints c c1
      \<and> map fst (submissions c1) = map fst (submissions c) @ [ge_url (endpoints c ! current c)]"
  proof (cases rule: submit_forward_cases)
    case (accepted tx)
    with Cons.prems(3) rs show ?thesis by simp
  qed simp
  then have eps: "endpoints c1 = endpoints c" "same_endpoints c c1" by (auto simp: same_endpoints_def)
  have "current c1 + i = (current c + 1) mod length (endpoints c) + i" for i using c1 by simp
  then have step: "(current c1 + i) mod length (endpoints c) = (current c + Suc i) mod length (endpoints c)"
    for i by (simp add: mod_simps)
  have step': "(Suc (current c) mod length (endpoints c) + i) mod length (endpoints c)
      = Suc (current c + i) mod length (endpoints c)" for i
    by (simp add: mod_simps)
  from Cons.IH [OF _ 2] c1 Cons.prems(3) rs
  have IH: "map fst (submissions c') = map fst (submissions c1)
      @ map (\<lambda>i. ge_url (endpoints c1 ! ((current c1 + i) mod length (endpoints c1)))) [0..<length reqs]
    \<and> current c' = (current c1 + length reqs) mod length (endpoints c1)
    \<and> client_ok c' \<and> same_endpoints c1 c'"
    by simp
  have upt: "[0..<length (q # reqs)] = 0 # map Suc [0..<length reqs]"
    by (simp add: upt_conv_Cons map_Suc_upt del: upt_Suc)
  have "map fst (submissions c') = map fst (submissions c)
      @ map (\<lambda>i. ge_url (endpoints c ! ((current c + i) mod length (endpoints c)))) [0..<length (q # reqs)]"
    using IH c1 c_lt unfolding upt by (simp add: eps step step' comp_def)
  moreover have "current c' = (current c + length (q # reqs)) mod length (endpoints c)"
    using IH by (simp add: eps step)
  moreover have "same_endpoints c c'" using IH eps by (simp add: same_endpoints_def)
  ultimately show ?case using IH by blast
qed

text \<open>each submission goes to exactly one endpoint. Failed submissions walk through the
  pool in rotation: as many failures in a row as there are endpoints try every one of them
  once, and end at the endpoint they began with.\<close>

theorem failed_submissions_visit_pool:
  assumes "client_ok c" and "submissions c = []"
    and "length reqs = length (endpoints c)"
    and "submit_all env reqs c = (rs, c')" and "\<forall>r \<in> set rs. \<exists>e. r = Inl e"
  shows "mset (map fst (submissions c')) = mset (map ge_url (endpoints c)) \<and> current c' = current c"
proof -
  let ?n = "length (endpoints c)"
  from submit_all_rotates [OF assms(1,4,5)] assms(2,3)
  have s: "map fst (submissions c') = map (\<lambda>i. ge_url (endpoints c ! i)) (rotation (current c) ?n)"
    and cur: "current c' = (current c + ?n) mod ?n"
    by (simp_all add: rotation_def comp_def)
  have "mset (rotation (current c) ?n) = mset [0..<?n]"
    by (rule set_eq_iff_mset_eq_distinct [THEN iffD1]) (auto simp: atLeast0LessThan)
  then have "mset (map (\<lambda>i. ge_url (endpoints c ! i)) (rotation (current c) ?n))
      = mset (map (\<lambda>i. ge_url (endpoints c ! i)) [0..<?n])"
    by (simp add: mset_map)
  also have "map (\<lambda>i. ge_url (endpoints c ! i)) [0..<?n] = map ge_url (endpoints c)"
    by (rule nth_equalityI) simp_all
  finally show ?thesis using s cur assms(1) by (simp add: client_ok_def)
qed

definition refusing_grpc :: grpc_env where
  "refusing_grpc = example_grpc\<lparr>submit_message := (\<lambda>ep m. Refused ''sequence mismatch'')\<rparr>"

lemma refusing_grpc_fails:
  "client_ok c \<Longrightarrow> submit_all refusing_grpc reqs c = (rs, c') \<Longrightarrow> \<forall>r \<in> set rs. \<exists>e. r = Inl e"
proof (induction reqs arbitrary: c rs)
  case (Cons q reqs)
  obtain a d rcp t fee h where q: "q = (a, d, rcp, t, fee, h)" by (metis prod.exhaust)
  obtain r c1 where 1: "submit_forward refusing_grpc a d rcp t fee h c = (r, c1)" by fastforce
  then have "\<exists>e. r = Inl e"
    by (auto simp: submit_forward_def refusing_grpc_def call_result_def Let_def split: if_splits)
  moreover have "client_ok c1" using Cons.prems(1) 1 by (cases rule: submit_forward_cases) auto
  ultimately show ?case using Cons 1 by (auto simp: q split: prod.splits)
qed simp

theorem failed_submissions_visit_pool_witness:
  "mset (map fst (submissions (snd (submit_all refusing_grpc
     (replicate 3 (''celestia1addr'', 7, ''r'', ''t'', ''0utia'', \<lparr>hook_id = None, metadata = None\<rparr>))
     example_client)))) = mset [''http://a'', ''http://b'', ''http://c'']"
proof -
  let ?reqs = "replicate 3 (''celestia1addr'', 7 :: u32, ''r'', ''t'', ''0utia'',
    \<lparr>hook_id = None, metadata = None\<rparr>)"
  obtain rs c' where eq: "submit_all refusing_grpc ?reqs example_client = (rs, c')" by fastforce
  from refusing_grpc_fails [OF example_client_ok eq]
  have *: "\<forall>r \<in> set rs. \<exists>e. r = Inl e" .
  have "submissions example_client = []" "length ?reqs = length (endpoints example_client)"
    and pool: "map ge_url (endpoints example_client) = [''http://a'', ''http://b'', ''http://c'']"
    by (simp_all add: example_client_def example_endpoint_def)
  from failed_submissions_visit_pool [OF example_client_ok this(1,2) eq *]
  show ?thesis by (simp only: eq snd_conv pool)
qed

lemma ends_with_iff: "ends_with pat s \<longleftrightarrow> (\<exists>w. s = w @ pat)"
proof -
  have "ends_with pat s \<longleftrightarrow> (\<exists>r. rev s = rev pat @ r)"
    by (auto simp: ends_with_def strip_prefix_Some_iff)
  also have "\<dots> \<longleftrightarrow> (\<exists>w. s = w @ pat)"
    by (metis rev_append rev_rev_ident)
  finally show ?thesis .
qed

lemma trim_end_matches_append:
  "pat \<noteq> [] \<Longrightarrow> trim_end_matches pat (s @ pat) = trim_end_matches pat s"
  by (simp add: trim_end_matches_def trim_start_matches_Some)

lemma trim_end_matches_digits:
  assumes "\<forall>c \<in> set s. is_digit c" and "pat \<noteq> []" and "\<not> is_digit (last pat)"
  shows "trim_end_matches pat s = s"
proof -
  have "strip_prefix (rev pat) (rev s) = None"
  proof (rule ccontr)
    assume "strip_prefix (rev pat) (rev s) \<noteq> None"
    then obtain r where "rev s = rev pat @ r" by (auto simp: strip_prefix_Some_iff)
    with assms(2) have "last pat \<in> set s"
      by (metis last_in_set set_append set_rev UnCI)
    with assms(1,3) show False by blast
  qed
  then show ?thesis by (simp add: trim_end_matches_def trim_start_matches_None)
qed

lemma fee_coin_decimal:
  "fee_coin (decimal n @ ''utia'') = \<lparr>coin_denom = ''utia'', coin_amount = decimal n\<rparr>"
proof -
  have a: "\<not> is_digit (CHR ''a'')" "\<not> is_digit (CHR ''n'')" by (simp_all add: is_digit_def)
  have "trim_end_matches ''utia'' (decimal n @ ''utia'') = trim_end_matches ''utia'' (decimal n)"
    by (rule trim_end_matches_append) simp
  also have "\<dots> = decimal n"
    using decimal_digits [of n] a by (intro trim_end_matches_digits) simp_all
  finally have "trim_end_matches ''utia'' (decimal n @ ''utia'') = decimal n" .
  moreover have "trim_end_matches ''utoken'' (decimal n) = decimal n"
    using decimal_digits [of n] a by (intro trim_end_matches_digits) simp_all
  moreover have "ends_with ''utia'' (decimal n @ ''utia'')" by (auto simp: ends_with_iff)
  ultimately show ?thesis by (simp add: fee_coin_def)
qed

text \<open>the fee cap the relayer computes, a decimal number of \<open>utia\<close>, reaches the chain as
  that very number with denomination \<open>utia\<close>.\<close>

theorem fee_cap_reaches_chain:
  "mf_max_igp_fee (forward_message signer addr domain recipient token (decimal n @ ''utia'') hook)
   = Some \<lparr>coin_denom = ''utia'', coin_amount = decimal n\<rparr>"
  by (simp add: forward_message_def fee_coin_decimal)

lemma build_endpoint_Inr:
  assumes "build_endpoint endpoint_new tx_build parse_ascii key spec = Inr ep"
  shows "ge_url ep = ep_url spec \<and> ge_tx_token ep = map_option as_str (ep_token spec)
    \<and> ge_channel_token ep = Option.bind (map_option as_str (ep_token spec)) parse_ascii"
  using assms
  by (cases "ep_token spec")
    (auto simp: build_endpoint_def metadata_value_def split: sum.splits option.splits)

text \<open>in a client that started, every endpoint carries its own token from the configured
  list, the same on its query channel and on its transaction client, and the pool is not
  empty.\<close>

theorem client_new_tokens:
  assumes "client_new cr from_slice account_id endpoint_new tx_build parse_ascii urls key = Inr c"
    and "\<forall>s v. parse_ascii s = Some v \<longrightarrow> v = s"
  shows "client_ok c
    \<and> (\<exists>specs. parse_endpoint_specs urls = Inr specs \<and> map ge_url (endpoints c) = map ep_url specs
        \<and> map ge_tx_token (endpoints c) = map (map_option as_str \<circ> ep_token) specs)
    \<and> (\<forall>ep \<in> set (endpoints c). ge_channel_token ep = ge_tx_token ep)"
proof -
  from assms(1) obtain k signer specs where
    specs: "parse_endpoint_specs urls = Inr specs" and
    eps: "map (build_endpoint endpoint_new tx_build parse_ascii k) specs = map Inr (endpoints c)" and
    ne: "endpoints c \<noteq> []" and cur: "current c = 0"
    by (auto simp: client_new_def collect_results_Inr_iff split: sum.splits prod.splits if_splits)
  have len: "length specs = length (endpoints c)" using eps by (metis length_map)
  have *: "build_endpoint endpoint_new tx_build parse_ascii k (specs ! i) = Inr (endpoints c ! i)"
    if "i < length (endpoints c)" for i
    using that eps len by (metis nth_map)
  have "map ge_url (endpoints c) = map ep_url specs"
    "map ge_tx_token (endpoints c) = map (map_option as_str \<circ> ep_token) specs"
    using len by (auto intro!: nth_equalityI dest!: * build_endpoint_Inr)
  moreover have "ge_channel_token ep = ge_tx_token ep" if ep: "ep \<in> set (endpoints c)" for ep
  proof -
    from ep obtain i where i: "i < length (endpoints c)" "ep = endpoints c ! i"
      by (metis in_set_conv_nth)
    from build_endpoint_Inr [OF * [OF i(1)]] i(2)
    have e: "ge_tx_token ep = map_option as_str (ep_token (specs ! i))"
      "ge_channel_token ep = Option.bind (map_option as_str (ep_token (specs ! i))) parse_ascii"
      by simp_all
    show ?thesis
    proof (cases "ep_token (specs ! i)")
      case (Some t)
      have "parse_ascii (as_str t) \<noteq> None"
        using * [OF i(1)] Some
        by (cases "parse_ascii (as_str t)")
          (auto simp: build_endpoint_def metadata_value_def split: sum.splits)
      with Some e assms(2) show ?thesis by auto
    qed (use e in simp)
  qed
  ultimately show ?thesis using specs ne cur by (auto simp: client_ok_def)
qed

theorem client_new_tokens_witness:
  "\<exists>c. client_new example_crypto (\<lambda>k. Inr k) (\<lambda>p k. Inr ''celestia1me'') (\<lambda>u. Inr ()) (\<lambda>u t k. Inr ())
     Some ''http://a:9090|tokA,http://b:9090'' ''0x00ff'' = Inr c
   \<and> (\<forall>ep \<in> set (endpoints c). ge_channel_token ep = ge_tx_token ep)"
proof -
  have "\<exists>c. client_new example_crypto (\<lambda>k. Inr k) (\<lambda>p k. Inr ''celestia1me'') (\<lambda>u. Inr ())
      (\<lambda>u t k. Inr ()) Some ''http://a:9090|tokA,http://b:9090'' ''0x00ff'' = Inr c"
  proof -
    have "case client_new example_crypto (\<lambda>k. Inr k) (\<lambda>p k. Inr ''celestia1me'') (\<lambda>u. Inr ())
      (\<lambda>u t k. Inr ()) Some ''http://a:9090|tokA,http://b:9090'' ''0x00ff'' of Inl _ \<Rightarrow> False | Inr _ \<Rightarrow> True"
      by code_simp
    then show ?thesis by (auto split: sum.splits)
  qed
  then obtain c where c: "client_new example_crypto (\<lambda>k. Inr k) (\<lambda>p k. Inr ''celestia1me'')
      (\<lambda>u. Inr ()) (\<lambda>u t k. Inr ()) Some ''http://a:9090|tokA,http://b:9090'' ''0x00ff'' = Inr c" ..
  from client_new_tokens [OF c] have "\<forall>ep \<in> set (endpoints c). ge_channel_token ep = ge_tx_token ep"
    by simp
  with c show ?thesis by blast
qed

end
