(* ===== verification/Sql.thy ===== *)
theory Sql
  imports Prelude
begin

text \<open>
  SQLite as the program uses it. A connection holds the tables and a fault schedule: the
  \<open>n\<close>-th statement issued on it fails with message \<open>e\<close> when \<open>sql_fault n = Some e\<close>, and
  a failing statement changes nothing. Any pattern of failures is one schedule, so a
  theorem that does not restrict the schedule holds whatever the database does.

  Tables are lists of rows in row-id order; the statements the program issues are written
  out over them.
\<close>

section \<open>Statements that may fail\<close>

record 't conn =
  tables :: 't
  sql_fault :: "nat \<Rightarrow> string option"
  sql_count :: nat

type_synonym ('s, 'a) io = "'s \<Rightarrow> 'a result \<times> 's"

definition return_io :: "'a \<Rightarrow> ('s, 'a) io" where
  "return_io a s = (Inr a, s)"

definition fail_io :: "string \<Rightarrow> ('s, 'a) io" where
  "fail_io e s = (Inl e, s)"

definition bind_io :: "('s, 'a) io \<Rightarrow> ('a \<Rightarrow> ('s, 'b) io) \<Rightarrow> ('s, 'b) io" where
  "bind_io m k s = (case m s of (Inl e, s') \<Rightarrow> (Inl e, s') | (Inr a, s') \<Rightarrow> k a s')"

definition context_io :: "string \<Rightarrow> ('s, 'a) io \<Rightarrow> ('s, 'a) io" where
  "context_io msg m s = (let (r, s') = m s in (with_context msg r, s'))"

fun for_each :: "('a \<Rightarrow> ('s, unit) io) \<Rightarrow> 'a list \<Rightarrow> ('s, unit) io" where
  "for_each f [] = return_io ()"
| "for_each f (x # xs) = bind_io (f x) (\<lambda>_. for_each f xs)"

definition sql_exec :: "('t \<Rightarrow> 't) \<Rightarrow> ('t conn, unit) io" where
  "sql_exec f c =
     (case sql_fault c (sql_count c) of
        Some e \<Rightarrow> (Inl e, c\<lparr>sql_count := Suc (sql_count c)\<rparr>)
      | None \<Rightarrow> (Inr (), c\<lparr>tables := f (tables c), sql_count := Suc (sql_count c)\<rparr>))"

definition sql_query :: "('t \<Rightarrow> 'a) \<Rightarrow> ('t conn, 'a) io" where
  "sql_query f c =
     (case sql_fault c (sql_count c) of
        Some e \<Rightarrow> (Inl e, c\<lparr>sql_count := Suc (sql_count c)\<rparr>)
      | None \<Rightarrow> (Inr (f (tables c)), c\<lparr>sql_count := Suc (sql_count c)\<rparr>))"

text \<open>A statement that reports a value, and may be refused by the engine itself.\<close>

definition sql_run :: "('t \<Rightarrow> ('a \<times> 't) result) \<Rightarrow> ('t conn, 'a) io" where
  "sql_run f c =
     (let c' = c\<lparr>sql_count := Suc (sql_count c)\<rparr> in
      case sql_fault c (sql_count c) of
        Some e \<Rightarrow> (Inl e, c')
      | None \<Rightarrow> (case f (tables c) of Inl e \<Rightarrow> (Inl e, c') | Inr (a, t) \<Rightarrow> (Inr a, c'\<lparr>tables := t\<rparr>)))"

text \<open>\<^verbatim>\<open>Connection::prepare\<close>: compiles a statement, reads nothing, may fail.\<close>

abbreviation sql_prepare :: "('t conn, unit) io" where
  "sql_prepare \<equiv> sql_query (\<lambda>_. ())"

named_theorems io_defs \<open>the definitions of the result-and-state combinators\<close>

lemmas [io_defs] = return_io_def fail_io_def bind_io_def context_io_def sql_exec_def sql_query_def sql_run_def

definition sql_healthy :: "'t conn \<Rightarrow> bool" where
  "sql_healthy c \<longleftrightarrow> sql_fault c = (\<lambda>_. None)"

lemma sql_exec_healthy:
  "sql_healthy c \<Longrightarrow>
     sql_exec f c = (Inr (), c\<lparr>tables := f (tables c), sql_count := Suc (sql_count c)\<rparr>)"
  by (simp add: sql_exec_def sql_healthy_def)

lemma sql_query_healthy:
  "sql_healthy c \<Longrightarrow> sql_query f c = (Inr (f (tables c)), c\<lparr>sql_count := Suc (sql_count c)\<rparr>)"
  by (simp add: sql_query_def sql_healthy_def)

lemma sql_healthy_update [simp]:
  "sql_healthy (c\<lparr>tables := t\<rparr>) = sql_healthy c"
  "sql_healthy (c\<lparr>sql_count := n\<rparr>) = sql_healthy c"
  by (simp_all add: sql_healthy_def)

lemmas sql_healthy_simps = sql_exec_healthy sql_query_healthy

text \<open>Whatever the fault schedule, a statement either takes full effect or has none.\<close>

lemma sql_exec_cases:
  obtains (ok) c' where "sql_exec f c = (Inr (), c')" "tables c' = f (tables c)"
      "sql_fault c' = sql_fault c"
  | (failed) e c' where "sql_exec f c = (Inl e, c')" "tables c' = tables c"
      "sql_fault c' = sql_fault c"
  by (cases "sql_fault c (sql_count c)") (auto simp: sql_exec_def)

lemma tables_sql_query [simp]: "tables (snd (sql_query f c)) = tables c"
  by (simp add: sql_query_def split: option.splits)

section \<open>Tables with a primary key\<close>

definition tbl_get :: "('r \<Rightarrow> 'k) \<Rightarrow> 'r list \<Rightarrow> 'k \<Rightarrow> 'r option" where
  "tbl_get key t k = List.find (\<lambda>r. key r = k) t"

definition tbl_delete :: "('r \<Rightarrow> 'k) \<Rightarrow> 'k \<Rightarrow> 'r list \<Rightarrow> 'r list" where
  "tbl_delete key k t = filter (\<lambda>r. key r \<noteq> k) t"

text \<open>\<^verbatim>\<open>INSERT OR REPLACE\<close>: the conflicting row goes, the new row gets a new row id.\<close>

definition tbl_replace :: "('r \<Rightarrow> 'k) \<Rightarrow> 'r \<Rightarrow> 'r list \<Rightarrow> 'r list" where
  "tbl_replace key r t = tbl_delete key (key r) t @ [r]"

text \<open>\<^verbatim>\<open>INSERT OR IGNORE\<close>: a conflicting row stays and nothing is inserted.\<close>

definition tbl_insert_ignore :: "('r \<Rightarrow> 'k) \<Rightarrow> 'r \<Rightarrow> 'r list \<Rightarrow> 'r list" where
  "tbl_insert_ignore key r t = (if tbl_get key t (key r) = None then t @ [r] else t)"

abbreviation tbl_wf :: "('r \<Rightarrow> 'k) \<Rightarrow> 'r list \<Rightarrow> bool" where
  "tbl_wf key t \<equiv> distinct (map key t)"

named_theorems tbl_simps \<open>lookups in a table after a statement\<close>

lemma tbl_get_Nil [simp]: "tbl_get key [] k = None"
  by (simp add: tbl_get_def)

lemma tbl_get_append:
  "tbl_get key (t @ u) k = (case tbl_get key t k of None \<Rightarrow> tbl_get key u k | Some r \<Rightarrow> Some r)"
  by (induction t) (auto simp: tbl_get_def)

lemma tbl_get_delete [tbl_simps]:
  "tbl_get key (tbl_delete key k t) j = (if j = k then None else tbl_get key t j)"
  by (induction t) (auto simp: tbl_get_def tbl_delete_def)

lemma tbl_get_single: "tbl_get key [r] k = (if key r = k then Some r else None)"
  by (simp add: tbl_get_def)

lemma tbl_get_replace [tbl_simps]:
  "tbl_get key (tbl_replace key r t) j = (if j = key r then Some r else tbl_get key t j)"
  by (auto simp: tbl_replace_def tbl_get_append tbl_get_delete tbl_get_single
      split: option.splits)

lemma tbl_get_insert_ignore [tbl_simps]:
  "tbl_get key (tbl_insert_ignore key r t) j =
     (if j = key r \<and> tbl_get key t j = None then Some r else tbl_get key t j)"
  by (auto simp: tbl_insert_ignore_def tbl_get_append tbl_get_single split: option.splits)

lemma tbl_get_key: "tbl_get key t k = Some r \<Longrightarrow> key r = k \<and> r \<in> set t"
  by (auto simp: tbl_get_def find_Some_iff in_set_conv_nth)

lemma tbl_get_None_iff: "tbl_get key t k = None \<longleftrightarrow> k \<notin> key ` set t"
  by (auto simp: tbl_get_def find_None_iff)

lemma tbl_get_mem: "tbl_wf key t \<Longrightarrow> r \<in> set t \<Longrightarrow> tbl_get key t (key r) = Some r"
  by (induction t) (auto simp: tbl_get_def)

lemma tbl_wf_delete [simp]: "tbl_wf key t \<Longrightarrow> tbl_wf key (tbl_delete key k t)"
  by (induction t) (auto simp: tbl_delete_def)

lemma tbl_wf_replace [simp]: "tbl_wf key t \<Longrightarrow> tbl_wf key (tbl_replace key r t)"
  by (auto simp: tbl_replace_def) (auto simp: tbl_delete_def)

lemma tbl_wf_insert_ignore [simp]: "tbl_wf key t \<Longrightarrow> tbl_wf key (tbl_insert_ignore key r t)"
  by (auto simp: tbl_insert_ignore_def tbl_get_None_iff)

text \<open>Deleting, one statement per key, every row whose key fails a test.\<close>

lemma tbl_get_delete_all:
  "tbl_get key (fold (tbl_delete key) ks t) j = (if j \<in> set ks then None else tbl_get key t j)"
  by (induction ks arbitrary: t) (auto simp: tbl_simps)

lemma tbl_get_Some_iff:
  "tbl_wf key t \<Longrightarrow> tbl_get key t k = Some r \<longleftrightarrow> r \<in> set t \<and> key r = k"
  using tbl_get_key [of key t k r] tbl_get_mem [of key t r] by auto

lemma tbl_delete_absent: "tbl_get key t k = None \<Longrightarrow> tbl_delete key k t = t"
  by (auto simp: tbl_delete_def tbl_get_None_iff filter_id_conv)

text \<open>No operation changes which statements fail.\<close>

definition keeps_fault :: "('t conn, 'a) io \<Rightarrow> bool" where
  "keeps_fault m \<longleftrightarrow> (\<forall>c. sql_fault (snd (m c)) = sql_fault c)"

lemma keeps_fault_statements [simp]:
  "keeps_fault (return_io a)" "keeps_fault (fail_io e)"
  "keeps_fault (sql_exec f)" "keeps_fault (sql_query g)" "keeps_fault (sql_run h)"
  by (simp_all add: keeps_fault_def return_io_def fail_io_def sql_exec_def sql_query_def sql_run_def
      Let_def split: option.splits sum.splits prod.splits)

lemma keeps_fault_context [simp]: "keeps_fault m \<Longrightarrow> keeps_fault (context_io msg m)"
  by (simp add: keeps_fault_def context_io_def split_beta Let_def)

lemma keeps_fault_bind [simp]: "keeps_fault m \<Longrightarrow> (\<And>a. keeps_fault (k a)) \<Longrightarrow> keeps_fault (bind_io m k)"
  unfolding keeps_fault_def bind_io_def by (simp split: prod.splits sum.splits) (metis snd_conv)

end
