(* ===== verification/Retry_Store.thy ===== *)
theory Retry_Store
  imports Sql
begin

text \<open>
  \<^verbatim>\<open>src/relayer.rs\<close>, lines 19-241: the retry schedule and \<^verbatim>\<open>RetryStore\<close>, the SQLite
  database that keeps submission backoff, address activity and the scan cursor across
  restarts.

  Instants (\<^verbatim>\<open>DateTime<Utc>\<close>) are nanoseconds since the epoch, as \<^typ>\<open>int\<close>. chrono's
  RFC 3339 printer and parser are the two functions of the record \<open>chrono\<close>.
\<close>

section \<open>The retry schedule\<close>

definition RETRY_BACKOFF_SCHEDULE_SECONDS :: "nat list" where
  "RETRY_BACKOFF_SCHEDULE_SECONDS = [30, 60, 300, 1800, 3600]"

definition retry_delay :: "u32 \<Rightarrow> nat" where
  "retry_delay failures =
     (let idx = min (unat (saturating_sub failures 1))
                    (length RETRY_BACKOFF_SCHEDULE_SECONDS - 1)
      in RETRY_BACKOFF_SCHEDULE_SECONDS ! idx)"

record retry_state =
  failures :: u32
  next_attempt :: int

section \<open>Timestamps as text\<close>

record chrono =
  to_rfc3339 :: "int \<Rightarrow> string"
  parse_from_rfc3339 :: "string \<Rightarrow> int option"

text \<open>
  What the program relies on: an instant of the years 1970 to 9999 prints to text that
  parses back to it.
\<close>

definition rfc3339_range :: "int \<Rightarrow> bool" where
  "rfc3339_range t \<longleftrightarrow> 0 \<le> t \<and> t < 253402300800 * 1000000000"

definition chrono_roundtrip :: "chrono \<Rightarrow> bool" where
  "chrono_roundtrip ch \<longleftrightarrow>
     (\<forall>t. rfc3339_range t \<longrightarrow> parse_from_rfc3339 ch (to_rfc3339 ch t) = Some t)"

lemma chrono_roundtripD:
  "chrono_roundtrip ch \<Longrightarrow> rfc3339_range t \<Longrightarrow>
     parse_from_rfc3339 ch (to_rfc3339 ch t) = Some t"
  by (simp add: chrono_roundtrip_def)

text \<open>Whole seconds between two instants, towards zero (\<^verbatim>\<open>TimeDelta::num_seconds\<close>).\<close>

definition num_seconds :: "int \<Rightarrow> int" where
  "num_seconds ns = sgn ns * (\<bar>ns\<bar> div 1000000000)"

section \<open>The tables\<close>

record retry_row =
  rr_forward_addr :: string
  rr_failures :: int
  rr_next_attempt_at :: string

record activity_row =
  ar_forward_addr :: string
  ar_last_activity_at :: string

record scan_row =
  sr_id :: int
  sr_height :: int

record retry_tables =
  retry_state_tbl :: "retry_row list"
  address_activity_tbl :: "activity_row list"
  scan_state_tbl :: "scan_row list"

type_synonym retry_store = "retry_tables conn"

section \<open>Operations\<close>

text \<open>
  \<^verbatim>\<open>RetryStore::new\<close>. The parent of the path, the directory creation and the opening of
  the database come from the operating system and SQLite. A table not yet created is an
  empty one, so \<^verbatim>\<open>CREATE TABLE IF NOT EXISTS\<close> changes no row.
\<close>

definition debug_string :: "string \<Rightarrow> string" where
  "debug_string s = ''\"'' @ s @ ''\"''"

definition retry_store_new ::
  "(string \<Rightarrow> unit result) \<Rightarrow> (string \<Rightarrow> retry_store result) \<Rightarrow> string option \<Rightarrow> string
     \<Rightarrow> retry_store result" where
  "retry_store_new create_dir_all open_db parent db_path =
     (case (case parent of
              Some p \<Rightarrow> if p = [] then Inr ()
                else with_context (''Failed to create directory '' @ debug_string p) (create_dir_all p)
            | None \<Rightarrow> Inr ()) of
        Inl e \<Rightarrow> Inl e
      | Inr _ \<Rightarrow>
        (case with_context (''Failed to open retry-state DB at '' @ debug_string db_path)
                (open_db db_path) of
           Inl e \<Rightarrow> Inl e
         | Inr c \<Rightarrow>
           (case bind_io (context_io ''Failed to create retry_state table'' (sql_exec (\<lambda>t. t)))
                (\<lambda>_. bind_io (context_io ''Failed to create address_activity table'' (sql_exec (\<lambda>t. t)))
                (\<lambda>_. context_io ''Failed to create scan_state table'' (sql_exec (\<lambda>t. t)))) c of
              (Inl e, _) \<Rightarrow> Inl e
            | (Inr _, c') \<Rightarrow> Inr c')))"

text \<open>The scan cursor: an \<^verbatim>\<open>i64\<close> column, read back with negative values raised to 0.\<close>

definition read_height :: "retry_tables \<Rightarrow> int option" where
  "read_height t = map_option sr_height (tbl_get sr_id (scan_state_tbl t) 0)"

definition write_height :: "int \<Rightarrow> retry_tables \<Rightarrow> retry_tables" where
  "write_height h t = t\<lparr>scan_state_tbl :=
     tbl_replace sr_id \<lparr>sr_id = 0, sr_height = h\<rparr> (scan_state_tbl t)\<rparr>"

definition load_height :: "(retry_tables conn, u64 option) io" where
  "load_height =
     bind_io (context_io ''Failed to query scan height'' (sql_query read_height))
     (\<lambda>height. return_io (map_option (\<lambda>h. word_of_int (max h 0)) height))"

definition store_height :: "u64 \<Rightarrow> (retry_tables conn, unit) io" where
  "store_height height =
     context_io ''Failed to persist scan height'' (sql_exec (write_height (sint height)))"

definition decode_retry_row :: "chrono \<Rightarrow> retry_row \<Rightarrow> retry_state option" where
  "decode_retry_row ch r =
     map_option (\<lambda>ts. \<lparr>failures = word_of_int (max (rr_failures r) 0), next_attempt = ts\<rparr>)
       (parse_from_rfc3339 ch (rr_next_attempt_at r))"

definition load_map :: "('r \<Rightarrow> string) \<Rightarrow> ('r \<Rightarrow> 'v option) \<Rightarrow> 'r list \<Rightarrow> (string, 'v) hmap" where
  "load_map key decode rows =
     fold (\<lambda>r m. case decode r of Some v \<Rightarrow> hm_insert (key r) v m | None \<Rightarrow> m) rows []"

definition load_retry_state :: "chrono \<Rightarrow> (retry_tables conn, (string, retry_state) hmap) io" where
  "load_retry_state ch =
     bind_io sql_prepare (\<lambda>_. bind_io (sql_query retry_state_tbl)
       (\<lambda>rows. return_io (load_map rr_forward_addr (decode_retry_row ch) rows)))"

definition encode_retry_state :: "chrono \<Rightarrow> string \<Rightarrow> retry_state \<Rightarrow> retry_row" where
  "encode_retry_state ch addr st =
     \<lparr>rr_forward_addr = addr, rr_failures = uint (failures st),
      rr_next_attempt_at = to_rfc3339 ch (next_attempt st)\<rparr>"

definition upsert :: "chrono \<Rightarrow> string \<Rightarrow> retry_state \<Rightarrow> (retry_tables conn, unit) io" where
  "upsert ch addr st =
     context_io (''Failed to persist retry state for '' @ addr)
       (sql_exec (\<lambda>t. t\<lparr>retry_state_tbl :=
          tbl_replace rr_forward_addr (encode_retry_state ch addr st) (retry_state_tbl t)\<rparr>))"

definition remove_retry :: "string \<Rightarrow> (retry_tables conn, unit) io" where
  "remove_retry addr =
     context_io (''Failed to delete retry state for '' @ addr)
       (sql_exec (\<lambda>t. t\<lparr>retry_state_tbl := tbl_delete rr_forward_addr addr (retry_state_tbl t)\<rparr>))"

definition decode_activity_row :: "chrono \<Rightarrow> activity_row \<Rightarrow> int option" where
  "decode_activity_row ch r = parse_from_rfc3339 ch (ar_last_activity_at r)"

definition load_activity :: "chrono \<Rightarrow> (retry_tables conn, (string, int) hmap) io" where
  "load_activity ch =
     bind_io sql_prepare (\<lambda>_. bind_io (sql_query address_activity_tbl)
       (\<lambda>rows. return_io (load_map ar_forward_addr (decode_activity_row ch) rows)))"

definition upsert_activity :: "chrono \<Rightarrow> string \<Rightarrow> int \<Rightarrow> (retry_tables conn, unit) io" where
  "upsert_activity ch addr ts =
     context_io (''Failed to persist activity for '' @ addr)
       (sql_exec (\<lambda>t. t\<lparr>address_activity_tbl :=
          tbl_replace ar_forward_addr
            \<lparr>ar_forward_addr = addr, ar_last_activity_at = to_rfc3339 ch ts\<rparr>
            (address_activity_tbl t)\<rparr>))"

definition remove_activity :: "string \<Rightarrow> (retry_tables conn, unit) io" where
  "remove_activity addr =
     context_io (''Failed to delete activity for '' @ addr)
       (sql_exec (\<lambda>t. t\<lparr>address_activity_tbl :=
          tbl_delete ar_forward_addr addr (address_activity_tbl t)\<rparr>))"

text \<open>
  \<^verbatim>\<open>RetryStore::retain\<close>: for each of the two tables, read the addresses, then delete the
  ones that are not active one statement at a time; the first failure ends it.
\<close>

definition retain_table ::
  "(retry_tables \<Rightarrow> string list) \<Rightarrow> (string \<Rightarrow> retry_tables \<Rightarrow> retry_tables) \<Rightarrow> string list
     \<Rightarrow> (retry_tables conn, unit) io" where
  "retain_table addrs_of delete active =
     bind_io sql_prepare (\<lambda>_. bind_io (sql_query addrs_of) (\<lambda>addrs.
       for_each (\<lambda>addr. if addr \<in> set active then return_io () else sql_exec (delete addr)) addrs))"

definition retain_store :: "string list \<Rightarrow> (retry_tables conn, unit) io" where
  "retain_store active =
     bind_io
       (retain_table (\<lambda>t. map rr_forward_addr (retry_state_tbl t))
          (\<lambda>addr t. t\<lparr>retry_state_tbl := tbl_delete rr_forward_addr addr (retry_state_tbl t)\<rparr>) active)
       (\<lambda>_. retain_table (\<lambda>t. map ar_forward_addr (address_activity_tbl t))
          (\<lambda>addr t. t\<lparr>address_activity_tbl :=
             tbl_delete ar_forward_addr addr (address_activity_tbl t)\<rparr>) active)"

section \<open>The schedule\<close>

lemma retry_delay_cases:
  "retry_delay f =
     (if unat f \<le> 1 then 30 else if unat f = 2 then 60 else if unat f = 3 then 300
      else if unat f = 4 then 1800 else 3600)"
proof -
  have "min (unat f - 1) 4 = (if unat f \<le> 1 then 0 else if unat f = 2 then 1
      else if unat f = 3 then 2 else if unat f = 4 then 3 else 4)"
    by auto
  then show ?thesis
    by (simp add: retry_delay_def RETRY_BACKOFF_SCHEDULE_SECONDS_def unat_saturating_sub)
qed

text \<open>the backoff never shrinks as failures accumulate, never leaves the interval from 30
  seconds to one hour, and is one hour from the fifth failure on, whatever the counter.\<close>

theorem retry_delay_monotone_bounded:
  "(f \<le> g \<longrightarrow> retry_delay f \<le> retry_delay g)
   \<and> 30 \<le> retry_delay f \<and> retry_delay f \<le> 3600 \<and> (5 \<le> f \<longrightarrow> retry_delay f = 3600)"
  by (auto simp: retry_delay_cases word_le_nat_alt)

theorem retry_delay_monotone_bounded_witness:
  "retry_delay 1 \<le> retry_delay 2 \<and> retry_delay 4294967295 = 3600"
  using retry_delay_monotone_bounded [of 1 2] retry_delay_monotone_bounded [of 4294967295 0]
  by simp

section \<open>The scan cursor\<close>

text \<open>
  What the block scanner relies on: a height it stored is the height a restarted scanner
  loads.
\<close>

locale cursor_store =
  fixes load :: "'s \<Rightarrow> u64 option"
    and store :: "u64 \<Rightarrow> 's \<Rightarrow> 's"
    and storable :: "u64 \<Rightarrow> bool"
  assumes load_store: "storable h \<Longrightarrow> load (store h s) = Some h"
begin

lemma resume_at_last:
  assumes "hs \<noteq> []" and "storable (last hs)"
  shows "load (fold store hs s) = Some (last hs)"
proof -
  from assms(1) have "hs = butlast hs @ [last hs]" by simp
  then have "fold store hs s = store (last hs) (fold store (butlast hs) s)"
    by (metis fold.simps(2) fold_append fold_Nil id_apply comp_apply)
  with assms(2) show ?thesis by (simp add: load_store)
qed

end

definition height_of_column :: "int \<Rightarrow> u64" where
  "height_of_column h = word_of_int (max h 0)"

text \<open>\<^verbatim>\<open>u64 as i64\<close>: the value below \<open>2 ^ 63\<close>, negative from there on.\<close>

lemma sint_small: "unat h < 2 ^ 63 \<Longrightarrow> sint h = uint h" for h :: u64
proof -
  assume "unat h < 2 ^ 63"
  then have "int (unat h) < int (2 ^ 63)" by (simp only: of_nat_less_iff)
  then have "uint h < 2 ^ 63" by simp
  moreover have "- (2 ^ 63) \<le> uint h" by (rule order_trans [of _ 0]) simp_all
  ultimately show ?thesis
    using signed_take_bit_int_eq_self [of 63 "uint h"] by (simp add: sint_uint)
qed

lemma sint_large: "\<not> unat h < 2 ^ 63 \<Longrightarrow> sint h < 0" for h :: u64
proof -
  assume "\<not> unat h < 2 ^ 63"
  then have "int (2 ^ 63) \<le> int (unat h)" by (simp only: of_nat_le_iff not_less)
  then have "(2::int) ^ 63 \<le> uint h" by simp
  then have "sint h \<le> uint h - 2 ^ 64"
    using signed_take_bit_int_less_eq [of 63 "uint h"] by (simp add: sint_uint)
  moreover have "uint h < 2 ^ 64" using uint_lt2p [of h] by simp
  ultimately show ?thesis by linarith
qed

lemma height_of_column_sint:
  "height_of_column (sint h) = (if unat h < 2 ^ 63 then h else 0)"
  using sint_small [of h] sint_large [of h] by (auto simp: height_of_column_def)

lemma read_write_height [simp]: "read_height (write_height h t) = Some h"
  by (simp add: read_height_def write_height_def tbl_simps)

interpretation cursor: cursor_store
  "\<lambda>t. map_option height_of_column (read_height t)" "\<lambda>h. write_height (sint h)"
  "\<lambda>h. unat h < 2 ^ 63"
  by unfold_locales (simp add: height_of_column_sint)

lemma load_height_healthy:
  "sql_healthy c \<Longrightarrow>
     fst (load_height c) = Inr (map_option height_of_column (read_height (tables c)))"
  by (simp add: load_height_def io_defs sql_healthy_def height_of_column_def [abs_def])

lemma store_height_healthy:
  "sql_healthy c \<Longrightarrow> store_height h c =
     (Inr (), c\<lparr>tables := write_height (sint h) (tables c), sql_count := Suc (sql_count c)\<rparr>)"
  by (simp add: store_height_def context_io_def sql_exec_healthy)

section \<open>The two per-address tables\<close>

interpretation retry_table: keyed_store
  "\<lambda>t k. map_option (\<lambda>r. (rr_failures r, rr_next_attempt_at r)) (tbl_get rr_forward_addr t k)"
  "\<lambda>k (f, ts). tbl_replace rr_forward_addr
     \<lparr>rr_forward_addr = k, rr_failures = f, rr_next_attempt_at = ts\<rparr>"
  "tbl_delete rr_forward_addr" "tbl_wf rr_forward_addr"
  by unfold_locales (auto simp: tbl_simps split: prod.splits)

interpretation activity_table: keyed_store
  "\<lambda>t k. map_option ar_last_activity_at (tbl_get ar_forward_addr t k)"
  "\<lambda>k ts. tbl_replace ar_forward_addr \<lparr>ar_forward_addr = k, ar_last_activity_at = ts\<rparr>"
  "tbl_delete ar_forward_addr" "tbl_wf ar_forward_addr"
  by unfold_locales (auto simp: tbl_simps)

definition store_wf :: "retry_tables \<Rightarrow> bool" where
  "store_wf t \<longleftrightarrow> tbl_wf rr_forward_addr (retry_state_tbl t)
     \<and> tbl_wf ar_forward_addr (address_activity_tbl t)"

lemma load_map_get:
  "tbl_wf key rows \<Longrightarrow>
     map_of (load_map key decode rows) a = Option.bind (tbl_get key rows a) decode"
proof (induction rows rule: rev_induct)
  case (snoc r rows)
  then have r: "tbl_get key rows (key r) = None" by (auto simp: tbl_get_None_iff)
  have "load_map key decode (rows @ [r]) = (case decode r of
      Some v \<Rightarrow> hm_insert (key r) v (load_map key decode rows) | None \<Rightarrow> load_map key decode rows)"
    by (cases "decode r") (simp_all add: load_map_def)
  with snoc r show ?case
    by (auto simp: tbl_get_append tbl_get_single update_conv' split: option.splits)
qed (simp add: load_map_def)

lemma load_map_wf: "hm_wf (load_map key decode rows)"
proof (induction rows rule: rev_induct)
  case (snoc r rows)
  then show ?case by (auto simp: load_map_def distinct_update split: option.splits)
qed (simp add: load_map_def)

lemma decode_encode_retry_state:
  assumes "chrono_roundtrip ch" and "rfc3339_range (next_attempt st)"
  shows "decode_retry_row ch (encode_retry_state ch addr st) = Some st"
  using assms by (simp add: decode_retry_row_def encode_retry_state_def chrono_roundtripD)

lemma decode_activity:
  assumes "chrono_roundtrip ch" and "rfc3339_range ts"
  shows "decode_activity_row ch \<lparr>ar_forward_addr = addr, ar_last_activity_at = to_rfc3339 ch ts\<rparr>
    = Some ts"
  using assms by (simp add: decode_activity_row_def chrono_roundtripD)

text \<open>on a working database the cursor survives a restart: the height loaded after a store
  is the one stored, for every height a chain can have (below \<open>2 ^ 63\<close>); a larger one
  would come back as 0, because the column is a signed integer.\<close>

theorem height_survives_restart:
  assumes "sql_healthy c"
  shows "fst (load_height (snd (store_height h c)))
    = Inr (Some (if unat h < 2 ^ 63 then h else 0))"
  using assms
  by (simp add: store_height_healthy load_height_healthy height_of_column_sint)

theorem height_survives_restart_witness:
  "fst (load_height (snd (store_height 42
     \<lparr>tables = \<lparr>retry_state_tbl = [], address_activity_tbl = [],
        scan_state_tbl = [\<lparr>sr_id = 0, sr_height = 41\<rparr>]\<rparr>,
      sql_fault = (\<lambda>_. None), sql_count = 0\<rparr>))) = Inr (Some 42)"
  using height_survives_restart [of "\<lparr>tables = \<lparr>retry_state_tbl = [], address_activity_tbl = [],
        scan_state_tbl = [\<lparr>sr_id = 0, sr_height = 41\<rparr>]\<rparr>,
      sql_fault = (\<lambda>_. None), sql_count = 0\<rparr>" 42]
  by (simp add: sql_healthy_def)

text \<open>on a working database, backoff state written for an address is what a restarted
  relayer loads for it, and what it loads for every other address is unchanged.\<close>

theorem backoff_survives_restart:
  assumes "sql_healthy c" and "store_wf (tables c)" and "chrono_roundtrip ch"
    and "rfc3339_range (next_attempt st)"
    and "load_retry_state ch c = (Inr before, c1)"
    and "load_retry_state ch (snd (upsert ch addr st c)) = (Inr after, c2)"
  shows "map_of after addr = Some st \<and> (\<forall>b. b \<noteq> addr \<longrightarrow> map_of after b = map_of before b)"
proof -
  let ?rows = "retry_state_tbl (tables c)"
  let ?rows' = "tbl_replace rr_forward_addr (encode_retry_state ch addr st) ?rows"
  from assms have before: "before = load_map rr_forward_addr (decode_retry_row ch) ?rows"
    and after: "after = load_map rr_forward_addr (decode_retry_row ch) ?rows'"
    by (auto simp: load_retry_state_def upsert_def io_defs sql_healthy_def)
  from assms(2) have wf: "tbl_wf rr_forward_addr ?rows" by (simp add: store_wf_def)
  have "rr_forward_addr (encode_retry_state ch addr st) = addr"
    by (simp add: encode_retry_state_def)
  with wf decode_encode_retry_state [OF assms(3,4), of addr] show ?thesis
    by (simp add: before after load_map_get tbl_simps)
qed

text \<open>
  A concrete printer and parser for the examples: an instant is a run of ticks.
\<close>

definition tally_chrono :: chrono where
  "tally_chrono = \<lparr>to_rfc3339 = (\<lambda>t. replicate (nat t) CHR ''|''),
     parse_from_rfc3339 = (\<lambda>s. Some (int (length s)))\<rparr>"

lemma tally_chrono_roundtrip: "chrono_roundtrip tally_chrono"
  by (simp add: chrono_roundtrip_def tally_chrono_def rfc3339_range_def)

definition example_store :: retry_store where
  "example_store = \<lparr>tables = \<lparr>
      retry_state_tbl = [\<lparr>rr_forward_addr = ''a'', rr_failures = 2, rr_next_attempt_at = ''||''\<rparr>],
      address_activity_tbl = [\<lparr>ar_forward_addr = ''a'', ar_last_activity_at = ''|''\<rparr>,
                              \<lparr>ar_forward_addr = ''b'', ar_last_activity_at = ''||''\<rparr>],
      scan_state_tbl = [\<lparr>sr_id = 0, sr_height = 41\<rparr>]\<rparr>,
    sql_fault = (\<lambda>_. None), sql_count = 0\<rparr>"

lemma example_store_ok: "sql_healthy example_store" "store_wf (tables example_store)"
  by (simp_all add: sql_healthy_def store_wf_def example_store_def)

theorem backoff_survives_restart_witness:
  "map_of (case fst (load_retry_state tally_chrono
       (snd (upsert tally_chrono ''b'' \<lparr>failures = 1, next_attempt = 5\<rparr> example_store))) of
     Inr m \<Rightarrow> m) ''b'' = Some \<lparr>failures = 1, next_attempt = 5\<rparr>"
proof -
  let ?c' = "snd (upsert tally_chrono ''b'' \<lparr>failures = 1, next_attempt = 5\<rparr> example_store)"
  obtain before c1 where 1: "load_retry_state tally_chrono example_store = (Inr before, c1)"
    using example_store_ok by (simp add: load_retry_state_def io_defs sql_healthy_def)
  obtain after c2 where 2: "load_retry_state tally_chrono ?c' = (Inr after, c2)"
    using example_store_ok by (simp add: load_retry_state_def upsert_def io_defs sql_healthy_def)
  have "rfc3339_range (next_attempt \<lparr>failures = 1, next_attempt = 5\<rparr>)"
    by (simp add: rfc3339_range_def)
  from backoff_survives_restart [OF example_store_ok tally_chrono_roundtrip this 1 2] 2
  show ?thesis by simp
qed

section \<open>Pruning\<close>

lemma for_each_invariant:
  assumes "\<And>x s. x \<in> set xs \<Longrightarrow> I s \<Longrightarrow> I (snd (f x s))" and "I s"
  shows "I (snd (for_each f xs s))"
  using assms
proof (induction xs arbitrary: s)
  case (Cons x xs)
  then have *: "I (snd (f x s))" by simp
  show ?case
  proof (cases "f x s")
    case (Pair r s')
    with Cons * show ?thesis by (cases r) (simp_all add: bind_io_def)
  qed
qed (simp add: return_io_def)

text \<open>The addresses a table holds, whatever columns it has beside them.\<close>

definition retry_addrs :: "retry_tables \<Rightarrow> string set" where
  "retry_addrs t = rr_forward_addr ` set (retry_state_tbl t)"

definition activity_addrs :: "retry_tables \<Rightarrow> string set" where
  "activity_addrs t = ar_forward_addr ` set (address_activity_tbl t)"

text \<open>Same rows for every active address, same cursor: what pruning may not touch.\<close>

definition same_active :: "string list \<Rightarrow> retry_tables \<Rightarrow> retry_tables \<Rightarrow> bool" where
  "same_active active t u \<longleftrightarrow>
     (\<forall>a \<in> set active. tbl_get rr_forward_addr (retry_state_tbl u) a
          = tbl_get rr_forward_addr (retry_state_tbl t) a
        \<and> tbl_get ar_forward_addr (address_activity_tbl u) a
          = tbl_get ar_forward_addr (address_activity_tbl t) a)
     \<and> scan_state_tbl u = scan_state_tbl t"

lemma same_active_refl [simp]: "same_active active t t"
  by (simp add: same_active_def)

lemma retain_table_invariant:
  assumes "\<And>a t. a \<notin> set active \<Longrightarrow> I t \<Longrightarrow> I (delete a t)" and "I (tables c)"
  shows "I (tables (snd (retain_table addrs_of delete active c)))"
proof -
  let ?f = "\<lambda>addr. if addr \<in> set active then return_io () else sql_exec (delete addr)"
  have "I (tables (snd (for_each ?f xs d)))" if "I (tables d)" for xs d
    using that
  proof (intro for_each_invariant [of xs "\<lambda>s :: retry_store. I (tables s)"])
    fix x and s :: retry_store
    assume "I (tables s)"
    then show "I (tables (snd (?f x s)))"
      using assms(1) by (cases "sql_fault s (sql_count s)") (auto simp: io_defs)
  qed
  with assms(2) show ?thesis
    by (auto simp: retain_table_def bind_io_def sql_query_def split: option.splits)
qed

lemma retain_store_invariant:
  assumes "\<And>a t. a \<notin> set active \<Longrightarrow> I t \<Longrightarrow>
      I (t\<lparr>retry_state_tbl := tbl_delete rr_forward_addr a (retry_state_tbl t)\<rparr>)"
    and "\<And>a t. a \<notin> set active \<Longrightarrow> I t \<Longrightarrow>
      I (t\<lparr>address_activity_tbl := tbl_delete ar_forward_addr a (address_activity_tbl t)\<rparr>)"
    and "I (tables c)"
  shows "I (tables (snd (retain_store active c)))"
proof -
  let ?r = "retain_table (\<lambda>t. map rr_forward_addr (retry_state_tbl t))
    (\<lambda>addr t. t\<lparr>retry_state_tbl := tbl_delete rr_forward_addr addr (retry_state_tbl t)\<rparr>) active c"
  have "I (tables (snd ?r))" using assms(1,3) by (rule retain_table_invariant)
  then show ?thesis
    by (cases "?r" rule: prod.exhaust)
      (auto simp: retain_store_def bind_io_def intro: retain_table_invariant assms(2)
        split: sum.splits)
qed

lemma fold_delete_fields:
  "retry_state_tbl (fold (\<lambda>a t. t\<lparr>retry_state_tbl := tbl_delete rr_forward_addr a (retry_state_tbl t)\<rparr>)
     as t) = fold (tbl_delete rr_forward_addr) as (retry_state_tbl t)"
  "address_activity_tbl (fold (\<lambda>a t. t\<lparr>address_activity_tbl :=
     tbl_delete ar_forward_addr a (address_activity_tbl t)\<rparr>) as t)
   = fold (tbl_delete ar_forward_addr) as (address_activity_tbl t)"
  "address_activity_tbl (fold (\<lambda>a t. t\<lparr>retry_state_tbl :=
     tbl_delete rr_forward_addr a (retry_state_tbl t)\<rparr>) as t) = address_activity_tbl t"
  "retry_state_tbl (fold (\<lambda>a t. t\<lparr>address_activity_tbl :=
     tbl_delete ar_forward_addr a (address_activity_tbl t)\<rparr>) as t) = retry_state_tbl t"
  by (induction as arbitrary: t) simp_all

text \<open>A pass that reports success has run every delete it had to.\<close>

lemma for_each_exec_Inr:
  "for_each (\<lambda>x. if x \<in> A then return_io () else sql_exec (delete x)) xs c = (Inr (), c') \<Longrightarrow>
     tables c' = fold delete (filter (\<lambda>x. x \<notin> A) xs) (tables c)"
proof (induction xs arbitrary: c)
  case (Cons x xs)
  show ?case
  proof (cases "x \<in> A")
    case True
    with Cons show ?thesis by (simp add: bind_io_def return_io_def)
  next
    case False
    with Cons.prems obtain c1 where 1: "sql_exec (delete x) c = (Inr (), c1)"
      and 2: "for_each (\<lambda>x. if x \<in> A then return_io () else sql_exec (delete x)) xs c1 = (Inr (), c')"
      by (auto simp: bind_io_def split: prod.splits sum.splits)
    from 1 have "tables c1 = delete x (tables c)"
      by (auto simp: sql_exec_def split: option.splits)
    with Cons.IH [OF 2] False show ?thesis by simp
  qed
qed (simp add: return_io_def)

lemma retain_table_Inr:
  assumes "retain_table addrs_of delete active c = (Inr (), c')"
  shows "tables c' = fold delete (filter (\<lambda>a. a \<notin> set active) (addrs_of (tables c))) (tables c)"
  using assms
  by (auto simp: retain_table_def bind_io_def sql_query_def
      dest!: for_each_exec_Inr split: option.splits)

lemma tbl_get_prune:
  "tbl_get key (fold (tbl_delete key) (filter (\<lambda>a. a \<notin> A) (map key t)) t) j =
     (if j \<in> A then tbl_get key t j else None)"
  by (auto simp: tbl_get_delete_all tbl_get_None_iff)

text \<open>pruning never loses state of an active address nor the scan cursor, whatever
  statement of it fails; and when it reports success, no other address is left in either
  table.\<close>

theorem retain_prunes_exactly:
  assumes "retain_store active c = (r, c')"
  shows "same_active active (tables c) (tables c')
    \<and> (r = Inr () \<longrightarrow> retry_addrs (tables c') \<subseteq> set active \<and> activity_addrs (tables c') \<subseteq> set active)"
proof (intro conjI impI)
  have "same_active active (tables c) (tables (snd (retain_store active c)))"
    by (rule retain_store_invariant) (auto simp: same_active_def tbl_simps)
  with assms show "same_active active (tables c) (tables c')" by simp
next
  assume "r = Inr ()"
  with assms obtain c1 where
    1: "retain_table (\<lambda>t. map rr_forward_addr (retry_state_tbl t))
      (\<lambda>addr t. t\<lparr>retry_state_tbl := tbl_delete rr_forward_addr addr (retry_state_tbl t)\<rparr>)
      active c = (Inr (), c1)" and
    2: "retain_table (\<lambda>t. map ar_forward_addr (address_activity_tbl t))
      (\<lambda>addr t. t\<lparr>address_activity_tbl := tbl_delete ar_forward_addr addr (address_activity_tbl t)\<rparr>)
      active c1 = (Inr (), c')"
    by (auto simp: retain_store_def bind_io_def split: prod.splits sum.splits)
  show "retry_addrs (tables c') \<subseteq> set active"
  proof
    fix a assume "a \<in> retry_addrs (tables c')"
    then have "tbl_get rr_forward_addr (retry_state_tbl (tables c')) a \<noteq> None"
      by (simp add: tbl_get_None_iff retry_addrs_def)
    then show "a \<in> set active"
      by (auto simp: retain_table_Inr [OF 2] retain_table_Inr [OF 1] fold_delete_fields
          tbl_get_prune split: if_splits)
  qed
  show "activity_addrs (tables c') \<subseteq> set active"
  proof
    fix a assume "a \<in> activity_addrs (tables c')"
    then have "tbl_get ar_forward_addr (address_activity_tbl (tables c')) a \<noteq> None"
      by (simp add: tbl_get_None_iff activity_addrs_def)
    then show "a \<in> set active"
      by (auto simp: retain_table_Inr [OF 2] fold_delete_fields tbl_get_prune split: if_splits)
  qed
qed

theorem retain_prunes_exactly_witness:
  "activity_addrs (tables (snd (retain_store [''b''] example_store))) \<subseteq> {''b''}"
proof -
  obtain r c' where rc: "retain_store [''b''] example_store = (r, c')" by fastforce
  moreover have "fst (retain_store [''b''] example_store) = Inr ()"
    by (simp add: retain_store_def retain_table_def example_store_def io_defs)
  ultimately show ?thesis using retain_prunes_exactly [OF rc] by simp
qed

end
