(* ===== verification/Backend.thy ===== *)
theory Backend
  imports Types Address Retry_Store "HOL-Library.List_Lexorder" "HOL-Library.Char_ord"
    "HOL-Library.Multiset"
begin

text \<open>
  \<^verbatim>\<open>src/backend.rs\<close>: the SQLite registry of forwarding requests and the HTTP handlers over
  it. A handler maps the backend's state and a decoded request to a status code, a body
  and the new state; the clock readings it takes are arguments.
\<close>

section \<open>Storage\<close>

record backend_tables =
  schema :: "string list option"
  forwarding_requests :: "forwarding_request list"

type_synonym backend_storage = "backend_tables conn"

definition request_columns :: "string list" where
  "request_columns = [''forward_addr'', ''dest_domain'', ''dest_recipient'', ''token_id'',
     ''custom_hook_id'', ''custom_hook_metadata'', ''created_at'']"

definition contains_str :: "string \<Rightarrow> string \<Rightarrow> bool" where
  "contains_str s pat \<longleftrightarrow> split_once_str pat s \<noteq> None"

definition create_requests_table :: "backend_tables \<Rightarrow> backend_tables" where
  "create_requests_table t =
     (case schema t of None \<Rightarrow> t\<lparr>schema := Some request_columns\<rparr> | Some _ \<Rightarrow> t)"

text \<open>\<^verbatim>\<open>ALTER TABLE .. ADD COLUMN .. TEXT\<close>: refused when the column is there, else NULL in every row.\<close>

definition null_column :: "string \<Rightarrow> forwarding_request \<Rightarrow> forwarding_request" where
  "null_column column r =
     (if column = ''custom_hook_id'' then r\<lparr>custom_hook_id := None\<rparr>
      else if column = ''custom_hook_metadata'' then r\<lparr>custom_hook_metadata := None\<rparr>
      else r)"

definition add_column :: "string \<Rightarrow> backend_tables \<Rightarrow> (unit \<times> backend_tables) result" where
  "add_column column t =
     (case schema t of
        None \<Rightarrow> Inl ''no such table: forwarding_requests''
      | Some cols \<Rightarrow>
          if column \<in> set cols then Inl (''duplicate column name: '' @ column)
          else Inr ((), t\<lparr>schema := Some (cols @ [column]),
                 forwarding_requests := map (null_column column) (forwarding_requests t)\<rparr>))"

definition migrate_column :: "string \<Rightarrow> (backend_tables conn, unit) io" where
  "migrate_column column c =
     (case sql_run (add_column column) c of
        (Inl e, c') \<Rightarrow>
          if \<not> contains_str e ''duplicate column name''
          then (Inl (''Failed to add '' @ column @ '' column''), c')
          else (Inr (), c')
      | (Inr (), c') \<Rightarrow> (Inr (), c'))"

definition backend_storage_init :: "(backend_tables conn, unit) io" where
  "backend_storage_init =
     bind_io (context_io ''Failed to create forwarding_requests table''
                (sql_exec create_requests_table))
       (\<lambda>_. for_each migrate_column [''custom_hook_id'', ''custom_hook_metadata''])"

text \<open>\<^verbatim>\<open>BackendStorage::new\<close>; the directory and the database file are the system's.\<close>

definition backend_storage_new ::
  "(string \<Rightarrow> unit result) \<Rightarrow> (string \<Rightarrow> backend_storage result) \<Rightarrow> string option \<Rightarrow> string
     \<Rightarrow> backend_storage result" where
  "backend_storage_new create_dir_all open_db parent db_path =
     (case (case parent of
              Some p \<Rightarrow> with_context (''Failed to create directory '' @ debug_string p) (create_dir_all p)
            | None \<Rightarrow> Inr ()) of
        Inl e \<Rightarrow> Inl e
      | Inr _ \<Rightarrow>
        (case with_context (''Failed to open backend DB at '' @ debug_string db_path)
                (open_db db_path) of
           Inl e \<Rightarrow> Inl e
         | Inr c \<Rightarrow>
           (case backend_storage_init c of
              (Inl e, _) \<Rightarrow> Inl e
            | (Inr _, c') \<Rightarrow> Inr c')))"

definition request_of :: "create_forwarding_request \<Rightarrow> string \<Rightarrow> forwarding_request" where
  "request_of cr created =
     \<lparr>forward_addr = c_forward_addr cr, dest_domain = c_dest_domain cr,
      dest_recipient = c_dest_recipient cr, token_id = c_token_id cr,
      custom_hook_id = c_custom_hook_id cr, custom_hook_metadata = c_custom_hook_metadata cr,
      created_at = created\<rparr>"

text \<open>\<^verbatim>\<open>INSERT OR IGNORE\<close>, with \<^verbatim>\<open>conn.changes() > 0\<close>.\<close>

definition insert_request :: "forwarding_request \<Rightarrow> backend_tables \<Rightarrow> (bool \<times> backend_tables) result" where
  "insert_request r t =
     Inr (tbl_get forward_addr (forwarding_requests t) (forward_addr r) = None,
          t\<lparr>forwarding_requests := tbl_insert_ignore forward_addr r (forwarding_requests t)\<rparr>)"

definition storage_create_request ::
  "string \<Rightarrow> create_forwarding_request \<Rightarrow> (backend_tables conn, forwarding_request \<times> bool) io" where
  "storage_create_request created create_req =
     bind_io (context_io ''Failed to insert forwarding request''
                (sql_run (insert_request (request_of create_req created))))
       (\<lambda>inserted.
          if inserted then return_io (request_of create_req created, True)
          else bind_io (context_io ''Failed to prepare SELECT statement'' sql_prepare) (\<lambda>_.
            bind_io (context_io ''Failed to query existing request''
              (sql_run (\<lambda>t. case tbl_get forward_addr (forwarding_requests t) (c_forward_addr create_req) of
                   None \<Rightarrow> Inl ''Query returned no rows'' | Some r \<Rightarrow> Inr (r, t))))
              (\<lambda>existing. return_io (existing, False))))"

definition storage_add_request :: "forwarding_request \<Rightarrow> (backend_tables conn, unit) io" where
  "storage_add_request request =
     context_io ''Failed to add forwarding request''
       (sql_exec (\<lambda>t. t\<lparr>forwarding_requests :=
          tbl_replace forward_addr request (forwarding_requests t)\<rparr>))"

text \<open>\<^verbatim>\<open>ORDER BY created_at\<close>: byte order of the text; rows with equal keys in row-id order.\<close>

definition ordered_requests :: "backend_tables \<Rightarrow> forwarding_request list" where
  "ordered_requests t = sort_key created_at (forwarding_requests t)"

definition storage_list_requests :: "(backend_tables conn, forwarding_request list) io" where
  "storage_list_requests =
     bind_io (context_io ''Failed to prepare SELECT statement'' sql_prepare) (\<lambda>_.
     bind_io (context_io ''Failed to query forwarding requests'' sql_prepare) (\<lambda>_.
     context_io ''Failed to read row'' (sql_query ordered_requests)))"

record pending_snapshot =
  pending_requests :: nat
  oldest_created_at :: "string option"

definition min_created_at :: "forwarding_request list \<Rightarrow> string option" where
  "min_created_at rs =
     (case map created_at rs of [] \<Rightarrow> None | s # ss \<Rightarrow> Some (fold min ss s))"

definition pending_metrics_snapshot :: "(backend_tables conn, pending_snapshot) io" where
  "pending_metrics_snapshot =
     bind_io (context_io ''Failed to query pending request count''
                (sql_query (\<lambda>t. length (forwarding_requests t)))) (\<lambda>n.
     bind_io (context_io ''Failed to query oldest pending request timestamp''
                (sql_query (\<lambda>t. min_created_at (forwarding_requests t)))) (\<lambda>oldest.
     return_io \<lparr>pending_requests = n, oldest_created_at = oldest\<rparr>))"

definition storage_health_check :: "(backend_tables conn, unit) io" where
  "storage_health_check = context_io ''Database health check failed'' (sql_query (\<lambda>_. ()))"

definition storage_remove_by_addr ::
  "string \<Rightarrow> (backend_tables conn, forwarding_request option) io" where
  "storage_remove_by_addr addr =
     bind_io (context_io ''Failed to prepare SELECT statement'' sql_prepare) (\<lambda>_.
     bind_io (context_io ''Failed to query forwarding request''
                (sql_query (\<lambda>t. tbl_get forward_addr (forwarding_requests t) addr))) (\<lambda>request.
     if request \<noteq> None
     then bind_io (context_io ''Failed to delete forwarding request''
                     (sql_exec (\<lambda>t. t\<lparr>forwarding_requests :=
                        tbl_delete forward_addr addr (forwarding_requests t)\<rparr>)))
            (\<lambda>_. return_io request)
     else return_io request))"

section \<open>Backend state and metrics\<close>

record backend_state =
  storage :: backend_storage
  metrics_enabled :: bool
  metrics_log :: "metric list"

definition on_storage :: "(backend_tables conn, 'a) io \<Rightarrow> (backend_state, 'a) io" where
  "on_storage m s = (let (r, c) = m (storage s) in (r, s\<lparr>storage := c\<rparr>))"

definition emit :: "metric \<Rightarrow> backend_state \<Rightarrow> backend_state" where
  "emit m s = s\<lparr>metrics_log := metrics_log s @ [m]\<rparr>"

definition backend_state_new :: "backend_storage result \<Rightarrow> bool \<Rightarrow> backend_state result" where
  "backend_state_new opened enabled =
     (case opened of
        Inl e \<Rightarrow> Inl e
      | Inr c \<Rightarrow>
        (case storage_list_requests c of
           (Inl e, _) \<Rightarrow> Inl e
         | (Inr _, c') \<Rightarrow> Inr \<lparr>storage = c', metrics_enabled = enabled, metrics_log = []\<rparr>))"

definition oldest_pending_request_age_seconds ::
  "chrono \<Rightarrow> int \<Rightarrow> string option \<Rightarrow> f64 result" where
  "oldest_pending_request_age_seconds ch now created =
     (case created of
        None \<Rightarrow> Inr (f64_of_int 0)
      | Some s \<Rightarrow>
        (case parse_from_rfc3339 ch s of
           None \<Rightarrow> Inl (''Invalid forwarding request timestamp: '' @ s)
         | Some stamp \<Rightarrow> Inr (f64_of_int (max (num_seconds (now - stamp)) 0))))"

definition update_pending_request_metrics ::
  "chrono \<Rightarrow> int \<Rightarrow> pending_snapshot \<Rightarrow> (backend_state, unit) io" where
  "update_pending_request_metrics ch now snap s =
     (let s1 = emit (Gauge ''pending_requests'' [] (f64_of_int (int (pending_requests snap)))) s in
      case oldest_pending_request_age_seconds ch now (oldest_created_at snap) of
        Inl e \<Rightarrow> (Inl e, s1)
      | Inr age \<Rightarrow> (Inr (), emit (Gauge ''oldest_pending_request_age_seconds'' [] age) s1))"

definition refresh_metrics :: "chrono \<Rightarrow> int \<Rightarrow> (backend_state, unit) io" where
  "refresh_metrics ch now s =
     (if \<not> metrics_enabled s then (Inr (), s)
      else bind_io (on_storage pending_metrics_snapshot) (update_pending_request_metrics ch now) s)"

definition count_result :: "string \<Rightarrow> string \<Rightarrow> backend_state \<Rightarrow> backend_state" where
  "count_result name res s =
     (if metrics_enabled s then emit (Counter name [(''result'', res)] 1) s else s)"

section \<open>HTTP handlers\<close>

datatype body =
    NoBody
  | TextBody string
  | AddressBody string
  | ErrorBody string
  | MismatchBody string string
  | RequestBody forwarding_request
  | RequestsBody "forwarding_request list"

type_synonym response = "nat \<times> body"

definition health :: "backend_state \<Rightarrow> response \<times> backend_state" where
  "health s =
     (case on_storage storage_health_check s of
        (Inr _, s') \<Rightarrow> ((200, TextBody ''OK''), s')
      | (Inl _, s') \<Rightarrow> ((500, NoBody), s'))"

record forwarding_address_query =
  q_dest_domain :: u32
  q_dest_recipient :: string
  q_token_id :: string
  q_custom_hook_id :: "string option"
  q_custom_hook_metadata :: "string option"

definition get_forwarding_address :: "crypto \<Rightarrow> forwarding_address_query \<Rightarrow> response" where
  "get_forwarding_address cr q =
     (case derive_forwarding_address cr (q_dest_domain q) (q_dest_recipient q) (q_token_id q)
             (q_custom_hook_id q) (q_custom_hook_metadata q) of
        Inr address \<Rightarrow> (200, AddressBody address)
      | Inl e \<Rightarrow> (400, ErrorBody e))"

definition list_requests :: "backend_state \<Rightarrow> response \<times> backend_state" where
  "list_requests s =
     (case on_storage storage_list_requests s of
        (Inr requests, s') \<Rightarrow> ((200, RequestsBody requests), s')
      | (Inl _, s') \<Rightarrow> ((500, NoBody), s'))"

definition derive_created :: "crypto \<Rightarrow> create_forwarding_request \<Rightarrow> string result" where
  "derive_created cr req =
     derive_forwarding_address cr (c_dest_domain req) (c_dest_recipient req) (c_token_id req)
       (c_custom_hook_id req) (c_custom_hook_metadata req)"

definition create_request ::
  "crypto \<Rightarrow> chrono \<Rightarrow> int \<Rightarrow> int \<Rightarrow> create_forwarding_request \<Rightarrow> backend_state
     \<Rightarrow> response \<times> backend_state" where
  "create_request cr ch now now' create_req s =
     (case derive_created cr create_req of
        Inr derived \<Rightarrow>
          if derived = c_forward_addr create_req then
            (case on_storage (storage_create_request (to_rfc3339 ch now) create_req) s of
               (Inr (request, created), s1) \<Rightarrow>
                 let s2 = count_result ''requests_created_total''
                            (if created then ''created'' else ''existing'') s1;
                     (_, s3) = refresh_metrics ch now' s2
                 in ((if created then 201 else 200, RequestBody request), s3)
             | (Inl e, s1) \<Rightarrow>
                 ((500, TextBody e), count_result ''requests_created_total'' ''error'' s1))
          else ((400, MismatchBody derived (c_forward_addr create_req)),
                count_result ''requests_created_total'' ''address_mismatch'' s)
      | Inl e \<Rightarrow>
          ((400, ErrorBody e), count_result ''requests_created_total'' ''invalid_params'' s))"

definition complete_request ::
  "chrono \<Rightarrow> int \<Rightarrow> string \<Rightarrow> backend_state \<Rightarrow> response \<times> backend_state" where
  "complete_request ch now addr s =
     (case on_storage (storage_remove_by_addr addr) s of
        (Inr (Some request), s1) \<Rightarrow>
          let s2 = count_result ''requests_completed_total'' ''removed'' s1;
              (_, s3) = refresh_metrics ch now s2
          in ((200, RequestBody request), s3)
      | (Inr None, s1) \<Rightarrow>
          ((404, NoBody), count_result ''requests_completed_total'' ''not_found'' s1)
      | (Inl e, s1) \<Rightarrow>
          ((500, TextBody e), count_result ''requests_completed_total'' ''error'' s1))"

text \<open>The router of \<^verbatim>\<open>Backend::serve\<close>, over requests axum has already decoded.\<close>

datatype http_request =
    GetHealth
  | GetForwardingAddress forwarding_address_query
  | GetForwardingRequests
  | PostForwardingRequests create_forwarding_request
  | DeleteForwardingRequest string

fun serve :: "crypto \<Rightarrow> chrono \<Rightarrow> int \<Rightarrow> int \<Rightarrow> http_request \<Rightarrow> backend_state
     \<Rightarrow> response \<times> backend_state" where
  "serve cr ch now now' GetHealth s = health s"
| "serve cr ch now now' (GetForwardingAddress q) s = (get_forwarding_address cr q, s)"
| "serve cr ch now now' GetForwardingRequests s = list_requests s"
| "serve cr ch now now' (PostForwardingRequests req) s = create_request cr ch now now' req s"
| "serve cr ch now now' (DeleteForwardingRequest addr) s = complete_request ch now' addr s"

text \<open>A run of the server: each request with the clock readings taken while serving it.\<close>

fun serve_all :: "crypto \<Rightarrow> chrono \<Rightarrow> (int \<times> int \<times> http_request) list \<Rightarrow> backend_state
     \<Rightarrow> response list \<times> backend_state" where
  "serve_all cr ch [] s = ([], s)"
| "serve_all cr ch ((now, now', req) # reqs) s =
     (let (resp, s1) = serve cr ch now now' req s;
          (resps, s2) = serve_all cr ch reqs s1
      in (resp # resps, s2))"

section \<open>What each operation does to the table\<close>

abbreviation rows :: "backend_state \<Rightarrow> forwarding_request list" where
  "rows s \<equiv> forwarding_requests (tables (storage s))"

named_theorems backend_simps \<open>frame facts of the backend's operations\<close>

lemma emit_frame [backend_simps]:
  "storage (emit m s) = storage s" "metrics_enabled (emit m s) = metrics_enabled s"
  by (simp_all add: emit_def)

lemma count_result_frame [backend_simps]:
  "storage (count_result n r s) = storage s"
  "metrics_enabled (count_result n r s) = metrics_enabled s"
  by (simp_all add: count_result_def backend_simps)

lemma pending_snapshot_frame [backend_simps]:
  "tables (snd (pending_metrics_snapshot c)) = tables c"
  by (simp add: pending_metrics_snapshot_def io_defs with_context_def
      split: option.splits prod.splits)

lemma update_pending_frame [backend_simps]:
  "storage (snd (update_pending_request_metrics ch now snap s)) = storage s"
  by (simp add: update_pending_request_metrics_def Let_def backend_simps split: sum.splits)

lemma refresh_metrics_tables [backend_simps]:
  "tables (storage (snd (refresh_metrics ch now s))) = tables (storage s)"
proof (cases "metrics_enabled s")
  case True
  obtain r c where rc: "pending_metrics_snapshot (storage s) = (r, c)" by fastforce
  then have c: "tables c = tables (storage s)"
    using pending_snapshot_frame [of "storage s"] by simp
  from True show ?thesis
    by (cases r) (simp_all add: refresh_metrics_def bind_io_def on_storage_def rc c backend_simps)
qed (simp add: refresh_metrics_def)

lemma storage_list_tables [backend_simps]:
  "tables (snd (storage_list_requests c)) = tables c"
  by (simp add: storage_list_requests_def io_defs with_context_def
      split: option.splits prod.splits)

lemma storage_health_tables [backend_simps]: "tables (snd (storage_health_check c)) = tables c"
  by (simp add: storage_health_check_def io_defs split: option.splits)

text \<open>Creation: nothing changes unless it reports a new request, whatever statement fails.\<close>

lemma storage_create_cases:
  assumes "storage_create_request created req c = (r, c')"
  obtains (failed) e where "r = Inl e" "tables c' = tables c"
  | (existing) rq where "r = Inr (rq, False)" "tables c' = tables c"
      "tbl_get forward_addr (forwarding_requests (tables c)) (c_forward_addr req) = Some rq"
  | (inserted) "r = Inr (request_of req created, True)"
      "tbl_get forward_addr (forwarding_requests (tables c)) (c_forward_addr req) = None"
      "tables c' = tables c\<lparr>forwarding_requests :=
         forwarding_requests (tables c) @ [request_of req created]\<rparr>"
proof -
  let ?get = "tbl_get forward_addr (forwarding_requests (tables c)) (c_forward_addr req)"
  have addr: "forward_addr (request_of req created) = c_forward_addr req"
    by (simp add: request_of_def)
  show thesis
  proof (cases "sql_fault c (sql_count c)")
    case (Some e)
    with assms show thesis
      by (intro failed [of "''Failed to insert forwarding request''"])
        (auto simp: storage_create_request_def io_defs Let_def)
  next
    case None
    show thesis
    proof (cases ?get)
      case None
      with assms addr \<open>sql_fault c (sql_count c) = None\<close> show thesis
        by (intro inserted)
          (auto simp: storage_create_request_def insert_request_def io_defs Let_def
            tbl_insert_ignore_def)
    next
      case (Some rq)
      with assms addr \<open>sql_fault c (sql_count c) = None\<close> show thesis
        by (auto simp: storage_create_request_def insert_request_def io_defs Let_def
            tbl_insert_ignore_def intro: failed existing split: option.splits)
    qed
  qed
qed

lemma storage_remove_cases:
  assumes "storage_remove_by_addr addr c = (r, c')"
  obtains (failed) e where "r = Inl e" "tables c' = tables c"
  | (absent) "r = Inr None" "tables c' = tables c"
      "tbl_get forward_addr (forwarding_requests (tables c)) addr = None"
  | (removed) rq where "r = Inr (Some rq)"
      "tbl_get forward_addr (forwarding_requests (tables c)) addr = Some rq"
      "tables c' = tables c\<lparr>forwarding_requests :=
         tbl_delete forward_addr addr (forwarding_requests (tables c))\<rparr>"
proof (cases "tbl_get forward_addr (forwarding_requests (tables c)) addr")
  case None
  with assms failed absent show thesis
    by (auto simp: storage_remove_by_addr_def io_defs split: option.splits)
next
  case (Some rq)
  with assms failed removed show thesis
    by (auto simp: storage_remove_by_addr_def io_defs split: option.splits)
qed

interpretation backend_registry: registry
  ordered_requests
  "\<lambda>a t. t\<lparr>forwarding_requests := tbl_delete forward_addr a (forwarding_requests t)\<rparr>"
  "\<lambda>t. tbl_wf forward_addr (forwarding_requests t)"
proof unfold_locales
  fix t :: backend_tables
  assume wf: "tbl_wf forward_addr (forwarding_requests t)"
  have "mset (map forward_addr (ordered_requests t)) = mset (map forward_addr (forwarding_requests t))"
    by (simp add: ordered_requests_def)
  with wf show "distinct (map forward_addr (ordered_requests t))"
    by (metis mset_eq_imp_distinct_iff)
next
  fix t :: backend_tables and a
  show "tbl_wf forward_addr (forwarding_requests t) \<Longrightarrow>
      tbl_wf forward_addr (forwarding_requests
        (t\<lparr>forwarding_requests := tbl_delete forward_addr a (forwarding_requests t)\<rparr>))"
    by simp
qed (auto simp: ordered_requests_def tbl_delete_def)

text \<open>The registry as a map from addresses to requests: what the handlers promise about.\<close>

definition reg :: "backend_state \<Rightarrow> string \<Rightarrow> forwarding_request option" where
  "reg s = tbl_get forward_addr (rows s)"

lemma reg_unchanged: "tables (storage s') = tables (storage s) \<Longrightarrow> reg s' = reg s"
  by (simp add: reg_def)

lemma on_storage_frame [backend_simps]:
  "storage (snd (on_storage m s)) = snd (m (storage s))"
  "fst (on_storage m s) = fst (m (storage s))"
  "metrics_enabled (snd (on_storage m s)) = metrics_enabled s"
  by (simp_all add: on_storage_def split: prod.splits)

lemma on_storage_iff: "on_storage m s = (r, s') \<longleftrightarrow>
    (\<exists>c. m (storage s) = (r, c) \<and> s' = s\<lparr>storage := c\<rparr>)"
  by (auto simp: on_storage_def split: prod.splits)

text \<open>The three ways a creation can reach the database, and the two in which it does not.\<close>

lemma create_request_cases:
  assumes "create_request cr ch now now' req s = ((code, body), s')"
  obtains (invalid) e where "derive_created cr req = Inl e" "code = 400" "body = ErrorBody e"
      "tables (storage s') = tables (storage s)"
  | (mismatch) a where "derive_created cr req = Inr a" "a \<noteq> c_forward_addr req" "code = 400"
      "body = MismatchBody a (c_forward_addr req)" "tables (storage s') = tables (storage s)"
  | (error) e where "derive_created cr req = Inr (c_forward_addr req)" "code = 500"
      "body = TextBody e" "tables (storage s') = tables (storage s)"
  | (existing) rq where "derive_created cr req = Inr (c_forward_addr req)" "code = 200"
      "body = RequestBody rq" "reg s (c_forward_addr req) = Some rq"
      "tables (storage s') = tables (storage s)"
  | (inserted) "derive_created cr req = Inr (c_forward_addr req)" "code = 201"
      "body = RequestBody (request_of req (to_rfc3339 ch now))"
      "reg s (c_forward_addr req) = None"
      "tables (storage s') = tables (storage s)\<lparr>forwarding_requests :=
         rows s @ [request_of req (to_rfc3339 ch now)]\<rparr>"
proof -
  show thesis
  proof (cases "derive_created cr req")
    case (Inl e)
    with assms show thesis
      by (intro invalid) (auto simp: create_request_def backend_simps)
  next
    case (Inr a)
    show thesis
    proof (cases "a = c_forward_addr req")
      case False
      with Inr assms show thesis
        by (intro mismatch) (auto simp: create_request_def backend_simps)
    next
      case True
      obtain r c where rc: "storage_create_request (to_rfc3339 ch now) req (storage s) = (r, c)"
        by fastforce
      then show thesis
      proof (cases rule: storage_create_cases)
        case failed
        with True Inr rc assms show thesis
          by (intro error) (auto simp: create_request_def on_storage_def backend_simps)
      next
        case existing: (existing rq)
        with True Inr rc assms show thesis
          by (intro that(4)) (auto simp: create_request_def on_storage_def backend_simps reg_def
              Let_def split: prod.splits dest!: arg_cong [where f = snd])
      next
        case inserted
        with True Inr rc assms show thesis
          by (intro that(5)) (auto simp: create_request_def on_storage_def backend_simps reg_def
              Let_def split: prod.splits dest!: arg_cong [where f = snd])
      qed
    qed
  qed
qed

lemma complete_request_cases:
  assumes "complete_request ch now addr s = ((code, body), s')"
  obtains (error) e where "code = 500" "body = TextBody e" "tables (storage s') = tables (storage s)"
  | (absent) "code = 404" "body = NoBody" "reg s addr = None"
      "tables (storage s') = tables (storage s)"
  | (removed) rq where "code = 200" "body = RequestBody rq" "reg s addr = Some rq"
      "tables (storage s') = tables (storage s)\<lparr>forwarding_requests :=
         tbl_delete forward_addr addr (rows s)\<rparr>"
proof -
  obtain r c where rc: "storage_remove_by_addr addr (storage s) = (r, c)" by fastforce
  then show thesis
  proof (cases rule: storage_remove_cases)
    case failed
    with rc assms show thesis
      by (intro error) (auto simp: complete_request_def on_storage_def backend_simps)
  next
    case absent
    with rc assms show thesis
      by (intro that(2)) (auto simp: complete_request_def on_storage_def backend_simps reg_def)
  next
    case (removed rq)
    with rc assms show thesis
      by (intro that(3)) (auto simp: complete_request_def on_storage_def backend_simps reg_def
          Let_def split: prod.splits dest!: arg_cong [where f = snd])
  qed
qed

lemma list_requests_tables [backend_simps]:
  "tables (storage (snd (list_requests s))) = tables (storage s)"
  by (auto simp: list_requests_def backend_simps on_storage_def split: prod.splits sum.splits)
    (metis snd_conv storage_list_tables)+

lemma health_tables [backend_simps]: "tables (storage (snd (health s))) = tables (storage s)"
  by (auto simp: health_def backend_simps on_storage_def split: prod.splits sum.splits)
    (metis snd_conv storage_health_tables)+

section \<open>Properties\<close>

text \<open>
  The abstract registry: what a client may conclude from a status code. Only a 201 adds a
  request and only a 200 to a deletion removes one.
\<close>

fun answered :: "string \<Rightarrow> http_request \<Rightarrow> nat \<Rightarrow> (string \<Rightarrow> forwarding_request option)
     \<Rightarrow> (string \<Rightarrow> forwarding_request option)" where
  "answered created (PostForwardingRequests req) code m =
     (if code = 201 then m(c_forward_addr req \<mapsto> request_of req created) else m)"
| "answered created (DeleteForwardingRequest addr) code m = (if code = 200 then m(addr := None) else m)"
| "answered created _ code m = m"

lemma serve_reg:
  "reg (snd (serve cr ch now now' req s))
   = answered (to_rfc3339 ch now) req (fst (fst (serve cr ch now now' req s))) (reg s)"
proof (cases req)
  case (PostForwardingRequests r)
  obtain code body s' where eq: "create_request cr ch now now' r s = ((code, body), s')"
    by (metis prod.exhaust)
  then show ?thesis
    by (cases rule: create_request_cases)
      (auto simp: PostForwardingRequests eq reg_def tbl_get_append tbl_get_single request_of_def
        split: option.splits)
next
  case (DeleteForwardingRequest addr)
  obtain code body s' where eq: "complete_request ch now' addr s = ((code, body), s')"
    by (metis prod.exhaust)
  then show ?thesis
    by (cases rule: complete_request_cases)
      (auto simp: DeleteForwardingRequest eq reg_def tbl_simps)
next
  case GetHealth
  then show ?thesis by (simp add: reg_unchanged [OF health_tables])
next
  case (GetForwardingAddress q)
  then show ?thesis by simp
next
  case GetForwardingRequests
  then show ?thesis by (simp add: reg_unchanged [OF list_requests_tables])
qed


text \<open>A row is valid when its address is derived from its other columns.\<close>

definition row_valid :: "crypto \<Rightarrow> forwarding_request \<Rightarrow> bool" where
  "row_valid cr r \<longleftrightarrow>
     derive_forwarding_address cr (dest_domain r) (dest_recipient r) (token_id r)
       (custom_hook_id r) (custom_hook_metadata r) = Inr (forward_addr r)"

definition registry_ok :: "crypto \<Rightarrow> backend_state \<Rightarrow> bool" where
  "registry_ok cr s \<longleftrightarrow> tbl_wf forward_addr (rows s) \<and> list_all (row_valid cr) (rows s)"

lemma registry_ok_unchanged:
  "tables (storage s') = tables (storage s) \<Longrightarrow> registry_ok cr s' = registry_ok cr s"
  by (simp add: registry_ok_def)

lemma serve_registry_ok:
  assumes "registry_ok cr s"
  shows "registry_ok cr (snd (serve cr ch now now' req s))"
proof (cases req)
  case (PostForwardingRequests r)
  obtain code body s' where eq: "create_request cr ch now now' r s = ((code, body), s')"
    by (metis prod.exhaust)
  then show ?thesis
  proof (cases rule: create_request_cases)
    case inserted
    let ?new = "request_of r (to_rfc3339 ch now)"
    from inserted(1) have "row_valid cr ?new"
      by (simp add: row_valid_def request_of_def derive_created_def)
    moreover from inserted(4) have "c_forward_addr r \<notin> forward_addr ` set (rows s)"
      by (simp add: reg_def tbl_get_None_iff)
    moreover have "forward_addr ?new = c_forward_addr r" by (simp add: request_of_def)
    ultimately show ?thesis
      using assms inserted(5) by (simp add: PostForwardingRequests eq registry_ok_def)
  qed (use assms in \<open>simp_all add: PostForwardingRequests eq registry_ok_def\<close>)
next
  case (DeleteForwardingRequest addr)
  obtain code body s' where eq: "complete_request ch now' addr s = ((code, body), s')"
    by (metis prod.exhaust)
  then show ?thesis
  proof (cases rule: complete_request_cases)
    case removed
    have "list_all (row_valid cr) (tbl_delete forward_addr addr (rows s))"
      using assms by (auto simp: registry_ok_def tbl_delete_def list_all_iff)
    with assms removed(4) show ?thesis
      by (simp add: DeleteForwardingRequest eq registry_ok_def)
  qed (use assms in \<open>simp_all add: DeleteForwardingRequest eq registry_ok_def\<close>)
qed (use assms in \<open>simp_all add: registry_ok_def backend_simps\<close>)

text \<open>C6: whatever requests arrive, in whatever order, and whatever the database refuses, the
  registry never holds two requests for one address, nor a request whose address is not
  the one its own columns derive.\<close>

theorem registry_integrity:
  assumes "registry_ok cr s"
  shows "registry_ok cr (snd (serve_all cr ch reqs s))"
  using assms
proof (induction reqs arbitrary: s)
  case (Cons x reqs)
  obtain now now' req where x: "x = (now, now', req)" by (metis prod.exhaust)
  have "registry_ok cr (snd (serve cr ch now now' req s))"
    using Cons.prems by (rule serve_registry_ok)
  from Cons.IH [OF this] show ?case by (simp add: x split_beta)
qed simp

definition example_post :: create_forwarding_request where
  "example_post = \<lparr>c_forward_addr =
       (case derive_forwarding_address example_crypto 7 example_recipient example_token None None of
          Inr a \<Rightarrow> a | Inl _ \<Rightarrow> []),
     c_dest_domain = 7, c_dest_recipient = example_recipient, c_token_id = example_token,
     c_custom_hook_id = None, c_custom_hook_metadata = None\<rparr>"

definition example_backend :: backend_state where
  "example_backend = \<lparr>storage = \<lparr>tables = \<lparr>schema = Some request_columns, forwarding_requests = []\<rparr>,
       sql_fault = (\<lambda>n. if n = 9 then Some ''disk I/O error'' else None), sql_count = 0\<rparr>,
     metrics_enabled = False, metrics_log = []\<rparr>"

lemma example_backend_ok: "registry_ok example_crypto example_backend"
  by (simp add: registry_ok_def example_backend_def)

lemma example_post_derives:
  "derive_created example_crypto example_post = Inr (c_forward_addr example_post)"
proof -
  obtain a where "derive_forwarding_address example_crypto 7 example_recipient example_token None None
      = Inr a"
    using derive_commitment [OF example_commitments(1)]
    by (auto simp: address_of_preimage_def example_crypto_def Let_def)
  then show ?thesis by (simp add: derive_created_def example_post_def)
qed

lemma example_post_created:
  "create_request example_crypto ch now now' example_post example_backend
   = ((201, RequestBody (request_of example_post (to_rfc3339 ch now))),
      example_backend\<lparr>storage := \<lparr>tables = \<lparr>schema = Some request_columns,
          forwarding_requests = [request_of example_post (to_rfc3339 ch now)]\<rparr>,
        sql_fault = (\<lambda>n. if n = 9 then Some ''disk I/O error'' else None), sql_count = 1\<rparr>\<rparr>)"
  by (simp add: create_request_def example_post_derives storage_create_request_def on_storage_def
      insert_request_def io_defs Let_def example_backend_def request_of_def tbl_insert_ignore_def
      count_result_def refresh_metrics_def)

theorem registry_integrity_witness:
  "registry_ok example_crypto (snd (serve_all example_crypto tally_chrono
     [(1, 2, PostForwardingRequests example_post), (3, 4, PostForwardingRequests example_post)]
     example_backend))
   \<and> rows (snd (serve example_crypto tally_chrono 1 2 (PostForwardingRequests example_post)
       example_backend)) = [request_of example_post ''|'']"
proof
  show "registry_ok example_crypto (snd (serve_all example_crypto tally_chrono
     [(1, 2, PostForwardingRequests example_post), (3, 4, PostForwardingRequests example_post)]
     example_backend))"
    using example_backend_ok by (rule registry_integrity)
  show "rows (snd (serve example_crypto tally_chrono 1 2 (PostForwardingRequests example_post)
       example_backend)) = [request_of example_post ''|'']"
    by (simp add: example_post_created) (simp add: tally_chrono_def)
qed

lemma reg_serve_all_kept:
  assumes "reg s a = Some r" and "\<forall>(now, now', req) \<in> set reqs. req \<noteq> DeleteForwardingRequest a"
  shows "reg (snd (serve_all cr ch reqs s)) a = Some r"
  using assms
proof (induction reqs arbitrary: s)
  case (Cons x reqs)
  obtain now now' req where x: "x = (now, now', req)" by (metis prod.exhaust)
  have "reg (snd (serve cr ch now now' req s)) a = Some r"
  proof (cases req)
    case (PostForwardingRequests p)
    obtain code body s' where eq: "create_request cr ch now now' p s = ((code, body), s')"
      by (metis prod.exhaust)
    then show ?thesis
      using Cons.prems(1)
      by (cases rule: create_request_cases)
        (auto simp: PostForwardingRequests eq reg_def tbl_get_append split: option.splits)
  next
    case (DeleteForwardingRequest b)
    with Cons.prems(2) x have "a \<noteq> b" by auto
    with Cons.prems(1) serve_reg [of cr ch now now' req s] show ?thesis
      by (simp add: DeleteForwardingRequest)
  qed (use Cons.prems(1) in \<open>simp_all add: reg_def backend_simps\<close>)
  with Cons show ?case by (auto simp: x split_beta)
qed simp

text \<open>creating is idempotent. Once a request was returned for an address, posting the same
  request again, after any traffic that does not delete the address and whatever the
  database refuses meanwhile, is never answered by a second creation: a success is a 200
  with the very same row, its first timestamp included.\<close>

theorem create_idempotent:
  assumes "serve cr ch now now' (PostForwardingRequests req) s = ((code1, RequestBody r1), s1)"
    and "\<forall>(now, now', rq) \<in> set reqs. rq \<noteq> DeleteForwardingRequest (c_forward_addr req)"
    and "serve_all cr ch reqs s1 = (resps, s2)"
    and "serve cr ch later later' (PostForwardingRequests req) s2 = ((code2, body2), s3)"
  shows "(code2, body2) = (200, RequestBody r1) \<or> (\<exists>e. (code2, body2) = (500, TextBody e))"
proof -
  from assms(1) have eq: "create_request cr ch now now' req s = ((code1, RequestBody r1), s1)"
    by simp
  then have r1: "reg s1 (c_forward_addr req) = Some r1
      \<and> derive_created cr req = Inr (c_forward_addr req)"
  proof (cases rule: create_request_cases)
    case inserted
    have "forward_addr (request_of req t) = c_forward_addr req" for t
      by (simp add: request_of_def)
    with inserted show ?thesis
      by (simp add: reg_def tbl_get_append tbl_get_single)
  qed (simp_all add: reg_def)
  with assms(2,3) have r2: "reg s2 (c_forward_addr req) = Some r1"
    using reg_serve_all_kept [of s1 "c_forward_addr req" r1 reqs cr ch] by simp
  from assms(4) have "create_request cr ch later later' req s2 = ((code2, body2), s3)" by simp
  then show ?thesis
    by (cases rule: create_request_cases) (use r1 r2 in auto)
qed

definition example_backend2 :: backend_state where
  "example_backend2 = example_backend\<lparr>storage := \<lparr>tables = \<lparr>schema = Some request_columns,
       forwarding_requests = [request_of example_post ''|'']\<rparr>,
     sql_fault = (\<lambda>n. if n = 9 then Some ''disk I/O error'' else None), sql_count = 1\<rparr>\<rparr>"

lemma example_post_again:
  "create_request example_crypto ch now now' example_post example_backend2
   = ((200, RequestBody (request_of example_post ''|'')),
      example_backend2\<lparr>storage := (storage example_backend2)\<lparr>sql_count := 4\<rparr>\<rparr>)"
proof -
  have [simp]: "forward_addr (request_of example_post t) = c_forward_addr example_post" for t
    by (simp add: request_of_def)
  show ?thesis
    by (simp add: create_request_def example_post_derives storage_create_request_def
        on_storage_def insert_request_def io_defs Let_def example_backend_def example_backend2_def
        tbl_insert_ignore_def tbl_get_single count_result_def refresh_metrics_def)
qed

theorem create_idempotent_witness:
  "fst (create_request example_crypto tally_chrono 5 6 example_post example_backend2)
     = (200, RequestBody (request_of example_post ''|''))"
proof -
  have 1: "serve example_crypto tally_chrono 1 2 (PostForwardingRequests example_post) example_backend
      = ((201, RequestBody (request_of example_post ''|'')), example_backend2)"
    by (simp add: example_post_created example_backend2_def)
      (simp add: tally_chrono_def example_backend_def)
  obtain code body s' where 2: "serve example_crypto tally_chrono 5 6
      (PostForwardingRequests example_post) example_backend2 = ((code, body), s')"
    by (metis prod.exhaust)
  have "(code, body) = (200, RequestBody (request_of example_post ''|''))
      \<or> (\<exists>e. (code, body) = (500, TextBody e))"
    by (rule create_idempotent [OF 1 _ _ 2, of "[]" "[]"]) simp_all
  with 2 show ?thesis by (auto simp: example_post_again)
qed

text \<open>On a working database every request gets an answer of its own kind, never a 500.\<close>

lemma storage_create_healthy:
  assumes "sql_healthy c"
  shows "\<exists>r c'. storage_create_request created req c = (Inr r, c')"
proof -
  have addr: "forward_addr (request_of req created) = c_forward_addr req"
    by (simp add: request_of_def)
  show ?thesis
    using assms addr
    by (cases "tbl_get forward_addr (forwarding_requests (tables c)) (c_forward_addr req)")
      (auto simp: storage_create_request_def insert_request_def io_defs Let_def sql_healthy_def
        tbl_insert_ignore_def)
qed

lemma create_request_healthy:
  assumes "sql_healthy (storage s)" and "create_request cr ch now now' req s = ((code, body), s')"
  shows "code \<noteq> 500"
proof -
  obtain r c where rc: "storage_create_request (to_rfc3339 ch now) req (storage s) = (Inr r, c)"
    using storage_create_healthy [OF assms(1)] by blast
  with assms(2) show ?thesis
    by (cases r)
      (auto simp: create_request_def on_storage_def Let_def split: sum.splits if_splits prod.splits)
qed

text \<open>on a working database the answer to a creation is decided by the derivation and by
  the registry: 400 when the parameters derive no address or another one (the registry is
  then left alone), 200 with the pending row when there is one, 201 with a new row
  otherwise.\<close>

theorem create_outcomes:
  assumes "sql_healthy (storage s)"
    and "serve cr ch now now' (PostForwardingRequests req) s = ((code, body), s')"
  shows "(code, body) =
      (case derive_created cr req of
         Inl e \<Rightarrow> (400, ErrorBody e)
       | Inr a \<Rightarrow>
           if a \<noteq> c_forward_addr req then (400, MismatchBody a (c_forward_addr req))
           else (case reg s a of
                   Some r \<Rightarrow> (200, RequestBody r)
                 | None \<Rightarrow> (201, RequestBody (request_of req (to_rfc3339 ch now)))))
    \<and> (code \<noteq> 201 \<longrightarrow> reg s' = reg s)"
proof -
  from assms(2) have eq: "create_request cr ch now now' req s = ((code, body), s')" by simp
  from eq have "code \<noteq> 500" by (rule create_request_healthy [OF assms(1)])
  from eq this show ?thesis
    by (cases rule: create_request_cases) (auto simp: reg_def)
qed

theorem create_outcomes_witness:
  "fst (serve example_crypto tally_chrono 1 2 (PostForwardingRequests (example_post\<lparr>c_token_id := example_hook\<rparr>))
     \<lparr>storage = \<lparr>tables = \<lparr>schema = Some request_columns, forwarding_requests = []\<rparr>,
        sql_fault = (\<lambda>_. None), sql_count = 0\<rparr>, metrics_enabled = True, metrics_log = []\<rparr>)
   = (400, MismatchBody
       (case derive_created example_crypto (example_post\<lparr>c_token_id := example_hook\<rparr>) of Inr a \<Rightarrow> a)
       (c_forward_addr example_post))"
proof -
  let ?s = "\<lparr>storage = \<lparr>tables = \<lparr>schema = Some request_columns, forwarding_requests = []\<rparr>,
        sql_fault = (\<lambda>_. None), sql_count = 0\<rparr>, metrics_enabled = True, metrics_log = []\<rparr>"
  let ?p = "example_post\<lparr>c_token_id := example_hook\<rparr>"
  have "case (derive_created example_crypto ?p, derive_created example_crypto example_post) of
      (Inr a, Inr b) \<Rightarrow> a \<noteq> b | _ \<Rightarrow> False"
    by code_simp
  then have d: "derive_created example_crypto ?p \<noteq> derive_created example_crypto example_post"
    "\<exists>a. derive_created example_crypto ?p = Inr a"
    by (auto split: sum.splits)
  obtain code body s' where eq: "serve example_crypto tally_chrono 1 2 (PostForwardingRequests ?p) ?s
      = ((code, body), s')"
    by (metis prod.exhaust)
  have "sql_healthy (storage ?s)" by (simp add: sql_healthy_def)
  from create_outcomes [OF this eq] d example_post_derives show ?thesis
    by (auto simp: eq simp del: serve.simps)
qed

lemma fold_min_hd: "sorted (s # ss) \<Longrightarrow> fold min ss s = (s :: 'a::linorder)"
  by (induction ss) (auto simp: min_absorb1)

lemma fold_min_Min: "fold min ss s = Min (set (s # ss))" for s :: "'a::linorder"
  by (rule Min.set_eq_fold [symmetric])

lemma min_created_at_ordered:
  "min_created_at (forwarding_requests t)
   = (case ordered_requests t of [] \<Rightarrow> None | r # _ \<Rightarrow> Some (created_at r))"
proof (cases "ordered_requests t")
  case Nil
  then show ?thesis
    by (simp add: ordered_requests_def min_created_at_def) (metis list.simps(4) list.simps(8) mset_sort mset_zero_iff)
next
  case (Cons r rs)
  have set_eq: "set (map created_at (r # rs)) = set (map created_at (forwarding_requests t))"
    by (simp only: Cons [symmetric] ordered_requests_def set_map set_sort)
  then obtain s ss where ss: "map created_at (forwarding_requests t) = s # ss"
    by (cases "map created_at (forwarding_requests t)") auto
  have "sorted (map created_at (r # rs))"
    by (simp only: Cons [symmetric] ordered_requests_def sorted_sort_key)
  then have "Min (set (map created_at (r # rs))) = created_at r"
    by (simp only: list.map) (metis fold_min_Min fold_min_hd)
  with set_eq ss show ?thesis
    by (simp add: Cons min_created_at_def fold_min_Min)
qed

text \<open>a listing holds every pending request exactly once, oldest first, requests created at
  the same instant in insertion order; the oldest timestamp the metrics report is that of
  its first entry.\<close>

theorem listing_is_sorted_registry:
  assumes "serve cr ch now now' GetForwardingRequests s = ((200, RequestsBody rs), s')"
  shows "mset rs = mset (rows s) \<and> sorted (map created_at rs)
    \<and> (\<forall>t. filter (\<lambda>r. created_at r = t) rs = filter (\<lambda>r. created_at r = t) (rows s))
    \<and> min_created_at (rows s) = (case rs of [] \<Rightarrow> None | r # _ \<Rightarrow> Some (created_at r))
    \<and> reg s' = reg s"
proof -
  from assms obtain c where "storage_list_requests (storage s) = (Inr rs, c)"
    by (auto simp: list_requests_def on_storage_def split: prod.splits sum.splits)
  then have rs: "rs = ordered_requests (tables (storage s))"
    by (auto simp: storage_list_requests_def io_defs with_context_def split: option.splits)
  moreover have "\<forall>t. filter (\<lambda>r. created_at r = t) rs = filter (\<lambda>r. created_at r = t) (rows s)"
    unfolding rs ordered_requests_def using sort_key_stable by blast
  moreover have "reg s' = reg s"
    using serve_reg [of cr ch now now' GetForwardingRequests s] assms by simp
  ultimately show ?thesis
    by (simp add: min_created_at_ordered) (simp add: ordered_requests_def)
qed

theorem listing_is_sorted_registry_witness:
  "mset [request_of example_post ''|''] = mset (rows example_backend2)"
proof -
  have "serve cr ch now now' GetForwardingRequests example_backend2
      = ((200, RequestsBody [request_of example_post ''|'']),
         example_backend2\<lparr>storage := (storage example_backend2)\<lparr>sql_count := 4\<rparr>\<rparr>)" for cr ch now now'
    by (simp add: list_requests_def on_storage_def storage_list_requests_def io_defs
        example_backend2_def example_backend_def ordered_requests_def)
  from listing_is_sorted_registry [OF this] show ?thesis by simp
qed

lemma migrate_column_present:
  assumes "schema (tables c) = Some cols" and "column \<in> set cols"
  shows "tables (snd (migrate_column column c)) = tables c"
  using assms
  by (auto simp: migrate_column_def sql_run_def add_column_def Let_def
      split: option.splits sum.splits prod.splits)

lemma migrate_column_absent:
  assumes "sql_healthy c" and "schema (tables c) = Some cols" and "column \<notin> set cols"
  shows "migrate_column column c = (Inr (), c\<lparr>sql_count := Suc (sql_count c),
      tables := (tables c)\<lparr>schema := Some (cols @ [column]),
        forwarding_requests := map (null_column column) (forwarding_requests (tables c))\<rparr>\<rparr>)"
  using assms
  by (simp add: migrate_column_def sql_run_def add_column_def Let_def sql_healthy_def
      split: unit.split)

lemma null_hook_columns:
  "null_column ''custom_hook_metadata'' (null_column ''custom_hook_id'' q)
   = q\<lparr>custom_hook_id := None, custom_hook_metadata := None\<rparr>"
  by (simp add: null_column_def)

lemma create_requests_table_exec:
  assumes "context_io msg (sql_exec create_requests_table) c = (r, c')"
    and "schema (tables c) = Some cols"
  shows "tables c' = tables c"
  using assms by (auto simp: io_defs create_requests_table_def split: option.splits)

text \<open>opening a database that already has the hook columns changes nothing in it, whatever
  the engine refuses; opening one from before them adds the two columns, empty in every
  row, and loses no request.\<close>

theorem migration_preserves_requests:
  assumes "schema (tables c) = Some cols"
    and "backend_storage_init c = (r, c')"
  shows "({''custom_hook_id'', ''custom_hook_metadata''} \<subseteq> set cols \<longrightarrow> tables c' = tables c)
    \<and> (sql_healthy c \<and> set cols \<inter> {''custom_hook_id'', ''custom_hook_metadata''} = {} \<longrightarrow>
        r = Inr () \<and> schema (tables c') = Some (cols @ [''custom_hook_id'', ''custom_hook_metadata''])
        \<and> forwarding_requests (tables c')
            = map (\<lambda>q. q\<lparr>custom_hook_id := None, custom_hook_metadata := None\<rparr>)
                (forwarding_requests (tables c)))"
proof (intro conjI impI)
  assume cols: "{''custom_hook_id'', ''custom_hook_metadata''} \<subseteq> set cols"
  obtain r1 c1 where 1: "context_io ''Failed to create forwarding_requests table''
      (sql_exec create_requests_table) c = (r1, c1)" by fastforce
  have t1: "tables c1 = tables c" using 1 assms(1) by (rule create_requests_table_exec)
  obtain r2 c2 where 2: "migrate_column ''custom_hook_id'' c1 = (r2, c2)" by fastforce
  with migrate_column_present [of c1 cols "''custom_hook_id''"] cols assms(1) t1
  have t2: "tables c2 = tables c" by simp
  obtain r3 c3 where 3: "migrate_column ''custom_hook_metadata'' c2 = (r3, c3)" by fastforce
  with migrate_column_present [of c2 cols "''custom_hook_metadata''"] cols assms(1) t2
  have t3: "tables c3 = tables c" by simp
  from assms(2) 1 2 3 t1 t2 t3 show "tables c' = tables c"
    by (auto simp: backend_storage_init_def bind_io_def return_io_def split: sum.splits)
next
  assume "sql_healthy c \<and> set cols \<inter> {''custom_hook_id'', ''custom_hook_metadata''} = {}"
  then have h: "sql_healthy c" and id: "''custom_hook_id'' \<notin> set cols"
    and meta: "''custom_hook_metadata'' \<notin> set (cols @ [''custom_hook_id''])"
    by simp_all
  obtain r1 c1 where 1: "context_io ''Failed to create forwarding_requests table''
      (sql_exec create_requests_table) c = (r1, c1)" by fastforce
  have t1: "tables c1 = tables c" using 1 assms(1) by (rule create_requests_table_exec)
  from 1 h have r1: "r1 = Inr ()" and h1: "sql_healthy c1"
    by (auto simp: context_io_def sql_exec_healthy)
  let ?t2 = "(tables c)\<lparr>schema := Some (cols @ [''custom_hook_id'']),
      forwarding_requests := map (null_column ''custom_hook_id'') (forwarding_requests (tables c))\<rparr>"
  obtain c2 where 2: "migrate_column ''custom_hook_id'' c1 = (Inr (), c2)"
    and t2: "tables c2 = ?t2" and h2: "sql_healthy c2"
    using migrate_column_absent [OF h1, of cols "''custom_hook_id''"] t1 assms(1) id h1 by simp
  obtain c3 where 3: "migrate_column ''custom_hook_metadata'' c2 = (Inr (), c3)"
    and t3: "tables c3 = ?t2\<lparr>schema := Some (cols @ [''custom_hook_id'', ''custom_hook_metadata'']),
      forwarding_requests := map (null_column ''custom_hook_metadata'') (forwarding_requests ?t2)\<rparr>"
    using migrate_column_absent [OF h2, of "cols @ [''custom_hook_id'']" "''custom_hook_metadata''"]
      t2 meta by simp
  from assms(2) 1 r1 2 3 have "r = Inr ()" "c' = c3"
    by (simp_all add: backend_storage_init_def bind_io_def return_io_def)
  with t3 have "r = Inr () \<and> tables c' = (tables c)\<lparr>
      schema := Some (cols @ [''custom_hook_id'', ''custom_hook_metadata'']),
      forwarding_requests := map (\<lambda>q. q\<lparr>custom_hook_id := None, custom_hook_metadata := None\<rparr>)
        (forwarding_requests (tables c))\<rparr>"
    by (simp add: null_hook_columns comp_def)
  then show "r = Inr ()" "schema (tables c') = Some (cols @ [''custom_hook_id'', ''custom_hook_metadata''])"
    "forwarding_requests (tables c')
            = map (\<lambda>q. q\<lparr>custom_hook_id := None, custom_hook_metadata := None\<rparr>)
                (forwarding_requests (tables c))"
    by simp_all
qed

definition old_database :: backend_storage where
  "old_database = \<lparr>tables = \<lparr>schema = Some (take 4 request_columns @ [''created_at'']),
     forwarding_requests = [request_of example_post ''|'']\<rparr>, sql_fault = (\<lambda>_. None), sql_count = 0\<rparr>"

theorem migration_preserves_requests_witness:
  "forwarding_requests (tables (snd (backend_storage_init old_database)))
     = [request_of example_post ''|'']"
proof -
  obtain r c' where init: "backend_storage_init old_database = (r, c')" by fastforce
  have "schema (tables old_database) = Some (take 4 request_columns @ [''created_at''])"
    by (simp add: old_database_def)
  from migration_preserves_requests [OF this init] init show ?thesis
    by (simp add: old_database_def sql_healthy_def request_columns_def request_of_def example_post_def)
qed

end
