(* ===== verification/Relayer.thy ===== *)
theory Relayer
  imports Client Retry_Store Backend
begin

text \<open>
  \<^verbatim>\<open>src/relayer.rs\<close>, lines 243-613 and 740-951: the relayer's shared state, its start on a
  retry database, and the forward of one address. Every clock reading is an argument;
  a lock-protected section is one step, and \<open>relayer_log\<close> is the trace of metrics.
\<close>

section \<open>State\<close>

record relayer_config =
  celestia_grpc :: string
  celestia_rpc :: string
  backend_url :: string
  private_key_hex :: string
  custom_igp_hook :: "string option"
  poll_interval :: u64
  maintenance_interval :: u64
  balance_poll_interval :: u64
  forward_concurrency :: nat
  block_scan_start_height :: "u64 option"
  block_confirmation_depth :: u64
  scan_timeout :: u64
  igp_fee_buffer :: f64
  max_request_age_seconds :: u64
  max_address_inactivity_seconds :: u64
  retry_state_db_path :: string
  metrics_port :: "u16 option"

text \<open>\<^verbatim>\<open>Instant\<close>, the monotonic clock, in nanoseconds.\<close>

type_synonym fee_cache = "(u32 \<times> string, f64 \<times> int) hmap"

record relayer_state =
  config :: relayer_config
  celestia :: celestia_client
  live :: "(string, forwarding_request) hmap"
  retry_states :: "(string, retry_state) hmap"
  last_activity :: "(string, int) hmap"
  fees :: fee_cache
  store :: retry_store
  relayer_log :: "metric list"

definition log_metric :: "metric \<Rightarrow> relayer_state \<Rightarrow> relayer_state" where
  "log_metric m s = s\<lparr>relayer_log := relayer_log s @ [m]\<rparr>"

definition FEE_CACHE_TTL :: int where
  "FEE_CACHE_TTL = 60 * 1000000000"

definition FORWARD_QUEUE_CAPACITY :: nat where
  "FORWARD_QUEUE_CAPACITY = 10000"

definition relayer_new ::
  "chrono \<Rightarrow> relayer_config \<Rightarrow> celestia_client result \<Rightarrow> retry_store result \<Rightarrow> relayer_state result" where
  "relayer_new ch conf client opened =
     (case client of
        Inl e \<Rightarrow> Inl e
      | Inr cl \<Rightarrow>
     (case opened of
        Inl e \<Rightarrow> Inl e
      | Inr c \<Rightarrow>
        let (loaded, c1) = load_retry_state ch c;
            rs = (case loaded of Inr m \<Rightarrow> m | Inl _ \<Rightarrow> []);
            (loaded', c2) = load_activity ch c1;
            la = (case loaded' of Inr m \<Rightarrow> m | Inl _ \<Rightarrow> [])
        in Inr \<lparr>config = conf, celestia = cl, live = [], retry_states = rs, last_activity = la,
                 fees = [], store = c2, relayer_log = []\<rparr>))"

section \<open>Helpers\<close>

definition balances_equal :: "balance list \<Rightarrow> balance list \<Rightarrow> bool" where
  "balances_equal a b =
     (if length a \<noteq> length b then False
      else sort_key fst (map (\<lambda>c. (denom c, amount c)) a)
         = sort_key fst (map (\<lambda>c. (denom c, amount c)) b))"

definition hook_binding_of :: "forwarding_request \<Rightarrow> relayer_config \<Rightarrow> hook_binding" where
  "hook_binding_of request conf =
     \<lparr>hook_id = (case custom_hook_id request of Some h \<Rightarrow> Some h | None \<Rightarrow> custom_igp_hook conf),
      metadata = custom_hook_metadata request\<rparr>"

definition parse_metric_amount :: "string \<Rightarrow> f64 option" where
  "parse_metric_amount value = f64_parse value"

section \<open>Operations on the shared state\<close>

definition record_activity :: "chrono \<Rightarrow> int \<Rightarrow> string \<Rightarrow> relayer_state \<Rightarrow> relayer_state" where
  "record_activity ch now addr s =
     (let (_, c) = upsert_activity ch addr now (store s)
      in s\<lparr>store := c, last_activity := hm_insert addr now (last_activity s)\<rparr>)"

definition clear_retry_state :: "string \<Rightarrow> relayer_state \<Rightarrow> relayer_state" where
  "clear_retry_state addr s =
     (let s1 = s\<lparr>retry_states := hm_remove addr (retry_states s)\<rparr>;
          (_, c) = remove_retry addr (store s1)
      in s1\<lparr>store := c\<rparr>)"

definition clear_activity :: "string \<Rightarrow> relayer_state \<Rightarrow> relayer_state" where
  "clear_activity addr s =
     (let s1 = s\<lparr>last_activity := hm_remove addr (last_activity s)\<rparr>;
          (_, c) = remove_activity addr (store s1)
      in s1\<lparr>store := c\<rparr>)"

definition next_failure :: "int \<Rightarrow> retry_state option \<Rightarrow> retry_state" where
  "next_failure now old =
     (let fs = (case old of None \<Rightarrow> 0 | Some st \<Rightarrow> failures st) + 1
      in \<lparr>failures = fs, next_attempt = now + int (retry_delay fs) * 1000000000\<rparr>)"

definition note_failure :: "chrono \<Rightarrow> int \<Rightarrow> string \<Rightarrow> relayer_state \<Rightarrow> relayer_state" where
  "note_failure ch now addr s =
     (let st = next_failure now (hm_get (retry_states s) addr);
          (_, c) = upsert ch addr st (store s)
      in s\<lparr>store := c, retry_states := hm_insert addr st (retry_states s)\<rparr>)"

section \<open>The fee cap\<close>

text \<open>The clock readings of one forward.\<close>

record forward_clock =
  checked_at :: int
  deposit_seen_at :: int
  fee_looked_up_at :: int
  fee_stored_at :: int
  finished_at :: int

definition with_client :: "'a client_io \<Rightarrow> relayer_state \<Rightarrow> 'a result \<times> relayer_state" where
  "with_client m s = (let (r, c) = m (celestia s) in (r, s\<lparr>celestia := c\<rparr>))"

definition cached_fee :: "int \<Rightarrow> forwarding_request \<Rightarrow> relayer_state \<Rightarrow> f64 option" where
  "cached_fee now request s =
     (case hm_get (fees s) (dest_domain request, token_id request) of
        Some (fee, stored) \<Rightarrow> if now - stored < FEE_CACHE_TTL then Some fee else None
      | None \<Rightarrow> None)"

definition fee_text :: "f64 \<Rightarrow> f64 \<Rightarrow> string" where
  "fee_text quote buffer = decimal (unat (f64_as_u64 (quote * buffer))) @ ''utia''"

definition quoted_fee ::
  "grpc_env \<Rightarrow> forward_clock \<Rightarrow> forwarding_request \<Rightarrow> string \<Rightarrow> relayer_state
     \<Rightarrow> f64 option \<times> relayer_state" where
  "quoted_fee env clk request label s =
     (case cached_fee (fee_looked_up_at clk) request s of
        Some fee \<Rightarrow> (Some fee, s)
      | None \<Rightarrow>
        (case with_client (query_igp_fee env (dest_domain request) (token_id request)
                (hook_binding_of request (config s))) s of
           (Inl _, s1) \<Rightarrow> (None, s1)
         | (Inr quote, s1) \<Rightarrow>
             let s2 = (case parse_metric_amount quote of
                         Some value \<Rightarrow> log_metric (Gauge ''igp_fee_quote_utia'' [(''dest_domain'', label)] value) s1
                       | None \<Rightarrow> s1)
             in (case f64_parse quote of
                   None \<Rightarrow> (None, s2)
                 | Some parsed \<Rightarrow>
                     (Some parsed, s2\<lparr>fees := hm_insert (dest_domain request, token_id request)
                        (parsed, fee_stored_at clk) (fees s2)\<rparr>))))"

definition resolve_max_igp_fee ::
  "grpc_env \<Rightarrow> forward_clock \<Rightarrow> forwarding_request \<Rightarrow> string \<Rightarrow> relayer_state
     \<Rightarrow> string option \<times> relayer_state" where
  "resolve_max_igp_fee env clk request label s =
     (case quoted_fee env clk request label s of
        (None, s1) \<Rightarrow> (None, s1)
      | (Some quote, s1) \<Rightarrow> (Some (fee_text quote (igp_fee_buffer (config s1))), s1))"

section \<open>The forward of one address\<close>

definition processed :: "string \<Rightarrow> string \<Rightarrow> relayer_state \<Rightarrow> relayer_state" where
  "processed status domain =
     log_metric (Counter ''forwarding_requests_processed_total''
       [(''status'', status), (''dest_domain'', domain)] 1)"

definition submission_counted :: "string \<Rightarrow> string \<Rightarrow> relayer_state \<Rightarrow> relayer_state" where
  "submission_counted status domain =
     log_metric (Counter ''forwarding_tx_submissions_total''
       [(''status'', status), (''dest_domain'', domain)] 1)"

definition in_backoff :: "int \<Rightarrow> string \<Rightarrow> relayer_state \<Rightarrow> bool" where
  "in_backoff now addr s =
     (case hm_get (retry_states s) addr of Some st \<Rightarrow> now < next_attempt st | None \<Rightarrow> False)"

definition submit_step ::
  "grpc_env \<Rightarrow> chrono \<Rightarrow> forward_clock \<Rightarrow> string \<Rightarrow> forwarding_request \<Rightarrow> string \<Rightarrow> string
     \<Rightarrow> relayer_state \<Rightarrow> relayer_state" where
  "submit_step env ch clk addr request label fee s =
     (case with_client (submit_forward env addr (dest_domain request) (dest_recipient request)
             (token_id request) fee (hook_binding_of request (config s))) s of
        (Inr tx_hash, s1) \<Rightarrow>
          record_activity ch (finished_at clk) addr
            (clear_retry_state addr
              (processed ''submitted'' label (submission_counted ''success'' label s1)))
      | (Inl e, s1) \<Rightarrow>
          note_failure ch (finished_at clk) addr
            (processed ''submit_failed'' label (submission_counted ''failure'' label s1)))"

definition forward_address ::
  "grpc_env \<Rightarrow> chrono \<Rightarrow> forward_clock \<Rightarrow> string \<Rightarrow> relayer_state \<Rightarrow> relayer_state" where
  "forward_address env ch clk addr s =
     (case hm_get (live s) addr of
        None \<Rightarrow> s
      | Some request \<Rightarrow>
          let label = decimal (unat (dest_domain request)) in
          if in_backoff (checked_at clk) addr s then processed ''backoff'' label s
          else
            (case with_client (query_balances env addr) s of
               (Inl _, s1) \<Rightarrow>
                 note_failure ch (finished_at clk) addr (processed ''query_failed'' label s1)
             | (Inr balances, s1) \<Rightarrow>
                 if balances = []
                 then clear_retry_state addr (processed ''empty_balance'' label s1)
                 else
                   let s2 = record_activity ch (deposit_seen_at clk) addr s1 in
                   (case resolve_max_igp_fee env clk request label s2 of
                      (None, s3) \<Rightarrow>
                        note_failure ch (finished_at clk) addr (processed ''fee_failed'' label s3)
                    | (Some fee, s3) \<Rightarrow> submit_step env ch clk addr request label fee s3)))"

definition refresh_signer_balance_metrics ::
  "grpc_env \<Rightarrow> relayer_state \<Rightarrow> unit result \<times> relayer_state" where
  "refresh_signer_balance_metrics env s =
     (case with_client (query_balances env (signer_address (celestia s))) s of
        (Inl e, s1) \<Rightarrow> (Inl e, s1)
      | (Inr balances, s1) \<Rightarrow>
          let utia_balance = (case Option.bind (List.find (\<lambda>b. denom b = ''utia'') balances)
                 (\<lambda>b. parse_metric_amount (amount b)) of Some v \<Rightarrow> v | None \<Rightarrow> f64_of_int 0)
          in (Inr (), log_metric (Gauge ''signer_balance'' [(''denom'', ''utia'')] utia_balance) s1))"

section \<open>What each operation leaves alone\<close>

named_theorems relayer_simps \<open>what each operation of the relayer leaves alone\<close>

lemma log_metric_frame [relayer_simps]:
  "config (log_metric m s) = config s" "celestia (log_metric m s) = celestia s"
  "live (log_metric m s) = live s" "retry_states (log_metric m s) = retry_states s"
  "last_activity (log_metric m s) = last_activity s" "fees (log_metric m s) = fees s"
  "store (log_metric m s) = store s" "relayer_log (log_metric m s) = relayer_log s @ [m]"
  by (simp_all add: log_metric_def)

lemma record_activity_frame [relayer_simps]:
  "config (record_activity ch t a s) = config s" "celestia (record_activity ch t a s) = celestia s"
  "live (record_activity ch t a s) = live s" "fees (record_activity ch t a s) = fees s"
  "retry_states (record_activity ch t a s) = retry_states s"
  "last_activity (record_activity ch t a s) = hm_insert a t (last_activity s)"
  "relayer_log (record_activity ch t a s) = relayer_log s"
  by (simp_all add: record_activity_def split: prod.splits)

lemma clear_retry_state_frame [relayer_simps]:
  "config (clear_retry_state a s) = config s" "celestia (clear_retry_state a s) = celestia s"
  "live (clear_retry_state a s) = live s" "fees (clear_retry_state a s) = fees s"
  "retry_states (clear_retry_state a s) = hm_remove a (retry_states s)"
  "last_activity (clear_retry_state a s) = last_activity s"
  "relayer_log (clear_retry_state a s) = relayer_log s"
  by (simp_all add: clear_retry_state_def Let_def split: prod.splits)

lemma clear_activity_frame [relayer_simps]:
  "config (clear_activity a s) = config s" "celestia (clear_activity a s) = celestia s"
  "live (clear_activity a s) = live s" "fees (clear_activity a s) = fees s"
  "retry_states (clear_activity a s) = retry_states s"
  "last_activity (clear_activity a s) = hm_remove a (last_activity s)"
  "relayer_log (clear_activity a s) = relayer_log s"
  by (simp_all add: clear_activity_def Let_def split: prod.splits)

lemma note_failure_frame [relayer_simps]:
  "config (note_failure ch t a s) = config s" "celestia (note_failure ch t a s) = celestia s"
  "live (note_failure ch t a s) = live s" "fees (note_failure ch t a s) = fees s"
  "retry_states (note_failure ch t a s)
     = hm_insert a (next_failure t (hm_get (retry_states s) a)) (retry_states s)"
  "last_activity (note_failure ch t a s) = last_activity s"
  "relayer_log (note_failure ch t a s) = relayer_log s"
  by (simp_all add: note_failure_def Let_def split: prod.splits)

text \<open>
  Steps that touch only the client's rotation, the fee cache and the other metrics.
\<close>

abbreviation processed_labels :: "relayer_state \<Rightarrow> string list" where
  "processed_labels s \<equiv> counted ''forwarding_requests_processed_total'' ''status'' (relayer_log s)"

definition quiet :: "relayer_state \<Rightarrow> relayer_state \<Rightarrow> bool" where
  "quiet s t \<longleftrightarrow> config t = config s \<and> live t = live s \<and> retry_states t = retry_states s
     \<and> last_activity t = last_activity s \<and> store t = store s
     \<and> same_endpoints (celestia s) (celestia t) \<and> client_ok (celestia t)
     \<and> submissions (celestia t) = submissions (celestia s)
     \<and> processed_labels t = processed_labels s"

lemma quiet_trans: "quiet s t \<Longrightarrow> quiet t u \<Longrightarrow> quiet s u"
  by (simp add: quiet_def same_endpoints_def)

lemma quiet_record_activity:
  "quiet s t \<Longrightarrow> quiet (record_activity ch now a s) (record_activity ch now a t)"
  by (simp add: quiet_def record_activity_def split: prod.splits)

lemma with_client_quiet:
  assumes "client_ok (celestia s)" and "with_client m s = (r, t)"
    and "\<And>c r c'. client_ok c \<Longrightarrow> m c = (r, c') \<Longrightarrow>
      client_ok c' \<and> same_endpoints c c' \<and> submissions c' = submissions c"
  shows "quiet s t"
proof -
  from assms(2) obtain c' where m: "m (celestia s) = (r, c')" and t: "t = s\<lparr>celestia := c'\<rparr>"
    by (auto simp: with_client_def split: prod.splits)
  from assms(3) [OF assms(1) m] show ?thesis by (simp add: quiet_def t)
qed

lemma query_balances_quiet:
  assumes "client_ok (celestia s)" and "with_client (query_balances env a) s = (r, t)"
  shows "quiet s t"
  using assms by (rule with_client_quiet) (rule query_balances_ok)

lemma quoted_fee_quiet:
  assumes "client_ok (celestia s)" and "quoted_fee env clk rq label s = (r, t)"
  shows "quiet s t"
proof (cases "cached_fee (fee_looked_up_at clk) rq s")
  case (Some fee)
  with assms show ?thesis by (auto simp: quoted_fee_def quiet_def)
next
  case None
  obtain q s1 where q: "with_client (query_igp_fee env (dest_domain rq) (token_id rq)
      (hook_binding_of rq (config s))) s = (q, s1)" by fastforce
  have s1: "quiet s s1"
    using assms(1) q
  proof (rule with_client_quiet)
    fix c r c'
    assume "client_ok c" "query_igp_fee env (dest_domain rq) (token_id rq)
      (hook_binding_of rq (config s)) c = (r, c')"
    from query_igp_fee_ok [OF this]
    show "client_ok c' \<and> same_endpoints c c' \<and> submissions c' = submissions c" by simp
  qed
  have log: "quiet s1 (log_metric (Gauge n ls v) s1)" for n ls v
    using s1 by (simp add: quiet_def relayer_simps same_endpoints_def)
  have fee: "quiet x (y\<lparr>fees := f\<rparr>) = quiet x y" for x y f
    by (simp add: quiet_def)
  show ?thesis
    using assms(2) None q s1 quiet_trans [OF s1 log]
    by (auto simp: quoted_fee_def Let_def fee split: sum.splits option.splits)
qed

lemma resolve_quiet:
  "client_ok (celestia s) \<Longrightarrow> resolve_max_igp_fee env clk rq label s = (r, t) \<Longrightarrow> quiet s t"
  by (auto simp: resolve_max_igp_fee_def split: prod.splits option.splits dest: quoted_fee_quiet)

text \<open>What a balance query tells the relayer about the node.\<close>

lemma query_balances_outcome:
  assumes "client_ok c" and "query_balances env a c = (r, c')"
  shows "case r of
      Inl e \<Rightarrow> \<forall>ep \<in> set (endpoints c). \<forall>coins. all_balances env ep a \<noteq> Reply coins
    | Inr bs \<Rightarrow> \<exists>ep \<in> set (endpoints c). \<exists>coins. all_balances env ep a = Reply coins
        \<and> bs = map (\<lambda>x. \<lparr>denom = coin_denom x, amount = coin_amount x\<rparr>) coins"
proof -
  let ?op = "\<lambda>ep. call_result ''Balance query timed out'' ''Failed to query balances via gRPC''
      (all_balances env ep a)"
  obtain r1 c1 where 1: "with_failover ''Balance query'' ?op c = (r1, c1)" by fastforce
  have op: "?op ep = Inr coins \<longleftrightarrow> all_balances env ep a = Reply coins" for ep coins
    by (auto simp: call_result_def split: call.splits)
  from assms(1) 1 show ?thesis
  proof (cases rule: with_failover_cases)
    case (served n coins)
    let ?ep = "endpoints c ! ((current c + n) mod length (endpoints c))"
    have mem: "?ep \<in> set (endpoints c)"
      using served(1) by (intro nth_mem) (auto intro: mod_less_divisor)
    have "all_balances env ?ep a = Reply coins" using served(3) op by blast
    moreover have "r = Inr (map (\<lambda>x. \<lparr>denom = coin_denom x, amount = coin_amount x\<rparr>) coins)"
      using served(2) assms(2) 1 by (simp add: query_balances_def)
    ultimately show ?thesis using mem by auto
  next
    case all_failed
    then have "all_balances env ep a \<noteq> Reply coins" if "ep \<in> set (endpoints c)" for ep coins
      using that op by (metis Inr_Inl_False)
    with all_failed(1) assms(2) 1 show ?thesis by (auto simp: query_balances_def)
  qed
qed

text \<open>The six ends of a forward.\<close>

lemma forward_address_cases:
  assumes ok: "client_ok (celestia s)"
  obtains (not_live) "hm_get (live s) addr = None" "forward_address env ch clk addr s = s"
  | (backoff) rq where "hm_get (live s) addr = Some rq" "in_backoff (checked_at clk) addr s"
      "forward_address env ch clk addr s
         = processed ''backoff'' (decimal (unat (dest_domain rq))) s"
  | (query_failed) rq t where "hm_get (live s) addr = Some rq" "\<not> in_backoff (checked_at clk) addr s"
      "quiet s t" "\<forall>ep \<in> set (endpoints (celestia s)). \<forall>coins. all_balances env ep addr \<noteq> Reply coins"
      "forward_address env ch clk addr s = note_failure ch (finished_at clk) addr
         (processed ''query_failed'' (decimal (unat (dest_domain rq))) t)"
  | (empty) rq t where "hm_get (live s) addr = Some rq" "\<not> in_backoff (checked_at clk) addr s"
      "quiet s t" "\<exists>ep \<in> set (endpoints (celestia s)). all_balances env ep addr = Reply []"
      "forward_address env ch clk addr s = clear_retry_state addr
         (processed ''empty_balance'' (decimal (unat (dest_domain rq))) t)"
  | (fee_failed) rq t where "hm_get (live s) addr = Some rq" "\<not> in_backoff (checked_at clk) addr s"
      "quiet (record_activity ch (deposit_seen_at clk) addr s) t"
      "forward_address env ch clk addr s = note_failure ch (finished_at clk) addr
         (processed ''fee_failed'' (decimal (unat (dest_domain rq))) t)"
  | (submits) rq fee t0 t where "hm_get (live s) addr = Some rq" "\<not> in_backoff (checked_at clk) addr s"
      "\<exists>ep \<in> set (endpoints (celestia s)). \<exists>coins \<noteq> []. all_balances env ep addr = Reply coins"
      "quiet (record_activity ch (deposit_seen_at clk) addr s) t0"
      "resolve_max_igp_fee env clk rq (decimal (unat (dest_domain rq))) t0 = (Some fee, t)"
      "quiet (record_activity ch (deposit_seen_at clk) addr s) t"
      "forward_address env ch clk addr s
         = submit_step env ch clk addr rq (decimal (unat (dest_domain rq))) fee t"
proof -
  show thesis
  proof (cases "hm_get (live s) addr")
    case None
    then show thesis by (intro not_live) (simp_all add: forward_address_def)
  next
    case (Some rq)
    note live = this
    let ?label = "decimal (unat (dest_domain rq))"
    show thesis
    proof (cases "in_backoff (checked_at clk) addr s")
      case True
      with live show thesis by (intro backoff) (simp_all add: forward_address_def)
    next
      case False
      obtain r t1 where 1: "with_client (query_balances env addr) s = (r, t1)" by fastforce
      have q1: "quiet s t1" using ok 1 by (rule query_balances_quiet)
      obtain c' where c': "query_balances env addr (celestia s) = (r, c')"
        using 1 by (auto simp: with_client_def split: prod.splits)
      from query_balances_outcome [OF ok c'] 1 live False q1 show thesis
      proof (cases r)
        case (Inl e)
        with query_balances_outcome [OF ok c'] 1 live False q1 show thesis
          by (intro query_failed) (simp_all add: forward_address_def)
      next
        case (Inr bs)
        show thesis
        proof (cases "bs = []")
          case True
          with Inr query_balances_outcome [OF ok c'] 1 live False q1 show thesis
            by (intro empty) (auto simp: forward_address_def)
        next
          case F: False
          let ?s2 = "record_activity ch (deposit_seen_at clk) addr t1"
          have q2: "quiet (record_activity ch (deposit_seen_at clk) addr s) ?s2"
            using q1 by (rule quiet_record_activity)
          obtain fee t where 2: "resolve_max_igp_fee env clk rq ?label ?s2 = (fee, t)" by fastforce
          have "client_ok (celestia ?s2)" using q2 by (simp add: quiet_def)
          then have q3: "quiet (record_activity ch (deposit_seen_at clk) addr s) t"
            using resolve_quiet [OF _ 2] q2 quiet_trans by blast
          have eq: "forward_address env ch clk addr s = (case fee of
              None \<Rightarrow> note_failure ch (finished_at clk) addr (processed ''fee_failed'' ?label t)
            | Some fee \<Rightarrow> submit_step env ch clk addr rq ?label fee t)"
            using Inr F 1 2 live False by (simp add: forward_address_def Let_def split: option.splits)
          show thesis
          proof (cases fee)
            case None
            with fee_failed [OF live False q3] eq show thesis by simp
          next
            case (Some f)
            from Inr F query_balances_outcome [OF ok c']
            have "\<exists>ep \<in> set (endpoints (celestia s)). \<exists>coins \<noteq> []. all_balances env ep addr = Reply coins"
              by auto
            with submits [OF live False _ q2 _ q3] eq 2 Some show thesis by simp
          qed
        qed
      qed
    qed
  qed
qed

section \<open>Memory and store\<close>

text \<open>
  The contract of the durable store: what a restarted relayer would load is what the
  running one holds in memory.
\<close>

definition clock_ok :: "int \<Rightarrow> bool" where
  "clock_ok t \<longleftrightarrow> 0 \<le> t \<and> t + 3600 * 1000000000 < 253402300800 * 1000000000"

definition stored_retry :: "chrono \<Rightarrow> retry_tables \<Rightarrow> string \<Rightarrow> retry_state option" where
  "stored_retry ch t a = Option.bind (tbl_get rr_forward_addr (retry_state_tbl t) a) (decode_retry_row ch)"

definition stored_activity :: "chrono \<Rightarrow> retry_tables \<Rightarrow> string \<Rightarrow> int option" where
  "stored_activity ch t a =
     Option.bind (tbl_get ar_forward_addr (address_activity_tbl t) a) (decode_activity_row ch)"

definition mirrored :: "chrono \<Rightarrow> relayer_state \<Rightarrow> bool" where
  "mirrored ch s \<longleftrightarrow> sql_healthy (store s) \<and> store_wf (tables (store s))
     \<and> hm_wf (retry_states s) \<and> hm_wf (last_activity s)
     \<and> stored_retry ch (tables (store s)) = map_of (retry_states s)
     \<and> stored_activity ch (tables (store s)) = map_of (last_activity s)"

lemma mirrored_frame [simp]:
  "mirrored ch (log_metric m s) = mirrored ch s"
  "mirrored ch (s\<lparr>celestia := c\<rparr>) = mirrored ch s"
  "mirrored ch (s\<lparr>fees := f\<rparr>) = mirrored ch s"
  "mirrored ch (s\<lparr>live := l\<rparr>) = mirrored ch s"
  by (simp_all add: mirrored_def relayer_simps)

lemma mirrored_quiet: "quiet s t \<Longrightarrow> mirrored ch t = mirrored ch s"
  by (simp add: mirrored_def quiet_def)

lemma retry_delay_le: "int (retry_delay f) \<le> 3600"
proof -
  have "retry_delay f \<le> 3600" by (subst retry_delay_cases) simp
  then show ?thesis by simp
qed

lemma next_failure_in_range: "clock_ok now \<Longrightarrow> rfc3339_range (next_attempt (next_failure now old))"
proof -
  assume now: "clock_ok now"
  have "int (retry_delay f) * 1000000000 \<le> 3600 * 1000000000" for f
    by (rule mult_right_mono [OF retry_delay_le]) simp
  then have "int (retry_delay (failures (next_failure now old))) * 1000000000 \<le> 3600 * 1000000000"
    "0 \<le> int (retry_delay (failures (next_failure now old))) * 1000000000"
    by simp_all
  moreover have "next_attempt (next_failure now old)
      = now + int (retry_delay (failures (next_failure now old))) * 1000000000"
    by (simp add: next_failure_def Let_def)
  ultimately show ?thesis
    using now unfolding clock_ok_def rfc3339_range_def by linarith
qed

lemma mirrored_record_activity:
  assumes "mirrored ch s" and "chrono_roundtrip ch" and "clock_ok now"
  shows "mirrored ch (record_activity ch now a s)"
proof -
  let ?row = "\<lparr>ar_forward_addr = a, ar_last_activity_at = to_rfc3339 ch now\<rparr>"
  have now: "rfc3339_range now" using assms(3) by (simp add: clock_ok_def rfc3339_range_def)
  have st: "store (record_activity ch now a s) = (store s)\<lparr>tables :=
      (tables (store s))\<lparr>address_activity_tbl :=
        tbl_replace ar_forward_addr ?row (address_activity_tbl (tables (store s)))\<rparr>,
      sql_count := Suc (sql_count (store s))\<rparr>"
    using assms(1)
    by (simp add: record_activity_def upsert_activity_def context_io_def sql_exec_healthy mirrored_def)
  show ?thesis
    using assms(1) decode_activity [OF assms(2) now, of a]
    by (auto simp: mirrored_def st relayer_simps store_wf_def stored_retry_def stored_activity_def
        tbl_simps fun_eq_iff update_conv' distinct_update)
qed

lemma mirrored_clear_retry_state:
  assumes "mirrored ch s"
  shows "mirrored ch (clear_retry_state a s)"
proof -
  have st: "store (clear_retry_state a s) = (store s)\<lparr>tables :=
      (tables (store s))\<lparr>retry_state_tbl :=
        tbl_delete rr_forward_addr a (retry_state_tbl (tables (store s)))\<rparr>,
      sql_count := Suc (sql_count (store s))\<rparr>"
    using assms
    by (simp add: clear_retry_state_def remove_retry_def context_io_def sql_exec_healthy mirrored_def)
  show ?thesis
    using assms
    by (auto simp: mirrored_def st relayer_simps store_wf_def stored_retry_def stored_activity_def
        tbl_simps fun_eq_iff delete_conv' distinct_delete)
qed

lemma mirrored_clear_activity:
  assumes "mirrored ch s"
  shows "mirrored ch (clear_activity a s)"
proof -
  have st: "store (clear_activity a s) = (store s)\<lparr>tables :=
      (tables (store s))\<lparr>address_activity_tbl :=
        tbl_delete ar_forward_addr a (address_activity_tbl (tables (store s)))\<rparr>,
      sql_count := Suc (sql_count (store s))\<rparr>"
    using assms
    by (simp add: clear_activity_def remove_activity_def context_io_def sql_exec_healthy mirrored_def)
  show ?thesis
    using assms
    by (auto simp: mirrored_def st relayer_simps store_wf_def stored_retry_def stored_activity_def
        tbl_simps fun_eq_iff delete_conv' distinct_delete)
qed

lemma mirrored_note_failure:
  assumes "mirrored ch s" and "chrono_roundtrip ch" and "clock_ok now"
  shows "mirrored ch (note_failure ch now a s)"
proof -
  let ?st = "next_failure now (hm_get (retry_states s) a)"
  let ?row = "encode_retry_state ch a ?st"
  have st: "store (note_failure ch now a s) = (store s)\<lparr>tables :=
      (tables (store s))\<lparr>retry_state_tbl :=
        tbl_replace rr_forward_addr ?row (retry_state_tbl (tables (store s)))\<rparr>,
      sql_count := Suc (sql_count (store s))\<rparr>"
    using assms(1)
    by (simp add: note_failure_def upsert_def context_io_def sql_exec_healthy mirrored_def Let_def)
  have row: "rr_forward_addr ?row = a" by (simp add: encode_retry_state_def)
  show ?thesis
    using assms(1) row decode_encode_retry_state [OF assms(2) next_failure_in_range [OF assms(3)], of a]
    by (auto simp: mirrored_def st relayer_simps store_wf_def stored_retry_def stored_activity_def
        tbl_simps fun_eq_iff update_conv' distinct_update)
qed

lemmas mirrored_ops =
  mirrored_record_activity mirrored_clear_retry_state mirrored_clear_activity mirrored_note_failure

lemma mirrored_submit_step:
  assumes "mirrored ch s" and "chrono_roundtrip ch" and "clock_ok (finished_at clk)"
  shows "mirrored ch (submit_step env ch clk addr rq label fee s)"
  using assms
  by (auto simp: submit_step_def with_client_def processed_def submission_counted_def
      intro!: mirrored_ops split: prod.splits sum.splits)

lemma mirrored_forward:
  assumes "mirrored ch s" and "chrono_roundtrip ch" and "client_ok (celestia s)"
    and "clock_ok (deposit_seen_at clk)" and "clock_ok (finished_at clk)"
  shows "mirrored ch (forward_address env ch clk addr s)"
  using assms(3)
proof (cases rule: forward_address_cases [of s addr env ch clk])
  case (fee_failed rq t)
  with assms show ?thesis
    by (auto simp: processed_def mirrored_quiet intro!: mirrored_ops)
next
  case (submits rq fee t0 t)
  with assms show ?thesis
    by (auto simp: mirrored_quiet intro!: mirrored_ops mirrored_submit_step)
qed (use assms in \<open>auto simp: processed_def mirrored_quiet intro!: mirrored_ops\<close>)

section \<open>Properties of a forward\<close>

lemma submit_step_cases:
  assumes ok: "client_ok (celestia s)"
  obtains (accepted) c where "submit_step env ch clk addr rq label fee s
       = record_activity ch (finished_at clk) addr (clear_retry_state addr
           (processed ''submitted'' label (submission_counted ''success'' label (s\<lparr>celestia := c\<rparr>))))"
      "client_ok c" "same_endpoints (celestia s) c"
      "submissions c = submissions (celestia s) @ [(ge_url (endpoints (celestia s) ! current (celestia s)),
         forward_message (signer_address (celestia s)) addr (dest_domain rq) (dest_recipient rq)
           (token_id rq) fee (hook_binding_of rq (config s)))]"
  | (rejected) c where "submit_step env ch clk addr rq label fee s
       = note_failure ch (finished_at clk) addr
           (processed ''submit_failed'' label (submission_counted ''failure'' label (s\<lparr>celestia := c\<rparr>)))"
      "client_ok c" "same_endpoints (celestia s) c"
      "submissions c = submissions (celestia s) @ [(ge_url (endpoints (celestia s) ! current (celestia s)),
         forward_message (signer_address (celestia s)) addr (dest_domain rq) (dest_recipient rq)
           (token_id rq) fee (hook_binding_of rq (config s)))]"
proof -
  obtain r c where rc: "submit_forward env addr (dest_domain rq) (dest_recipient rq) (token_id rq) fee
      (hook_binding_of rq (config s)) (celestia s) = (r, c)" by fastforce
  from ok rc show thesis
  proof (cases rule: submit_forward_cases)
    case (accepted tx)
    with rc that(1) show thesis by (simp add: submit_step_def with_client_def)
  next
    case (rejected e)
    with rc that(2) show thesis by (simp add: submit_step_def with_client_def)
  qed
qed

text \<open>The three ways a forward leaves the backoff state of its address.\<close>

definition backoff_after ::
  "string \<Rightarrow> string \<Rightarrow> int \<Rightarrow> (string \<Rightarrow> retry_state option) \<Rightarrow> (string \<Rightarrow> retry_state option)" where
  "backoff_after status addr now m =
     (if status = ''backoff'' then m
      else if status \<in> {''submitted'', ''empty_balance''} then m(addr := None)
      else m(addr \<mapsto> next_failure now (m addr)))"

text \<open>C27: every forward of a live address counts exactly one outcome, and the outcome says what
  happened: it is "backoff" exactly inside the waiting window, and then nothing else
  changed; "submitted" and "empty_balance" clear the backoff of the address and the
  failures advance it; one message was submitted for "submitted" and "submit_failed", none
  otherwise. No other address is affected. An address that is not live is left alone.\<close>

theorem forward_counts_once:
  assumes "client_ok (celestia s)" and s': "forward_address env ch clk addr s = s'"
  shows "case hm_get (live s) addr of
      None \<Rightarrow> s' = s
    | Some rq \<Rightarrow> (\<exists>status \<in> {''backoff'', ''query_failed'', ''empty_balance'', ''fee_failed'',
          ''submitted'', ''submit_failed''}.
        processed_labels s' = processed_labels s @ [status]
        \<and> (status = ''backoff'' \<longleftrightarrow> in_backoff (checked_at clk) addr s)
        \<and> map_of (retry_states s')
            = backoff_after status addr (finished_at clk) (map_of (retry_states s))
        \<and> length (submissions (celestia s')) = length (submissions (celestia s))
            + (if status \<in> {''submitted'', ''submit_failed''} then 1 else 0))"
  using assms(1)
proof (cases rule: forward_address_cases [of s addr env ch clk])
  case not_live
  then show ?thesis by (simp add: s' [symmetric])
next
  case (backoff rq)
  then show ?thesis
    by (simp add: s' [symmetric] processed_def relayer_simps backoff_after_def)
next
  case (query_failed rq t)
  then show ?thesis
    by (simp add: s' [symmetric] processed_def relayer_simps backoff_after_def quiet_def update_conv')
next
  case (empty rq t)
  then show ?thesis
    by (simp add: s' [symmetric] processed_def relayer_simps backoff_after_def quiet_def delete_conv')
next
  case (fee_failed rq t)
  then show ?thesis
    by (simp add: s' [symmetric] processed_def relayer_simps backoff_after_def quiet_def update_conv')
next
  case (submits rq fee t0 t)
  then have t: "client_ok (celestia t)" by (simp add: quiet_def)
  then show ?thesis
  proof (cases rule: submit_step_cases [of t env ch clk addr rq "decimal (unat (dest_domain rq))" fee])
    case (accepted c)
    with submits show ?thesis
      by (simp add: s' [symmetric] processed_def submission_counted_def relayer_simps backoff_after_def
          quiet_def delete_conv')
  next
    case (rejected c)
    with submits show ?thesis
      by (simp add: s' [symmetric] processed_def submission_counted_def relayer_simps backoff_after_def
          quiet_def update_conv')
  qed
qed

lemma fee_coin_fee_text:
  "fee_coin (fee_text q b) = \<lparr>coin_denom = ''utia'', coin_amount = decimal (unat (f64_as_u64 (q * b)))\<rparr>"
  by (simp add: fee_text_def fee_coin_decimal)

lemma resolve_fee_text:
  "resolve_max_igp_fee env clk rq label s = (Some fee, t) \<Longrightarrow>
     \<exists>q. fee = fee_text q (igp_fee_buffer (config t))"
  by (auto simp: resolve_max_igp_fee_def split: prod.splits option.splits)

lemma forward_submission:
  assumes "client_ok (celestia s)"
    and "submissions (celestia (forward_address env ch clk addr s))
      = submissions (celestia s) @ [(url, msg)]"
  shows "\<exists>rq q. hm_get (live s) addr = Some rq \<and> \<not> in_backoff (checked_at clk) addr s
    \<and> (\<exists>ep \<in> set (endpoints (celestia s)). \<exists>coins \<noteq> []. all_balances env ep addr = Reply coins)
    \<and> msg = \<lparr>mf_signer = signer_address (celestia s), mf_forward_addr = addr,
        mf_dest_domain = dest_domain rq, mf_dest_recipient = dest_recipient rq,
        mf_token_id = token_id rq,
        mf_max_igp_fee = Some \<lparr>coin_denom = ''utia'',
          coin_amount = decimal (unat (f64_as_u64 (q * igp_fee_buffer (config s))))\<rparr>,
        mf_custom_hook_id = unwrap_or_default (hook_id (hook_binding_of rq (config s))),
        mf_custom_hook_metadata = unwrap_or_default (custom_hook_metadata rq)\<rparr>"
  using assms(1)
proof (cases rule: forward_address_cases [of s addr env ch clk])
  case (submits rq fee t0 t)
  let ?fwd = "forward_message (signer_address (celestia t)) addr (dest_domain rq) (dest_recipient rq)
      (token_id rq) fee (hook_binding_of rq (config t))"
  from submits have t: "client_ok (celestia t)" "config t = config s"
    "signer_address (celestia t) = signer_address (celestia s)"
    "submissions (celestia t) = submissions (celestia s)"
    by (simp_all add: quiet_def relayer_simps same_endpoints_def)
  obtain q where fee: "fee = fee_text q (igp_fee_buffer (config t))"
    using resolve_fee_text [OF submits(5)] by blast
  have "msg = ?fwd"
    using t(1)
  proof (cases rule: submit_step_cases [of t env ch clk addr rq "decimal (unat (dest_domain rq))" fee])
    case (accepted c)
    with submits(7) assms(2) t(4) show ?thesis
      by (simp add: processed_def submission_counted_def relayer_simps)
  next
    case (rejected c)
    with submits(7) assms(2) t(4) show ?thesis
      by (simp add: processed_def submission_counted_def relayer_simps)
  qed
  with submits(1-3) t fee show ?thesis
    by (auto simp: forward_message_def fee_coin_fee_text hook_binding_of_def)
qed (use assms(2) in \<open>auto simp: processed_def relayer_simps quiet_def\<close>)

lemma forward_frame:
  assumes "client_ok (celestia s)"
  shows "config (forward_address env ch clk addr s) = config s
    \<and> live (forward_address env ch clk addr s) = live s
    \<and> (\<exists>new. submissions (celestia (forward_address env ch clk addr s))
          = submissions (celestia s) @ new \<and> length new \<le> 1)"
  using assms
proof (cases rule: forward_address_cases [of s addr env ch clk])
  case (submits rq fee t0 t)
  then have t: "client_ok (celestia t)" "config t = config s" "live t = live s"
    "submissions (celestia t) = submissions (celestia s)"
    by (simp_all add: quiet_def relayer_simps)
  from t(1) show ?thesis
    by (cases rule: submit_step_cases [of t env ch clk addr rq "decimal (unat (dest_domain rq))" fee])
      (simp_all add: submits(7) t processed_def submission_counted_def relayer_simps)
qed (simp_all add: processed_def relayer_simps quiet_def)

text \<open>C28: what a forward submits is the registered request of the address: its domain,
  recipient and token, the hook binding chosen for it, and a fee cap in \<open>utia\<close> that is some
  quote times the configured buffer; and it is submitted only for a live address outside
  its backoff window whose balance some endpoint reported as not empty.\<close>

theorem forward_submits_request:
  assumes "client_ok (celestia s)"
    and "submissions (celestia (forward_address env ch clk addr s))
      = submissions (celestia s) @ [(url, msg)]"
  shows "\<exists>rq q. hm_get (live s) addr = Some rq \<and> \<not> in_backoff (checked_at clk) addr s
    \<and> (\<exists>ep \<in> set (endpoints (celestia s)). \<exists>coins \<noteq> []. all_balances env ep addr = Reply coins)
    \<and> msg = \<lparr>mf_signer = signer_address (celestia s), mf_forward_addr = addr,
        mf_dest_domain = dest_domain rq, mf_dest_recipient = dest_recipient rq,
        mf_token_id = token_id rq,
        mf_max_igp_fee = Some \<lparr>coin_denom = ''utia'',
          coin_amount = decimal (unat (f64_as_u64 (q * igp_fee_buffer (config s))))\<rparr>,
        mf_custom_hook_id = unwrap_or_default (hook_id (hook_binding_of rq (config s))),
        mf_custom_hook_metadata = unwrap_or_default (custom_hook_metadata rq)\<rparr>"
  using assms by (rule forward_submission)

section \<open>Examples\<close>

definition example_config :: relayer_config where
  "example_config = \<lparr>celestia_grpc = ''http://a,http://b,http://c'', celestia_rpc = ''http://a:26657'',
     backend_url = ''http://localhost:8080'', private_key_hex = ''00ff'', custom_igp_hook = None,
     poll_interval = 6, maintenance_interval = 30, balance_poll_interval = 3600,
     forward_concurrency = 64, block_scan_start_height = None, block_confirmation_depth = 2,
     scan_timeout = 1800, igp_fee_buffer = Finite 4953959590107546 (- 52),
     max_request_age_seconds = 86400, max_address_inactivity_seconds = 604800,
     retry_state_db_path = ''storage/relayer-retry.db'', metrics_port = None\<rparr>"

definition example_request :: "string \<Rightarrow> forwarding_request" where
  "example_request a = \<lparr>forward_addr = a, dest_domain = 7, dest_recipient = example_recipient,
     token_id = example_token, custom_hook_id = None, custom_hook_metadata = None, created_at = ''|''\<rparr>"

text \<open>Two addresses, the first with two failures behind it and due at instant 2.\<close>

definition example_relayer :: relayer_state where
  "example_relayer = \<lparr>config = example_config, celestia = example_client,
     live = [(''a'', example_request ''a''), (''b'', example_request ''b'')],
     retry_states = [(''a'', \<lparr>failures = 2, next_attempt = 2\<rparr>)],
     last_activity = [(''a'', 1), (''b'', 2)], fees = [], store = example_store, relayer_log = []\<rparr>"

definition example_clock :: "int \<Rightarrow> forward_clock" where
  "example_clock t = \<lparr>checked_at = t, deposit_seen_at = t, fee_looked_up_at = t, fee_stored_at = t,
     finished_at = t\<rparr>"

lemma example_buffer: "f64_parse ''1.1'' = Some (igp_fee_buffer example_config)"
  by code_simp

lemma example_relayer_client: "client_ok (celestia example_relayer)"
  by (simp add: example_relayer_def example_client_ok)

lemma example_forward:
  "processed_labels (forward_address example_grpc tally_chrono (example_clock 3) ''a'' example_relayer)
     = [''submitted'']"
  "processed_labels (forward_address example_grpc tally_chrono (example_clock 1) ''a'' example_relayer)
     = [''backoff'']"
  "map fst (submissions (celestia
     (forward_address example_grpc tally_chrono (example_clock 3) ''a'' example_relayer)))
     = [''http://a'']"
  by code_simp+

theorem forward_counts_once_witness:
  "map_of (retry_states (forward_address example_grpc tally_chrono (example_clock 3) ''a'' example_relayer))
     ''a'' = None"
proof -
  let ?s' = "forward_address example_grpc tally_chrono (example_clock 3) ''a'' example_relayer"
  have live: "hm_get (live example_relayer) ''a'' = Some (example_request ''a'')"
    and log: "processed_labels example_relayer = []"
    by (simp_all add: example_relayer_def)
  from forward_counts_once [OF example_relayer_client refl, of example_grpc tally_chrono "example_clock 3" "''a''"]
  obtain status where "processed_labels ?s' = [status]"
    "map_of (retry_states ?s') = backoff_after status ''a'' 3 (map_of (retry_states example_relayer))"
    by (auto simp: live log example_clock_def)
  with example_forward(1) show ?thesis by (simp add: backoff_after_def)
qed

theorem forward_submits_request_witness:
  "\<exists>msg. submissions (celestia
       (forward_address example_grpc tally_chrono (example_clock 3) ''a'' example_relayer))
     = [(''http://a'', msg)] \<and> mf_forward_addr msg = ''a'' \<and> mf_dest_recipient msg = example_recipient"
proof -
  let ?s' = "forward_address example_grpc tally_chrono (example_clock 3) ''a'' example_relayer"
  obtain msg where msg: "submissions (celestia ?s') = [(''http://a'', msg)]"
    using example_forward(3) by auto
  then have "submissions (celestia ?s') = submissions (celestia example_relayer) @ [(''http://a'', msg)]"
    by (simp add: example_relayer_def example_client_def)
  from forward_submits_request [OF example_relayer_client this] msg show ?thesis
    by (auto simp: example_relayer_def example_request_def)
qed

section \<open>Properties of the fee cap\<close>

lemma cached_after_quote:
  assumes "cached_fee (fee_looked_up_at clk) rq s = None"
    and "quoted_fee env clk rq label s = (Some q, t)"
    and "dest_domain rq' = dest_domain rq" and "token_id rq' = token_id rq"
    and "now - fee_stored_at clk < FEE_CACHE_TTL"
  shows "cached_fee now rq' t = Some q"
  using assms
  by (auto simp: quoted_fee_def Let_def cached_fee_def update_conv'
      split: prod.splits sum.splits option.splits if_splits)

text \<open>a quote is reused for a minute by every request with the same destination and token,
  also by one routed through another hook: the node is not asked again, whatever it would
  answer now, and the fee cap is the buffered quote of the first request's hook.\<close>

theorem fee_cache_ignores_hook:
  assumes "cached_fee (fee_looked_up_at clk) rq s = None"
    and "quoted_fee env clk rq label s = (Some q, t)"
    and "dest_domain rq' = dest_domain rq" and "token_id rq' = token_id rq"
    and "fee_looked_up_at clk' - fee_stored_at clk < FEE_CACHE_TTL"
  shows "resolve_max_igp_fee env' clk' rq' label' t = (Some (fee_text q (igp_fee_buffer (config t))), t)"
  using cached_after_quote [OF assms]
  by (simp add: resolve_max_igp_fee_def quoted_fee_def)

text \<open>The node asks a dear fee for the default hook and a cheap one for the hook \<^verbatim>\<open>c3\<close>.\<close>

definition hook_priced_grpc :: grpc_env where
  "hook_priced_grpc = example_grpc\<lparr>quote_forwarding_fee := (\<lambda>ep q. Reply (Some
     \<lparr>coin_denom = ''utia'', coin_amount = if qr_custom_hook_id q = [] then ''1000'' else ''10''\<rparr>))\<rparr>"

theorem fee_cache_ignores_hook_witness:
  "fst (resolve_max_igp_fee hook_priced_grpc (example_clock 4)
     (example_request ''b''\<lparr>custom_hook_id := Some example_hook\<rparr>) ''7''
     (snd (resolve_max_igp_fee hook_priced_grpc (example_clock 3) (example_request ''a'') ''7'' example_relayer)))
   = Some ''1100utia''
   \<and> fst (resolve_max_igp_fee hook_priced_grpc (example_clock 4)
     (example_request ''b''\<lparr>custom_hook_id := Some example_hook\<rparr>) ''7'' example_relayer)
   = Some ''11utia''"
proof
  show "fst (resolve_max_igp_fee hook_priced_grpc (example_clock 4)
     (example_request ''b''\<lparr>custom_hook_id := Some example_hook\<rparr>) ''7'' example_relayer)
   = Some ''11utia''"
    by code_simp
  obtain q t where q: "quoted_fee hook_priced_grpc (example_clock 3) (example_request ''a'') ''7''
      example_relayer = (q, t)" by fastforce
  have none: "cached_fee (fee_looked_up_at (example_clock 3)) (example_request ''a'') example_relayer = None"
    by (simp add: cached_fee_def example_relayer_def)
  have "fst (resolve_max_igp_fee hook_priced_grpc (example_clock 3) (example_request ''a'') ''7''
      example_relayer) = Some ''1100utia''"
    by code_simp
  then obtain v where v: "q = Some v" "fee_text v (igp_fee_buffer (config t)) = ''1100utia''"
    and t: "snd (resolve_max_igp_fee hook_priced_grpc (example_clock 3) (example_request ''a'') ''7''
      example_relayer) = t"
    by (auto simp: resolve_max_igp_fee_def q split: option.splits)
  from v q have q': "quoted_fee hook_priced_grpc (example_clock 3) (example_request ''a'') ''7''
      example_relayer = (Some v, t)" by simp
  show "fst (resolve_max_igp_fee hook_priced_grpc (example_clock 4)
     (example_request ''b''\<lparr>custom_hook_id := Some example_hook\<rparr>) ''7''
     (snd (resolve_max_igp_fee hook_priced_grpc (example_clock 3) (example_request ''a'') ''7'' example_relayer)))
   = Some ''1100utia''"
    using fee_cache_ignores_hook [OF none q', of "example_request ''b''\<lparr>custom_hook_id := Some example_hook\<rparr>"
        "example_clock 4" hook_priced_grpc "''7''"] v
    unfolding t by (simp add: example_request_def example_clock_def FEE_CACHE_TTL_def)
qed

definition at_least_one :: "f64 \<Rightarrow> bool" where
  "at_least_one x = (case x of Finite m e \<Rightarrow> 1 \<le> scaled m e | _ \<Rightarrow> False)"

text \<open>C30: with a buffer of at least one the fee cap covers the quote, for every quote below
  \<open>2 ^ 53\<close>: neither the multiplication in floating point nor the truncation to an integer
  loses a unit of it.\<close>

theorem fee_cap_covers_quote:
  assumes "cached_fee (fee_looked_up_at clk) rq s = None"
    and "query_igp_fee env (dest_domain rq) (token_id rq) (hook_binding_of rq (config s)) (celestia s)
      = (Inr (decimal n), c')"
    and "n < 2 ^ 53" and "at_least_one (igp_fee_buffer (config s))"
  shows "\<exists>m t. resolve_max_igp_fee env clk rq label s = (Some (decimal m @ ''utia''), t) \<and> n \<le> m"
proof -
  obtain mb eb where b: "igp_fee_buffer (config s) = Finite mb eb" "1 \<le> scaled mb eb"
    using assms(4) by (auto simp: at_least_one_def split: f64.splits)
  let ?x = "f64_of_int (int n) * Finite mb eb"
  have "int n < 2 ^ 53"
    using assms(3) by (metis of_nat_less_iff of_nat_numeral of_nat_power)
  then have "int n \<le> f64_trunc ?x" by (intro f64_mult_ge) (simp_all add: b)
  then have le: "n \<le> unat (f64_as_u64 ?x)"
    by (simp add: uint_f64_as_u64 [symmetric]) (metis nat_int nat_mono unat_eq_nat_uint)
  have "\<exists>t. quoted_fee env clk rq label s = (Some (f64_of_int (int n)), t) \<and> config t = config s"
    using assms(1,2)
    by (simp add: quoted_fee_def with_client_def parse_metric_amount_def f64_parse_decimal relayer_simps Let_def)
  then obtain t where "quoted_fee env clk rq label s = (Some (f64_of_int (int n)), t)" "config t = config s"
    by blast
  then have "resolve_max_igp_fee env clk rq label s = (Some (decimal (unat (f64_as_u64 ?x)) @ ''utia''), t)"
    by (simp add: resolve_max_igp_fee_def fee_text_def b)
  with le show ?thesis by blast
qed

theorem fee_cap_covers_quote_witness:
  "\<exists>m t. resolve_max_igp_fee hook_priced_grpc (example_clock 3) (example_request ''a'') ''7'' example_relayer
     = (Some (decimal m @ ''utia''), t) \<and> 1000 \<le> m"
proof (rule fee_cap_covers_quote)
  show "cached_fee (fee_looked_up_at (example_clock 3)) (example_request ''a'') example_relayer = None"
    by (simp add: cached_fee_def example_relayer_def)
  have "fst (query_igp_fee hook_priced_grpc 7 example_token \<lparr>hook_id = None, metadata = None\<rparr> example_client)
      = Inr (decimal 1000)"
    by code_simp
  moreover have "hook_binding_of (example_request ''a'') (config example_relayer)
      = \<lparr>hook_id = None, metadata = None\<rparr>"
    by (simp add: hook_binding_of_def example_request_def example_relayer_def example_config_def)
  ultimately show "query_igp_fee hook_priced_grpc (dest_domain (example_request ''a''))
      (token_id (example_request ''a'')) (hook_binding_of (example_request ''a'') (config example_relayer))
      (celestia example_relayer)
    = (Inr (decimal 1000), snd (query_igp_fee hook_priced_grpc 7 example_token
        \<lparr>hook_id = None, metadata = None\<rparr> example_client))"
    by (simp add: prod_eq_iff) (simp add: example_request_def example_relayer_def)
  show "at_least_one (igp_fee_buffer (config example_relayer))" by code_simp
qed simp

text \<open>C31: when no endpoint quotes a fee, the forward does not back off: it submits a fee cap of
  zero, and so does every forward to that destination and token in the following minute,
  also once the nodes quote again.\<close>

theorem fee_outage_submits_zero:
  assumes "client_ok (celestia s)" and "cached_fee (fee_looked_up_at clk) rq s = None"
    and "\<forall>ep \<in> set (endpoints (celestia s)). \<forall>q. quote_forwarding_fee env ep
      (quote_request_of (dest_domain rq) (token_id rq) (hook_binding_of rq (config s))) \<noteq> Reply q"
    and "igp_fee_buffer (config s) = Finite mb eb"
  shows "\<exists>t. resolve_max_igp_fee env clk rq label s = (Some ''0utia'', t)
    \<and> (\<forall>env' clk' rq' label'. dest_domain rq' = dest_domain rq \<longrightarrow> token_id rq' = token_id rq \<longrightarrow>
        fee_looked_up_at clk' - fee_stored_at clk < FEE_CACHE_TTL \<longrightarrow>
        resolve_max_igp_fee env' clk' rq' label' t = (Some ''0utia'', t))"
proof -
  have zero: "decimal 0 = ''0''" by code_simp
  have zfee: "fee_text (f64_of_int 0) (Finite mb eb) = ''0utia''"
    by (simp add: fee_text_def f64_of_int_def round_ratio_def f64_as_u64_def zero)
  have parse: "f64_parse ''0'' = Some (f64_of_int 0)"
    using f64_parse_decimal [of 0] by (simp add: zero)
  have "query_igp_fee env (dest_domain rq) (token_id rq) (hook_binding_of rq (config s)) (celestia s)
      = (Inr ''0'', celestia s)"
    using query_igp_fee_all_fail [OF assms(1,3)] .
  then have "\<exists>t. quoted_fee env clk rq label s = (Some (f64_of_int 0), t) \<and> config t = config s"
    using assms(2)
    by (simp add: quoted_fee_def with_client_def parse_metric_amount_def parse relayer_simps Let_def)
  then obtain t where t: "quoted_fee env clk rq label s = (Some (f64_of_int 0), t)" "config t = config s"
    by blast
  then have "resolve_max_igp_fee env clk rq label s = (Some ''0utia'', t)"
    by (simp add: resolve_max_igp_fee_def assms(4) zfee)
  moreover have "resolve_max_igp_fee env' clk' rq' label' t = (Some ''0utia'', t)"
    if "dest_domain rq' = dest_domain rq" "token_id rq' = token_id rq"
      "fee_looked_up_at clk' - fee_stored_at clk < FEE_CACHE_TTL" for env' clk' rq' label'
    using cached_after_quote [OF assms(2) t(1) that] t(2)
    by (simp add: resolve_max_igp_fee_def quoted_fee_def assms(4) zfee)
  ultimately show ?thesis by blast
qed

theorem fee_outage_submits_zero_witness:
  "fst (resolve_max_igp_fee example_grpc (example_clock 3) (example_request ''a'') ''7'' example_relayer)
   = Some ''0utia''"
proof -
  have "igp_fee_buffer (config example_relayer) = Finite 4953959590107546 (- 52)"
    by (simp add: example_relayer_def example_config_def)
  from fee_outage_submits_zero [OF example_relayer_client _ _ this, of "example_clock 3"
      "example_request ''a''" example_grpc "''7''"]
  show ?thesis
    by (auto simp: cached_fee_def example_grpc_def) (auto simp: example_relayer_def)
qed

end
