(* ===== verification/Maintenance.thy ===== *)
theory Maintenance
  imports Relayer
begin

text \<open>
  \<^verbatim>\<open>src/relayer.rs\<close>, lines 504-552, 953-1126 and 1128-1183: the periodic work. A tick refreshes the live list from the backend, retires
  expired addresses, prunes the state kept for the others and lists the addresses to
  trigger; a balance poll triggers every live address. The backend is any state \<open>'b\<close>
  behind the two HTTP calls of \<open>backend_link\<close>; \<open>None\<close> is a call without a response.
\<close>

section \<open>Retirement\<close>

datatype retire_reason = Unfunded int | Inactive int

fun retire_label :: "retire_reason \<Rightarrow> string" where
  "retire_label (Unfunded _) = ''unfunded''"
| "retire_label (Inactive _) = ''inactive''"

fun retire_detail :: "retire_reason \<Rightarrow> string" where
  "retire_detail (Unfunded age) = ''age='' @ decimal (nat age) @ ''s (never funded)''"
| "retire_detail (Inactive idle) = ''idle='' @ decimal (nat idle) @ ''s''"

text \<open>\<^verbatim>\<open>as i64\<close> reinterprets the unsigned thresholds as signed.\<close>

definition retirement_reason ::
  "chrono \<Rightarrow> string \<Rightarrow> int option \<Rightarrow> int \<Rightarrow> u64 \<Rightarrow> u64 \<Rightarrow> retire_reason option" where
  "retirement_reason ch created last_act now max_request_age max_address_inactivity =
     (case last_act of
        None \<Rightarrow>
          (case parse_from_rfc3339 ch created of
             None \<Rightarrow> None
           | Some c \<Rightarrow>
               let age = max (num_seconds (now - c)) 0
               in if sint max_request_age < age then Some (Unfunded age) else None)
      | Some l \<Rightarrow>
          let idle = max (num_seconds (now - l)) 0
          in if sint max_address_inactivity < idle then Some (Inactive idle) else None)"

section \<open>The backend as the relayer calls it\<close>

record 'b backend_link =
  http_get :: "'b \<Rightarrow> response option \<times> 'b"
  http_delete :: "string \<Rightarrow> 'b \<Rightarrow> response option \<times> 'b"

definition is_success :: "nat \<Rightarrow> bool" where
  "is_success code \<longleftrightarrow> 200 \<le> code \<and> code < 300"

text \<open>The message of a refused listing is cut to the status code.\<close>

definition fetch_forwarding_requests :: "response option \<Rightarrow> forwarding_request list result" where
  "fetch_forwarding_requests reply =
     (case reply of
        None \<Rightarrow> Inl ''Failed to fetch forwarding requests from backend''
      | Some (code, body) \<Rightarrow>
          if \<not> is_success code then Inl (''Backend returned error: '' @ decimal code)
          else (case body of RequestsBody rs \<Rightarrow> Inr rs
                | _ \<Rightarrow> Inl ''Failed to parse forwarding requests''))"

definition complete_request_call :: "string \<Rightarrow> response option \<Rightarrow> unit result" where
  "complete_request_call addr reply =
     (case reply of
        None \<Rightarrow> Inl (''Failed to complete request for '' @ addr)
      | Some _ \<Rightarrow> Inr ())"

section \<open>A maintenance tick\<close>

definition retirements ::
  "chrono \<Rightarrow> relayer_config \<Rightarrow> int \<Rightarrow> (string, int) hmap \<Rightarrow> forwarding_request list
     \<Rightarrow> (forwarding_request \<times> retire_reason) list" where
  "retirements ch conf now activity requests =
     List.map_filter (\<lambda>req. map_option (\<lambda>reason. (req, reason))
       (retirement_reason ch (created_at req) (hm_get activity (forward_addr req)) now
          (max_request_age_seconds conf) (max_address_inactivity_seconds conf))) requests"

definition kept_map ::
  "(forwarding_request \<times> retire_reason) list \<Rightarrow> forwarding_request list
     \<Rightarrow> (string, forwarding_request) hmap" where
  "kept_map to_retire requests =
     (let retired = map (\<lambda>(req, _). forward_addr req) to_retire
      in hm_collect (map (\<lambda>req. (forward_addr req, req))
           (filter (\<lambda>req. forward_addr req \<notin> set retired) requests)))"

definition retire_one ::
  "'b backend_link \<Rightarrow> forwarding_request \<times> retire_reason \<Rightarrow> relayer_state \<times> 'b
     \<Rightarrow> relayer_state \<times> 'b" where
  "retire_one link rr sb =
     (let (req, reason) = rr; (s, b) = sb; addr = forward_addr req;
          s1 = log_metric (Counter ''relayer_addresses_retired_total''
                 [(''reason'', retire_label reason)] 1) s;
          s2 = clear_activity addr (clear_retry_state addr s1);
          (reply, b') = http_delete link addr b;
          outcome = complete_request_call addr reply
      in (case outcome of Inl _ \<Rightarrow> (s2, b') | Inr _ \<Rightarrow> (s2, b')))"

definition prune_to :: "string list \<Rightarrow> relayer_state \<Rightarrow> relayer_state" where
  "prune_to keep s =
     (let s1 = s\<lparr>retry_states := hm_retain (\<lambda>a. a \<in> set keep) (retry_states s)\<rparr>;
          s2 = s1\<lparr>last_activity := hm_retain (\<lambda>a. a \<in> set keep) (last_activity s1)\<rparr>;
          (_, c) = retain_store keep (store s2)
      in s2\<lparr>store := c\<rparr>)"

definition due_retries :: "int \<Rightarrow> relayer_state \<Rightarrow> string list" where
  "due_retries now s = map fst (filter (\<lambda>(_, st). next_attempt st \<le> now) (retry_states s))"

definition count_gauge :: "string \<Rightarrow> nat \<Rightarrow> metric" where
  "count_gauge name n = Gauge name [] (f64_of_int (int n))"

text \<open>The result is the list of addresses sent to the forward queue, in order.\<close>

definition maintenance_tick ::
  "'b backend_link \<Rightarrow> chrono \<Rightarrow> int \<Rightarrow> relayer_state \<times> 'b
     \<Rightarrow> string list \<times> relayer_state \<times> 'b" where
  "maintenance_tick link ch now sb =
     (let (s, b) = sb; (reply, b1) = http_get link b in
      case fetch_forwarding_requests reply of
        Inl _ \<Rightarrow>
          ([], log_metric (Counter ''backend_request_fetch_total'' [(''status'', ''failure'')] 1) s, b1)
      | Inr requests \<Rightarrow>
          let s1 = log_metric (count_gauge ''forwarding_requests_fetched'' (length requests))
                     (log_metric (Counter ''backend_request_fetch_total'' [(''status'', ''success'')] 1) s);
              to_retire = retirements ch (config s1) now (last_activity s1) requests;
              kept = kept_map to_retire requests;
              newly_added = filter (\<lambda>a. \<not> hm_contains (live s1) a) (hm_keys kept);
              (s2, b2) = fold (retire_one link) to_retire (s1, b1);
              s3 = prune_to (hm_keys kept) s2;
              s4 = (log_metric (count_gauge ''relayer_live_addresses'' (length kept)) s3)\<lparr>live := kept\<rparr>
          in (newly_added @ due_retries now s4, s4, b2))"

section \<open>The balance poll\<close>

definition balance_poll_sweep :: "relayer_state \<Rightarrow> string list \<times> relayer_state" where
  "balance_poll_sweep s =
     (let addrs = hm_keys (live s)
      in (addrs, log_metric (count_gauge ''relayer_balance_poll_addresses'' (length addrs))
            (log_metric (Counter ''relayer_balance_poll_sweeps_total'' [] 1) s)))"

section \<open>Retirement over time\<close>

lemma num_seconds_mono: "a \<le> b \<Longrightarrow> num_seconds a \<le> num_seconds b"
proof -
  have *: "num_seconds x = (if 0 \<le> x then x div 1000000000 else - ((- x) div 1000000000))" for x
    by (auto simp: num_seconds_def sgn_if)
  assume "a \<le> b"
  then have "0 \<le> a \<Longrightarrow> a div 1000000000 \<le> b div 1000000000"
    "b < 0 \<Longrightarrow> (- b) div 1000000000 \<le> (- a) div 1000000000"
    by (auto intro: zdiv_mono1)
  moreover have "0 \<le> (- a) div 1000000000" if "a < 0" using that by (simp add: pos_imp_zdiv_nonneg_iff)
  moreover have "0 \<le> b div 1000000000" if "0 \<le> b" using that by (simp add: pos_imp_zdiv_nonneg_iff)
  ultimately show ?thesis using \<open>a \<le> b\<close> by (smt (verit) *)
qed

lemma num_seconds_le: "0 \<le> n \<Longrightarrow> x \<le> n * 1000000000 \<Longrightarrow> num_seconds x \<le> n"
  using num_seconds_mono [of x "n * 1000000000"] by (simp add: num_seconds_def sgn_if abs_mult split: if_splits)

text \<open>retirement only depends on time passing: an address once due stays due until it sees
  activity, and an address is never retired within its inactivity limit of its last
  activity. (Limits below \<open>2 ^ 63\<close> seconds; see the next property.)\<close>

theorem retirement_monotone:
  assumes "retirement_reason ch created act now a b \<noteq> None" and "now \<le> now'"
  shows "retirement_reason ch created act now' a b \<noteq> None
    \<and> (unat b < 2 ^ 63 \<and> last' \<le> now' \<and> now' - last' \<le> int (unat b) * 1000000000 \<longrightarrow>
        retirement_reason ch created (Some last') now' a b = None)"
proof (intro conjI impI)
  have m: "num_seconds (now - x) \<le> num_seconds (now' - x)" for x
    using assms(2) by (intro num_seconds_mono) simp
  have *: "z < max (num_seconds (now - x)) 0 \<Longrightarrow> z < max (num_seconds (now' - x)) 0" for x z
    using m [of x] by (auto simp: less_max_iff_disj)
  show "retirement_reason ch created act now' a b \<noteq> None"
    using assms(1) *
    by (auto simp: retirement_reason_def Let_def split: option.splits if_splits)
next
  assume h: "unat b < 2 ^ 63 \<and> last' \<le> now' \<and> now' - last' \<le> int (unat b) * 1000000000"
  then have "num_seconds (now' - last') \<le> int (unat b)" by (intro num_seconds_le) simp_all
  with h show "retirement_reason ch created (Some last') now' a b = None"
    by (simp add: retirement_reason_def sint_small Let_def not_less)
qed

theorem retirement_monotone_witness:
  "retirement_reason tally_chrono ''||'' None (100 * 1000000000) 86400 604800 = None
   \<and> retirement_reason tally_chrono ''||'' None (90000 * 1000000000) 86400 604800 \<noteq> None
   \<and> retirement_reason tally_chrono ''||'' (Some (89000 * 1000000000)) (90000 * 1000000000) 86400 604800 = None"
proof (intro conjI)
  show "retirement_reason tally_chrono ''||'' None (100 * 1000000000) 86400 604800 = None"
    by (simp add: retirement_reason_def tally_chrono_def num_seconds_def)
  have 1: "retirement_reason tally_chrono ''||'' None (90000 * 1000000000) 86400 604800 \<noteq> None"
    by (simp add: retirement_reason_def tally_chrono_def num_seconds_def)
  from retirement_monotone [OF 1 order_refl, of "89000 * 1000000000"]
  show "retirement_reason tally_chrono ''||'' None (90000 * 1000000000) 86400 604800 \<noteq> None"
    "retirement_reason tally_chrono ''||'' (Some (89000 * 1000000000)) (90000 * 1000000000) 86400 604800 = None"
    by simp_all
qed

text \<open>the thresholds are unsigned but compared as signed numbers: a limit of \<open>2 ^ 63\<close> seconds
  or more, meant as "never", retires every address at once.\<close>

theorem huge_limit_retires_everything:
  assumes "\<not> unat a < 2 ^ 63" and "\<not> unat b < 2 ^ 63"
    and "parse_from_rfc3339 ch created = Some c"
  shows "retirement_reason ch created act now a b \<noteq> None"
  using assms sint_large [of a] sint_large [of b]
  by (auto simp: retirement_reason_def Let_def less_max_iff_disj split: option.splits)

theorem huge_limit_retires_everything_witness:
  "retirement_reason tally_chrono ''||'' None 2 18446744073709551615 18446744073709551615 \<noteq> None"
proof (rule huge_limit_retires_everything)
  show "\<not> unat (18446744073709551615 :: u64) < 2 ^ 63" "\<not> unat (18446744073709551615 :: u64) < 2 ^ 63"
    by simp_all
  show "parse_from_rfc3339 tally_chrono ''||'' = Some 2" by (simp add: tally_chrono_def)
qed

section \<open>What a tick does to the state\<close>

lemma retire_one_frame [relayer_simps]:
  "config (fst (retire_one link rr (s, b))) = config s"
  "celestia (fst (retire_one link rr (s, b))) = celestia s"
  "live (fst (retire_one link rr (s, b))) = live s"
  "retry_states (fst (retire_one link rr (s, b))) = hm_remove (forward_addr (fst rr)) (retry_states s)"
  "last_activity (fst (retire_one link rr (s, b))) = hm_remove (forward_addr (fst rr)) (last_activity s)"
  by (simp_all add: retire_one_def Let_def relayer_simps split: prod.splits sum.splits)

lemma retire_one_backend:
  "snd (retire_one link rr (s, b)) = snd (http_delete link (forward_addr (fst rr)) b)"
  by (simp add: retire_one_def Let_def split: prod.splits sum.splits)

lemma mirrored_retire_one:
  "mirrored ch s \<Longrightarrow> mirrored ch (fst (retire_one link rr (s, b)))"
  by (auto simp: retire_one_def Let_def intro!: mirrored_ops split: prod.splits sum.splits)

lemma retire_all:
  "fold (retire_one link) rrs (s, b) = (s', b') \<Longrightarrow>
     config s' = config s \<and> celestia s' = celestia s \<and> live s' = live s
     \<and> (\<forall>a. map_of (retry_states s') a
          = (if a \<in> (forward_addr \<circ> fst) ` set rrs then None else map_of (retry_states s) a))
     \<and> (\<forall>a. map_of (last_activity s') a
          = (if a \<in> (forward_addr \<circ> fst) ` set rrs then None else map_of (last_activity s) a))
     \<and> b' = fold (\<lambda>a b. snd (http_delete link a b)) (map (forward_addr \<circ> fst) rrs) b
     \<and> (mirrored ch s \<longrightarrow> mirrored ch s')"
proof (induction rrs arbitrary: s b)
  case (Cons rr rrs)
  obtain s1 b1 where 1: "retire_one link rr (s, b) = (s1, b1)" by fastforce
  with Cons.prems have "fold (retire_one link) rrs (s1, b1) = (s', b')" by simp
  note IH = Cons.IH [OF this]
  from 1 retire_one_frame [of link rr s b] retire_one_backend [of link rr s b]
  have f: "config s1 = config s" "celestia s1 = celestia s" "live s1 = live s"
    "retry_states s1 = hm_remove (forward_addr (fst rr)) (retry_states s)"
    "last_activity s1 = hm_remove (forward_addr (fst rr)) (last_activity s)"
    "b1 = snd (http_delete link (forward_addr (fst rr)) b)"
    by simp_all
  moreover have "mirrored ch s \<Longrightarrow> mirrored ch s1"
    using mirrored_retire_one [of ch s link rr b] 1 by simp
  ultimately show ?case using IH by (auto simp: delete_conv')
qed simp

lemma for_each_exec_healthy:
  "sql_healthy c \<Longrightarrow>
     \<exists>c'. for_each (\<lambda>x. if x \<in> A then return_io () else sql_exec (delete x)) xs c = (Inr (), c')
       \<and> sql_healthy c'"
proof (induction xs arbitrary: c)
  case (Cons x xs)
  show ?case
  proof (cases "x \<in> A")
    case True
    with Cons show ?thesis by (simp add: bind_io_def return_io_def)
  next
    case False
    let ?c1 = "c\<lparr>tables := delete x (tables c), sql_count := Suc (sql_count c)\<rparr>"
    from Cons.prems have "sql_healthy ?c1" by simp
    from Cons.IH [OF this] False Cons.prems show ?thesis
      by (simp add: bind_io_def sql_exec_healthy)
  qed
qed (simp add: return_io_def)

lemma retain_table_healthy:
  "sql_healthy c \<Longrightarrow> \<exists>c'. retain_table addrs_of delete keep c = (Inr (), c') \<and> sql_healthy c'"
  using for_each_exec_healthy [of "c\<lparr>sql_count := Suc (Suc (sql_count c))\<rparr>" "set keep" delete
      "addrs_of (tables c)"]
  by (simp add: retain_table_def bind_io_def sql_query_healthy)

lemma retain_store_healthy:
  assumes "sql_healthy c"
  obtains c' where "retain_store keep c = (Inr (), c')" "sql_healthy c'"
    "retry_state_tbl (tables c') = fold (tbl_delete rr_forward_addr)
       (filter (\<lambda>a. a \<notin> set keep) (map rr_forward_addr (retry_state_tbl (tables c)))) (retry_state_tbl (tables c))"
    "address_activity_tbl (tables c') = fold (tbl_delete ar_forward_addr)
       (filter (\<lambda>a. a \<notin> set keep) (map ar_forward_addr (address_activity_tbl (tables c))))
       (address_activity_tbl (tables c))"
proof -
  let ?del1 = "\<lambda>addr t. t\<lparr>retry_state_tbl := tbl_delete rr_forward_addr addr (retry_state_tbl t)\<rparr>"
  let ?del2 = "\<lambda>addr t. t\<lparr>address_activity_tbl := tbl_delete ar_forward_addr addr (address_activity_tbl t)\<rparr>"
  obtain c1 where 1: "retain_table (\<lambda>t. map rr_forward_addr (retry_state_tbl t)) ?del1 keep c = (Inr (), c1)"
    and h1: "sql_healthy c1"
    using retain_table_healthy [OF assms] by blast
  obtain c2 where 2: "retain_table (\<lambda>t. map ar_forward_addr (address_activity_tbl t)) ?del2 keep c1 = (Inr (), c2)"
    and h2: "sql_healthy c2"
    using retain_table_healthy [OF h1] by blast
  have "retain_store keep c = (Inr (), c2)" using 1 2 by (simp add: retain_store_def bind_io_def)
  from that [OF this h2] show thesis
    by (simp add: retain_table_Inr [OF 2] retain_table_Inr [OF 1] fold_delete_fields)
qed

lemma tbl_wf_delete_all: "tbl_wf key t \<Longrightarrow> tbl_wf key (fold (tbl_delete key) ks t)"
  by (induction ks arbitrary: t) auto

lemma prune_to_frame [relayer_simps]:
  "config (prune_to keep s) = config s" "celestia (prune_to keep s) = celestia s"
  "live (prune_to keep s) = live s"
  "retry_states (prune_to keep s) = hm_retain (\<lambda>a. a \<in> set keep) (retry_states s)"
  "last_activity (prune_to keep s) = hm_retain (\<lambda>a. a \<in> set keep) (last_activity s)"
  by (simp_all add: prune_to_def Let_def split: prod.splits)

lemma mirrored_prune_to:
  assumes "mirrored ch s"
  shows "mirrored ch (prune_to keep s)"
proof -
  from assms have "sql_healthy (store s)" by (simp add: mirrored_def)
  then obtain c' where c': "retain_store keep (store s) = (Inr (), c')" "sql_healthy c'"
    "retry_state_tbl (tables c') = fold (tbl_delete rr_forward_addr)
       (filter (\<lambda>a. a \<notin> set keep) (map rr_forward_addr (retry_state_tbl (tables (store s)))))
       (retry_state_tbl (tables (store s)))"
    "address_activity_tbl (tables c') = fold (tbl_delete ar_forward_addr)
       (filter (\<lambda>a. a \<notin> set keep) (map ar_forward_addr (address_activity_tbl (tables (store s)))))
       (address_activity_tbl (tables (store s)))"
    by (rule retain_store_healthy)
  have st: "store (prune_to keep s) = c'" using c'(1) by (simp add: prune_to_def Let_def)
  from assms have retry: "stored_retry ch (tables (store s)) = map_of (retry_states s)"
    and act: "stored_activity ch (tables (store s)) = map_of (last_activity s)"
    by (simp_all add: mirrored_def)
  have "stored_retry ch (tables c') = map_of (hm_retain (\<lambda>a. a \<in> set keep) (retry_states s))"
    by (rule ext) (simp add: stored_retry_def c' tbl_get_prune retry [symmetric])
  moreover have "stored_activity ch (tables c') = map_of (hm_retain (\<lambda>a. a \<in> set keep) (last_activity s))"
    by (rule ext) (simp add: stored_activity_def c' tbl_get_prune act [symmetric])
  ultimately show ?thesis
    using assms c' by (simp add: mirrored_def st relayer_simps store_wf_def tbl_wf_delete_all)
qed

text \<open>A tick whose listing failed only counts the failure; one that got a listing:\<close>

lemma kept_map_keys:
  "set (hm_keys (kept_map rrs reqs))
     = {forward_addr r | r. r \<in> set reqs \<and> forward_addr r \<notin> (forward_addr \<circ> fst) ` set rrs}"
proof -
  have *: "fst ` set (hm_collect ps) = fst ` set ps" for ps :: "(string \<times> forwarding_request) list"
  proof -
    have "fst ` set (fold (\<lambda>(k, v). AList.update k v) ps m) = fst ` set ps \<union> fst ` set m"
      for m :: "(string \<times> forwarding_request) list"
    proof (induction ps arbitrary: m)
      case (Cons p ps)
      then show ?case by (cases p) (simp add: dom_update)
    qed simp
    then show ?thesis by (simp add: hm_collect_def)
  qed
  have "fst ` (\<lambda>req. (forward_addr req, req)) ` A = forward_addr ` A" for A
    by force
  then show ?thesis
    by (auto simp: kept_map_def Let_def hm_keys_def * image_iff split_beta)
qed

lemma retirements_mem:
  "(req, reason) \<in> set (retirements ch conf now activity reqs) \<longleftrightarrow>
     req \<in> set reqs \<and> retirement_reason ch (created_at req) (map_of activity (forward_addr req)) now
       (max_request_age_seconds conf) (max_address_inactivity_seconds conf) = Some reason"
  by (force simp: retirements_def map_filter_def)

lemma maintenance_tick_cases:
  assumes "maintenance_tick link ch now (s, b) = (sent, s', b')"
  obtains (failed) e where "fetch_forwarding_requests (fst (http_get link b)) = Inl e"
      "sent = []" "s' = log_metric (Counter ''backend_request_fetch_total'' [(''status'', ''failure'')] 1) s"
      "b' = snd (http_get link b)"
  | (refreshed) requests rrs s2 where
      "fetch_forwarding_requests (fst (http_get link b)) = Inr requests"
      "rrs = retirements ch (config s) now (last_activity s) requests"
      "live s' = kept_map rrs requests"
      "config s' = config s" "celestia s' = celestia s"
      "fold (retire_one link) rrs
         (log_metric (count_gauge ''forwarding_requests_fetched'' (length requests))
            (log_metric (Counter ''backend_request_fetch_total'' [(''status'', ''success'')] 1) s),
          snd (http_get link b)) = (s2, b')"
      "retry_states s' = hm_retain (\<lambda>a. a \<in> set (hm_keys (live s'))) (retry_states s2)"
      "last_activity s' = hm_retain (\<lambda>a. a \<in> set (hm_keys (live s'))) (last_activity s2)"
      "sent = filter (\<lambda>a. \<not> hm_contains (live s) a) (hm_keys (live s')) @ due_retries now s'"
      "mirrored ch s \<Longrightarrow> mirrored ch s'"
proof -
  obtain reply b1 where g: "http_get link b = (reply, b1)" by fastforce
  show thesis
  proof (cases "fetch_forwarding_requests reply")
    case (Inl e)
    with assms g show thesis by (intro failed) (auto simp: maintenance_tick_def)
  next
    case (Inr requests)
    let ?s1 = "log_metric (count_gauge ''forwarding_requests_fetched'' (length requests))
        (log_metric (Counter ''backend_request_fetch_total'' [(''status'', ''success'')] 1) s)"
    let ?rrs = "retirements ch (config s) now (last_activity s) requests"
    obtain s2 b2 where 2: "fold (retire_one link) ?rrs (?s1, b1) = (s2, b2)" by fastforce
    note r = retire_all [OF 2]
    from r have m: "mirrored ch s \<Longrightarrow> mirrored ch s2" by (simp add: relayer_simps)
    from assms g Inr 2 r have
      s': "s' = (log_metric (count_gauge ''relayer_live_addresses'' (length (kept_map ?rrs requests)))
             (prune_to (hm_keys (kept_map ?rrs requests)) s2))\<lparr>live := kept_map ?rrs requests\<rparr>" and
      sent: "sent = filter (\<lambda>a. \<not> hm_contains (live s) a) (hm_keys (kept_map ?rrs requests))
             @ due_retries now s'" and
      b': "b' = b2"
      by (auto simp: maintenance_tick_def Let_def relayer_simps)
    show thesis
    proof (rule refreshed)
      show "mirrored ch s'" if "mirrored ch s"
        using m [OF that] mirrored_prune_to by (simp add: s')
    qed (use r g Inr 2 sent b' in \<open>simp_all add: s' relayer_simps\<close>)
  qed
qed

section \<open>Properties of a tick\<close>

lemma retired_addrs:
  "(forward_addr \<circ> fst) ` set (retirements ch conf now activity reqs)
   = {forward_addr q | q. q \<in> set reqs \<and>
      retirement_reason ch (created_at q) (map_of activity (forward_addr q)) now
        (max_request_age_seconds conf) (max_address_inactivity_seconds conf) \<noteq> None}"
  (is "?l = ?r")
proof (intro set_eqI iffI)
  fix a assume "a \<in> ?l"
  then obtain q reason where "(q, reason) \<in> set (retirements ch conf now activity reqs)"
    "a = forward_addr q" by auto
  then show "a \<in> ?r" by (auto simp: retirements_mem)
next
  fix a assume "a \<in> ?r"
  then obtain q reason where a: "a = forward_addr q" and
    "(q, reason) \<in> set (retirements ch conf now activity reqs)"
    by (auto simp: retirements_mem)
  from this(2) show "a \<in> ?l" unfolding a by (rule rev_image_eqI) simp
qed


text \<open>A backend that is a fixed listing with every deletion accepted.\<close>

definition listing_link :: "forwarding_request list backend_link" where
  "listing_link = \<lparr>http_get = (\<lambda>rs. (Some (200, RequestsBody rs), rs)),
     http_delete = (\<lambda>a rs. (Some (204, NoBody), filter (\<lambda>r. forward_addr r \<noteq> a) rs))\<rparr>"


section \<open>Running and restarting\<close>

datatype relayer_event =
    Forward grpc_env forward_clock string
  | Tick int
  | Poll
  | SignerBalance grpc_env

fun relayer_step ::
  "'b backend_link \<Rightarrow> chrono \<Rightarrow> relayer_event \<Rightarrow> relayer_state \<times> 'b \<Rightarrow> relayer_state \<times> 'b" where
  "relayer_step link ch (Forward env clk addr) (s, b) = (forward_address env ch clk addr s, b)"
| "relayer_step link ch (Tick now) (s, b) = snd (maintenance_tick link ch now (s, b))"
| "relayer_step link ch Poll (s, b) = (snd (balance_poll_sweep s), b)"
| "relayer_step link ch (SignerBalance env) (s, b) = (snd (refresh_signer_balance_metrics env s), b)"

fun event_clock_ok :: "relayer_event \<Rightarrow> bool" where
  "event_clock_ok (Forward env clk addr) \<longleftrightarrow>
     clock_ok (deposit_seen_at clk) \<and> clock_ok (finished_at clk)"
| "event_clock_ok _ \<longleftrightarrow> True"

definition relayer_ok :: "chrono \<Rightarrow> relayer_state \<Rightarrow> bool" where
  "relayer_ok ch s \<longleftrightarrow> mirrored ch s \<and> client_ok (celestia s)"

lemma client_ok_forward:
  assumes "client_ok (celestia s)"
  shows "client_ok (celestia (forward_address env ch clk addr s))"
  using assms
proof (cases rule: forward_address_cases [of s addr env ch clk])
  case (submits rq fee t0 t)
  then have t: "client_ok (celestia t)" by (simp add: quiet_def)
  then show ?thesis
    by (cases rule: submit_step_cases [of t env ch clk addr rq "decimal (unat (dest_domain rq))" fee])
      (simp_all add: submits(7) processed_def submission_counted_def relayer_simps)
qed (use assms in \<open>simp_all add: processed_def relayer_simps quiet_def\<close>)

lemma relayer_ok_step:
  assumes "relayer_ok ch s" and "chrono_roundtrip ch" and "event_clock_ok ev"
  shows "relayer_ok ch (fst (relayer_step link ch ev (s, b)))"
proof (cases ev)
  case (Forward env clk addr)
  with assms show ?thesis
    by (simp add: relayer_ok_def mirrored_forward client_ok_forward)
next
  case (Tick now)
  obtain sent s' b' where eq: "maintenance_tick link ch now (s, b) = (sent, s', b')"
    by (metis prod.exhaust)
  then have "mirrored ch s' \<and> client_ok (celestia s')"
    by (cases rule: maintenance_tick_cases) (use assms in \<open>auto simp: relayer_ok_def relayer_simps\<close>)
  then show ?thesis by (simp add: Tick eq relayer_ok_def)
next
  case Poll
  with assms show ?thesis
    by (simp add: balance_poll_sweep_def Let_def relayer_ok_def relayer_simps)
next
  case (SignerBalance env)
  obtain r t where 1: "with_client (query_balances env (signer_address (celestia s))) s = (r, t)"
    by fastforce
  then have "quiet s t" using assms(1) by (intro query_balances_quiet) (auto simp: relayer_ok_def)
  with mirrored_quiet [OF this, of ch] assms(1) have "relayer_ok ch t"
    by (simp add: relayer_ok_def) (simp add: quiet_def)
  then show ?thesis
    by (cases r) (simp_all add: SignerBalance refresh_signer_balance_metrics_def 1 Let_def
        relayer_ok_def relayer_simps)
qed

lemma relayer_ok_run:
  assumes "relayer_ok ch s" and "chrono_roundtrip ch" and "\<forall>ev \<in> set evs. event_clock_ok ev"
  shows "relayer_ok ch (fst (fold (relayer_step link ch) evs (s, b)))"
  using assms
proof (induction evs arbitrary: s b)
  case (Cons ev evs)
  obtain s1 b1 where 1: "relayer_step link ch ev (s, b) = (s1, b1)" by fastforce
  with relayer_ok_step [of ch s ev link b] Cons.prems have "relayer_ok ch s1" by simp
  from Cons.IH [OF this] Cons.prems 1 show ?case by simp
qed simp

text \<open>What a start reads from the store.\<close>

lemma relayer_new_loads:
  assumes "relayer_new ch conf (Inr cl) (Inr c) = Inr r" and "sql_healthy c" and "store_wf (tables c)"
    and "client_ok cl"
  shows "map_of (retry_states r) = stored_retry ch (tables c)
    \<and> map_of (last_activity r) = stored_activity ch (tables c) \<and> relayer_ok ch r"
proof -
  let ?rs = "load_map rr_forward_addr (decode_retry_row ch) (retry_state_tbl (tables c))"
  let ?la = "load_map ar_forward_addr (decode_activity_row ch) (address_activity_tbl (tables c))"
  have "load_retry_state ch c = (Inr ?rs, c\<lparr>sql_count := Suc (Suc (sql_count c))\<rparr>)"
    using assms(2) by (simp add: load_retry_state_def bind_io_def return_io_def sql_query_healthy)
  moreover have "load_activity ch (c\<lparr>sql_count := n\<rparr>) = (Inr ?la, c\<lparr>sql_count := Suc (Suc n)\<rparr>)" for n
    using assms(2) by (simp add: load_activity_def bind_io_def return_io_def sql_query_healthy)
  ultimately have r: "retry_states r = ?rs" "last_activity r = ?la" "celestia r = cl"
    "\<exists>n. store r = c\<lparr>sql_count := n\<rparr>"
    using assms(1) by (auto simp: relayer_new_def Let_def)
  have "map_of ?rs = stored_retry ch (tables c)" "map_of ?la = stored_activity ch (tables c)"
    using assms(3) by (auto simp: fun_eq_iff stored_retry_def stored_activity_def load_map_get store_wf_def)
  moreover have "hm_wf ?rs" "hm_wf ?la" by (rule load_map_wf)+
  ultimately show ?thesis
    using r assms(2-4) by (auto simp: relayer_ok_def mirrored_def)
qed

text \<open>a crash loses neither backoff nor activity. Whatever the relayer did since it started
  on a working database, forwards, ticks, polls, with any answers of the nodes and of the
  backend: a relayer started on what it left on disk has the same backoff and activity
  state in memory.\<close>

theorem restart_resumes:
  assumes "relayer_new ch conf (Inr cl) (Inr c) = Inr s" and "sql_healthy c" and "store_wf (tables c)"
    and "client_ok cl" and "chrono_roundtrip ch" and "\<forall>ev \<in> set evs. event_clock_ok ev"
    and "fold (relayer_step link ch) evs (s, b) = (s', b')"
    and "relayer_new ch conf' (Inr cl') (Inr (store s')) = Inr r" and "client_ok cl'"
  shows "map_of (retry_states r) = map_of (retry_states s')
    \<and> map_of (last_activity r) = map_of (last_activity s')"
proof -
  have "relayer_ok ch s" using relayer_new_loads [OF assms(1-4)] by simp
  from relayer_ok_run [OF this assms(5,6), of link b] assms(7) have "mirrored ch s'"
    by (simp add: relayer_ok_def)
  then have m: "sql_healthy (store s')" "store_wf (tables (store s'))"
    "stored_retry ch (tables (store s')) = map_of (retry_states s')"
    "stored_activity ch (tables (store s')) = map_of (last_activity s')"
    by (simp_all add: mirrored_def)
  from relayer_new_loads [OF assms(8) m(1,2) assms(9)] m(3,4) show ?thesis by simp
qed

theorem restart_resumes_witness:
  "\<exists>s r. relayer_new tally_chrono example_config (Inr example_client) (Inr example_store) = Inr s
   \<and> relayer_new tally_chrono example_config (Inr example_client)
       (Inr (store (fst (fold (relayer_step listing_link tally_chrono)
          [Tick 3, Forward example_grpc (example_clock 3) ''b'', Poll]
          (s, [example_request ''b''])))))
     = Inr r
   \<and> map_of (last_activity r) ''a'' = None \<and> map_of (last_activity r) ''b'' = Some 3"
proof -
  let ?evs = "[Tick 3, Forward example_grpc (example_clock 3) ''b'', Poll]"
  let ?new = "relayer_new tally_chrono example_config (Inr example_client)"
  have new: "\<exists>s. ?new (Inr c) = Inr s" for c
    by (simp add: relayer_new_def Let_def split_beta)
  then obtain s where s: "?new (Inr example_store) = Inr s" by blast
  obtain s' b' where run: "fold (relayer_step listing_link tally_chrono) ?evs (s, [example_request ''b''])
      = (s', b')" by fastforce
  obtain r where r: "?new (Inr (store s')) = Inr r" using new by blast
  have clocks: "\<forall>ev \<in> set ?evs. event_clock_ok ev"
    by (simp add: example_clock_def clock_ok_def)
  have "map_of (last_activity r) = map_of (last_activity s')"
    using restart_resumes [OF s example_store_ok example_client_ok tally_chrono_roundtrip clocks run r
        example_client_ok] by simp
  moreover have "case ?new (Inr example_store) of Inl _ \<Rightarrow> False | Inr s \<Rightarrow>
      (let s' = fst (fold (relayer_step listing_link tally_chrono) ?evs (s, [example_request ''b'']))
       in map_of (last_activity s') ''a'' = None \<and> map_of (last_activity s') ''b'' = Some 3)"
    by code_simp
  then have "map_of (last_activity s') ''a'' = None \<and> map_of (last_activity s') ''b'' = Some 3"
    by (simp add: s run Let_def del: fold.simps fold_simps)
  ultimately show ?thesis
    using s r run by (intro exI [of _ s] exI [of _ r]) (simp del: fold.simps fold_simps)
qed

end
