(* ===== verification/Steps.thy ===== *)
theory Steps
  imports Maintenance
begin

text \<open>
  \<^verbatim>\<open>src/relayer.rs\<close>, lines 743-891 and 1000-1110, cut at the awaits: what a forward and a
  maintenance tick do between two of them, so that other tasks can run in between. Run
  without interruption the pieces are \<open>forward_address\<close> and \<open>maintenance_tick\<close>.
\<close>

section \<open>A forward, piece by piece\<close>

text \<open>What a forward knows after the piece: the request to go on with, and the fee cap.\<close>

datatype forward_stage =
    Begun string
  | Checked string forwarding_request
  | Funded string forwarding_request
  | Priced string forwarding_request string
  | Ended string

definition begin_forward ::
  "forward_clock \<Rightarrow> string \<Rightarrow> relayer_state \<Rightarrow> forward_stage \<times> relayer_state" where
  "begin_forward clk addr s =
     (case hm_get (live s) addr of
        None \<Rightarrow> (Ended addr, s)
      | Some request \<Rightarrow>
          if in_backoff (checked_at clk) addr s
          then (Ended addr, processed ''backoff'' (decimal (unat (dest_domain request))) s)
          else (Checked addr request, s))"

definition see_balance ::
  "grpc_env \<Rightarrow> chrono \<Rightarrow> forward_clock \<Rightarrow> string \<Rightarrow> forwarding_request \<Rightarrow> relayer_state
     \<Rightarrow> forward_stage \<times> relayer_state" where
  "see_balance env ch clk addr request s =
     (let label = decimal (unat (dest_domain request)) in
      case with_client (query_balances env addr) s of
        (Inl _, s1) \<Rightarrow>
          (Ended addr, note_failure ch (finished_at clk) addr (processed ''query_failed'' label s1))
      | (Inr balances, s1) \<Rightarrow>
          if balances = []
          then (Ended addr, clear_retry_state addr (processed ''empty_balance'' label s1))
          else (Funded addr request, record_activity ch (deposit_seen_at clk) addr s1))"

definition price_forward ::
  "grpc_env \<Rightarrow> chrono \<Rightarrow> forward_clock \<Rightarrow> string \<Rightarrow> forwarding_request \<Rightarrow> relayer_state
     \<Rightarrow> forward_stage \<times> relayer_state" where
  "price_forward env ch clk addr request s =
     (let label = decimal (unat (dest_domain request)) in
      case resolve_max_igp_fee env clk request label s of
        (None, s1) \<Rightarrow>
          (Ended addr, note_failure ch (finished_at clk) addr (processed ''fee_failed'' label s1))
      | (Some fee, s1) \<Rightarrow> (Priced addr request fee, s1))"

fun forward_piece ::
  "grpc_env \<Rightarrow> chrono \<Rightarrow> forward_clock \<Rightarrow> forward_stage \<Rightarrow> relayer_state
     \<Rightarrow> forward_stage \<times> relayer_state" where
  "forward_piece env ch clk (Begun a) s = begin_forward clk a s"
| "forward_piece env ch clk (Checked a rq) s = see_balance env ch clk a rq s"
| "forward_piece env ch clk (Funded a rq) s = price_forward env ch clk a rq s"
| "forward_piece env ch clk (Priced a rq fee) s =
     (Ended a, submit_step env ch clk a rq (decimal (unat (dest_domain rq))) fee s)"
| "forward_piece env ch clk (Ended a) s = (Ended a, s)"

fun stage_addr :: "forward_stage \<Rightarrow> string" where
  "stage_addr (Begun a) = a"
| "stage_addr (Checked a _) = a"
| "stage_addr (Funded a _) = a"
| "stage_addr (Priced a _ _) = a"
| "stage_addr (Ended a) = a"

text \<open>How many pieces can be left.\<close>

fun stage_left :: "forward_stage \<Rightarrow> nat" where
  "stage_left (Begun _) = 4"
| "stage_left (Checked _ _) = 3"
| "stage_left (Funded _ _) = 2"
| "stage_left (Priced _ _ _) = 1"
| "stage_left (Ended _) = 0"

lemma forward_piece_stage:
  assumes "forward_piece env ch clk g s = (g', s')"
  shows "stage_addr g' = stage_addr g \<and> (0 < stage_left g \<longrightarrow> stage_left g' < stage_left g)
    \<and> (\<forall>a. g' \<noteq> Begun a \<or> g = Begun a)"
  using assms
  by (cases g)
    (auto simp: begin_forward_def see_balance_def price_forward_def Let_def
      split: option.splits if_splits prod.splits sum.splits)



text \<open>What a piece keeps, and what it submits.\<close>

definition stage_message :: "forward_stage \<Rightarrow> relayer_state \<Rightarrow> msg_forward option" where
  "stage_message g s =
     (case g of
        Priced a rq fee \<Rightarrow> Some (forward_message (signer_address (celestia s)) a (dest_domain rq)
          (dest_recipient rq) (token_id rq) fee (hook_binding_of rq (config s)))
      | _ \<Rightarrow> None)"

lemma submit_step_frame:
  assumes "client_ok (celestia s)"
  shows "config (submit_step env ch clk a rq label fee s) = config s"
    "live (submit_step env ch clk a rq label fee s) = live s"
    "client_ok (celestia (submit_step env ch clk a rq label fee s))"
    "map snd (submissions (celestia (submit_step env ch clk a rq label fee s)))
     = map snd (submissions (celestia s)) @ [forward_message (signer_address (celestia s)) a (dest_domain rq)
         (dest_recipient rq) (token_id rq) fee (hook_binding_of rq (config s))]"
  by (cases rule: submit_step_cases [OF assms, of env ch clk a rq label fee];
      simp add: processed_def submission_counted_def relayer_simps)+

lemma see_balance_frame:
  assumes "client_ok (celestia s)" and "see_balance env ch clk a rq s = (g, s')"
  shows "config s' = config s \<and> live s' = live s \<and> client_ok (celestia s')
    \<and> submissions (celestia s') = submissions (celestia s)"
proof -
  obtain r t where rt: "with_client (query_balances env a) s = (r, t)" by fastforce
  with assms(1) have "quiet s t" by (rule query_balances_quiet)
  with assms(2) rt show ?thesis
    by (cases r) (auto simp: see_balance_def Let_def quiet_def processed_def relayer_simps split: if_splits)
qed

lemma price_forward_frame:
  assumes "client_ok (celestia s)" and "price_forward env ch clk a rq s = (g, s')"
  shows "config s' = config s \<and> live s' = live s \<and> client_ok (celestia s')
    \<and> submissions (celestia s') = submissions (celestia s)"
proof -
  obtain r t where rt: "resolve_max_igp_fee env clk rq (decimal (unat (dest_domain rq))) s = (r, t)" by fastforce
  with assms(1) have "quiet s t" by (rule resolve_quiet)
  with assms(2) rt show ?thesis
    by (cases r) (auto simp: price_forward_def Let_def quiet_def processed_def relayer_simps)
qed

lemma forward_piece_frame:
  assumes "client_ok (celestia s)" and "forward_piece env ch clk g s = (g', s')"
  shows "config s' = config s \<and> live s' = live s \<and> client_ok (celestia s')
    \<and> map snd (submissions (celestia s'))
      = map snd (submissions (celestia s)) @ (case stage_message g s of None \<Rightarrow> [] | Some m \<Rightarrow> [m])"
proof (cases g)
  case (Begun a)
  with assms show ?thesis
    by (auto simp: begin_forward_def stage_message_def processed_def relayer_simps split: option.splits if_splits)
next
  case (Checked a rq)
  with assms see_balance_frame [OF assms(1)] show ?thesis by (auto simp: stage_message_def)
next
  case (Funded a rq)
  with assms price_forward_frame [OF assms(1)] show ?thesis by (auto simp: stage_message_def)
next
  case (Priced a rq fee)
  with assms(2) submit_step_frame [OF assms(1)] show ?thesis by (auto simp: stage_message_def)
next
  case (Ended a)
  with assms show ?thesis by (auto simp: stage_message_def)
qed

lemma mirrored_piece:
  assumes "mirrored ch s" and "client_ok (celestia s)" and "chrono_roundtrip ch"
    and "clock_ok (deposit_seen_at clk)" and "clock_ok (finished_at clk)"
    and "forward_piece env ch clk g s = (g', s')"
  shows "mirrored ch s'"
proof (cases g)
  case (Begun a)
  with assms show ?thesis
    by (auto simp: begin_forward_def processed_def split: option.splits if_splits)
next
  case (Checked a rq)
  obtain r t where rt: "with_client (query_balances env a) s = (r, t)" by fastforce
  with assms(2) have "quiet s t" by (rule query_balances_quiet)
  with assms Checked rt show ?thesis
    by (cases r)
      (auto simp: see_balance_def Let_def processed_def mirrored_quiet intro!: mirrored_ops split: if_splits)
next
  case (Funded a rq)
  obtain r t where rt: "resolve_max_igp_fee env clk rq (decimal (unat (dest_domain rq))) s = (r, t)" by fastforce
  with assms(2) have "quiet s t" by (rule resolve_quiet)
  with assms Funded rt show ?thesis
    by (cases r) (auto simp: price_forward_def Let_def processed_def mirrored_quiet intro!: mirrored_ops)
next
  case (Priced a rq fee)
  with assms show ?thesis by (auto intro: mirrored_submit_step)
qed (use assms in simp)

text \<open>The request a piece works with is the one that was live when the forward began.\<close>

fun stage_request :: "forward_stage \<Rightarrow> forwarding_request option" where
  "stage_request (Checked _ rq) = Some rq"
| "stage_request (Funded _ rq) = Some rq"
| "stage_request (Priced _ rq _) = Some rq"
| "stage_request _ = None"

lemma forward_piece_request:
  assumes "forward_piece env ch clk g s = (g', s')" and "stage_request g' = Some rq"
  shows "stage_request g = Some rq \<or> (\<exists>a. g = Begun a \<and> hm_get (live s) a = Some rq)"
  using assms
  by (cases g)
    (auto simp: begin_forward_def see_balance_def price_forward_def Let_def
      split: option.splits if_splits prod.splits sum.splits)

section \<open>A tick, piece by piece\<close>

text \<open>
  \<open>Retiring now rrs kept new\<close>: the requests \<open>rrs\<close> are still to retire before \<open>kept\<close> becomes the
  live list and \<open>new\<close> is sent; \<open>Probing now\<close>: \<open>new\<close> is being sent, the retries due at \<open>now\<close>
  come next.
\<close>

datatype tick_stage =
    Sleeping
  | Retiring int "(forwarding_request \<times> retire_reason) list" "(string, forwarding_request) hmap" "string list"
  | Probing int

definition begin_tick ::
  "'b backend_link \<Rightarrow> chrono \<Rightarrow> int \<Rightarrow> relayer_state \<times> 'b \<Rightarrow> tick_stage \<times> relayer_state \<times> 'b" where
  "begin_tick link ch now sb =
     (let (s, b) = sb; (reply, b1) = http_get link b in
      case fetch_forwarding_requests reply of
        Inl _ \<Rightarrow>
          (Sleeping, log_metric (Counter ''backend_request_fetch_total'' [(''status'', ''failure'')] 1) s, b1)
      | Inr requests \<Rightarrow>
          let s1 = log_metric (count_gauge ''forwarding_requests_fetched'' (length requests))
                     (log_metric (Counter ''backend_request_fetch_total'' [(''status'', ''success'')] 1) s);
              to_retire = retirements ch (config s1) now (last_activity s1) requests;
              kept = kept_map to_retire requests
          in (Retiring now to_retire kept (filter (\<lambda>a. \<not> hm_contains (live s1) a) (hm_keys kept)), s1, b1))"

definition swap_live :: "(string, forwarding_request) hmap \<Rightarrow> relayer_state \<Rightarrow> relayer_state" where
  "swap_live kept s =
     (log_metric (count_gauge ''relayer_live_addresses'' (length kept)) (prune_to (hm_keys kept) s))\<lparr>live := kept\<rparr>"

text \<open>A piece gives the next stage, the state, and what it sends.\<close>

fun tick_piece ::
  "'b backend_link \<Rightarrow> chrono \<Rightarrow> int \<Rightarrow> tick_stage \<Rightarrow> relayer_state \<times> 'b
     \<Rightarrow> tick_stage \<times> string list \<times> relayer_state \<times> 'b" where
  "tick_piece link ch t Sleeping sb = (let (g, sb') = begin_tick link ch t sb in (g, [], sb'))"
| "tick_piece link ch t (Retiring now (rr # rrs) kept new) sb =
     (Retiring now rrs kept new, [], retire_one link rr sb)"
| "tick_piece link ch t (Retiring now [] kept new) (s, b) = (Probing now, new, swap_live kept s, b)"
| "tick_piece link ch t (Probing now) (s, b) = (Sleeping, due_retries now s, s, b)"

text \<open>The pieces of one tick in a row, sends collected.\<close>

fun tick_pieces ::
  "'b backend_link \<Rightarrow> chrono \<Rightarrow> int \<Rightarrow> nat \<Rightarrow> tick_stage \<Rightarrow> relayer_state \<times> 'b
     \<Rightarrow> tick_stage \<times> string list \<times> relayer_state \<times> 'b" where
  "tick_pieces link ch t 0 g sb = (g, [], sb)"
| "tick_pieces link ch t (Suc n) g sb =
     (let (g1, sent, sb1) = tick_piece link ch t g sb in
      if g1 = Sleeping then (g1, sent, sb1)
      else let (g2, sent', sb2) = tick_pieces link ch t n g1 sb1 in (g2, sent @ sent', sb2))"

lemma retiring_pieces:
  assumes "length rrs + 1 < n"
  shows "tick_pieces link ch t n (Retiring now rrs kept new) (s, b) =
    (let (s2, b2) = fold (retire_one link) rrs (s, b); s3 = swap_live kept s2
     in (Sleeping, new @ due_retries now s3, s3, b2))"
  using assms
proof (induction rrs arbitrary: n s b)
  case Nil
  then obtain m where n: "n = Suc (Suc m)" by (metis add_cancel_left_left less_iff_Suc_add list.size(3) plus_1_eq_Suc add_Suc)
  show ?case by (simp add: n Let_def)
next
  case (Cons rr rrs)
  then obtain m where n: "n = Suc m" "length rrs + 1 < m" by (cases n) auto
  obtain s1 b1 where 1: "retire_one link rr (s, b) = (s1, b1)" by fastforce
  show ?case using Cons.IH [OF n(2), of s1 b1] by (simp add: n 1 Let_def split: prod.splits)
qed


section \<open>What the pieces of the tasks keep\<close>

lemma begin_tick_frame:
  assumes "begin_tick link ch now (s, b) = (g, s', b')"
  shows "\<exists>ms. s' = fold log_metric ms s"
proof -
  obtain reply b1 where "http_get link b = (reply, b1)" by fastforce
  with assms have "s' = fold log_metric [Counter ''backend_request_fetch_total'' [(''status'', ''failure'')] 1] s
    \<or> (\<exists>n. s' = fold log_metric [Counter ''backend_request_fetch_total'' [(''status'', ''success'')] 1,
        count_gauge ''forwarding_requests_fetched'' n] s)"
    by (auto simp: begin_tick_def Let_def split: sum.splits)
  then show ?thesis by blast
qed

lemma fold_log_metric [relayer_simps]:
  "config (fold log_metric ms s) = config s" "live (fold log_metric ms s) = live s"
  "celestia (fold log_metric ms s) = celestia s" "retry_states (fold log_metric ms s) = retry_states s"
  "last_activity (fold log_metric ms s) = last_activity s" "store (fold log_metric ms s) = store s"
  "mirrored ch (fold log_metric ms s) = mirrored ch s"
  by (induction ms arbitrary: s) (simp_all add: relayer_simps)

lemma swap_live_frame [relayer_simps]:
  "config (swap_live kept s) = config s" "celestia (swap_live kept s) = celestia s"
  "live (swap_live kept s) = kept"
  by (simp_all add: swap_live_def relayer_simps)

lemma mirrored_swap_live: "mirrored ch s \<Longrightarrow> mirrored ch (swap_live kept s)"
  by (simp add: swap_live_def mirrored_prune_to)

lemma tick_piece_frame:
  assumes "tick_piece link ch t g (s, b) = (g', sent, s', b')"
  shows "config s' = config s \<and> celestia s' = celestia s \<and> (mirrored ch s \<longrightarrow> mirrored ch s')"
  using assms
proof (cases "(link, ch, t, g, (s, b))" rule: tick_piece.cases)
  case (1 link ch t sb)
  then show ?thesis
    using assms by (auto simp: relayer_simps split: prod.splits dest!: begin_tick_frame)
next
  case (2 link ch t now rr rrs kept new sb)
  then show ?thesis
    using assms retire_one_frame [of link rr s b] mirrored_retire_one [of ch s link rr b]
    by auto
qed (use assms in \<open>auto simp: relayer_simps mirrored_swap_live\<close>)

text \<open>A piece of a tick reaches the backend through the two calls only.\<close>

lemma begin_tick_backend: "begin_tick link ch now (s, b) = (g, s', b') \<Longrightarrow> b' = snd (http_get link b)"
  by (auto simp: begin_tick_def Let_def split: prod.splits sum.splits)

lemma tick_piece_backend:
  assumes "tick_piece link ch t g (s, b) = (g', sent, s', b')"
  shows "b' = b \<or> b' = snd (http_get link b) \<or> (\<exists>a. b' = snd (http_delete link a b))"
proof (cases "(link, ch, t, g, (s, b))" rule: tick_piece.cases)
  case (1 link ch t sb)
  with assms show ?thesis by (auto split: prod.splits dest!: begin_tick_backend)
next
  case (2 link ch t now rr rrs kept new sb)
  with assms retire_one_backend [of link rr s b] show ?thesis by auto
qed (use assms in auto)

text \<open>The metrics of a sweep are written after its sends, those of a block as it is scanned.\<close>

definition count_poll :: "nat \<Rightarrow> relayer_state \<Rightarrow> relayer_state" where
  "count_poll n s =
     log_metric (count_gauge ''relayer_balance_poll_addresses'' n)
       (log_metric (Counter ''relayer_balance_poll_sweeps_total'' [] 1) s)"

lemma balance_poll_sweep_pieces:
  "balance_poll_sweep s = (hm_keys (live s), count_poll (length (hm_keys (live s))) s)"
  by (simp add: balance_poll_sweep_def count_poll_def Let_def)

definition count_deposit :: "relayer_state \<Rightarrow> relayer_state" where
  "count_deposit s = log_metric (Counter ''relayer_deposits_detected_total'' [] 1) s"

definition block_scanned :: "u64 \<Rightarrow> relayer_state \<Rightarrow> relayer_state" where
  "block_scanned height s =
     (let (_, c) = store_height height (store s)
      in log_metric (Gauge ''relayer_scan_height'' [] (f64_of_int (uint height))) (s\<lparr>store := c\<rparr>))"

text \<open>\<^verbatim>\<open>recover_pruned\<close> moving the cursor over heights no node can serve.\<close>

definition heights_skipped :: "string \<Rightarrow> nat \<Rightarrow> u64 \<Rightarrow> relayer_state \<Rightarrow> relayer_state" where
  "heights_skipped reason n new_cursor s =
     block_scanned new_cursor
       (log_metric (Counter ''relayer_scan_blocks_skipped_total'' [(''reason'', reason)] n) s)"

lemma scan_pieces_frame [relayer_simps]:
  "config (count_poll n s) = config s" "celestia (count_poll n s) = celestia s" "live (count_poll n s) = live s"
  "config (count_deposit s) = config s" "celestia (count_deposit s) = celestia s"
  "live (count_deposit s) = live s"
  "config (block_scanned h s) = config s" "celestia (block_scanned h s) = celestia s"
  "live (block_scanned h s) = live s"
  "config (heights_skipped reason n h s) = config s" "celestia (heights_skipped reason n h s) = celestia s"
  "live (heights_skipped reason n h s) = live s"
  by (simp_all add: count_poll_def count_deposit_def block_scanned_def heights_skipped_def relayer_simps
      split: prod.splits)

lemma mirrored_store_height:
  assumes "mirrored ch r"
  shows "mirrored ch (r\<lparr>store := snd (store_height h (store r))\<rparr>)"
  using assms
  by (simp add: mirrored_def store_height_healthy write_height_def store_wf_def stored_retry_def
      stored_activity_def sql_healthy_def fun_eq_iff)

lemma mirrored_scan_pieces:
  "mirrored ch s \<Longrightarrow> mirrored ch (count_poll n s)" "mirrored ch s \<Longrightarrow> mirrored ch (count_deposit s)"
  "mirrored ch s \<Longrightarrow> mirrored ch (block_scanned h s)" "mirrored ch s \<Longrightarrow> mirrored ch (heights_skipped reason n h s)"
proof -
  have scanned: "mirrored ch (block_scanned h s)" if "mirrored ch s" for s
    using mirrored_store_height [OF that, of h] by (simp add: block_scanned_def split_beta)
  then show "mirrored ch s \<Longrightarrow> mirrored ch (block_scanned h s)"
    "mirrored ch s \<Longrightarrow> mirrored ch (heights_skipped reason n h s)"
    by (simp_all add: heights_skipped_def)
qed (simp_all add: count_poll_def count_deposit_def)

text \<open>A tick makes live only what it sends or what was live.\<close>

lemma begin_tick_new:
  assumes "begin_tick link ch now (s, b) = (Retiring now' rrs kept new, s', b')"
  shows "set (hm_keys kept) \<subseteq> set new \<union> set (hm_keys (live s))"
  using assms
  by (auto simp: begin_tick_def Let_def hm_contains_def relayer_simps split: prod.splits sum.splits)

end
