(* ===== verification/Events.thy ===== *)
theory Events
  imports Auth Types
begin

text \<open>
  \<^verbatim>\<open>src/scanner.rs\<close>, lines 61-197: the pure part of the scanner. Which deposits a block's
  events announce, the lenient reading of a coins string, and the URLs of an RPC endpoint
  with its token spliced in and redacted again.

  \<^verbatim>\<open>key_str\<close> and \<^verbatim>\<open>value_str\<close> of tendermint's attributes fail on bytes that are not UTF-8;
  the fields of \<open>event_attribute\<close> are their results, \<open>None\<close> a failure.
\<close>

section \<open>Events\<close>

record event_attribute =
  key_str :: "string option"
  value_str :: "string option"

record abci_event =
  kind :: string
  attributes :: "event_attribute list"

record block_results =
  txs_results :: "abci_event list list option"
  finalize_block_events :: "abci_event list"
  begin_block_events :: "abci_event list option"
  end_block_events :: "abci_event list option"

record deposit =
  recipient :: string
  coins :: "balance list"

text \<open>\<^verbatim>\<open>token.find(|c| !c.is_ascii_digit())\<close>: without a non-digit the token is skipped.\<close>

definition parse_coin :: "string \<Rightarrow> balance option" where
  "parse_coin token =
     (let token = trim token; ds = takeWhile is_digit token; rest = dropWhile is_digit token
      in if rest = [] then None
         else if ds = [] then None
         else Some \<lparr>denom = rest, amount = ds\<rparr>)"

definition parse_coins :: "string \<Rightarrow> balance list" where
  "parse_coins amt = List.map_filter parse_coin (split_on CHR '','' amt)"

definition recipient_key :: "string \<Rightarrow> string option" where
  "recipient_key k =
     (if k = ''coin_received'' then Some ''receiver''
      else if k = ''transfer'' then Some ''recipient''
      else None)"

definition read_attribute ::
  "string \<Rightarrow> event_attribute \<Rightarrow> string option \<times> string option \<Rightarrow> string option \<times> string option" where
  "read_attribute rkey attr ra =
     (let (r, a) = ra in
      case key_str attr of
        Some key \<Rightarrow>
          if key = rkey then (value_str attr, a)
          else if key = ''amount'' then (r, value_str attr)
          else (r, a)
      | None \<Rightarrow> (r, a))"

fun deposits_loop :: "abci_event list \<Rightarrow> deposit list \<Rightarrow> string list \<Rightarrow> deposit list" where
  "deposits_loop [] deposits seen = deposits"
| "deposits_loop (event # events) deposits seen =
     (case recipient_key (kind event) of
        None \<Rightarrow> deposits_loop events deposits seen
      | Some rkey \<Rightarrow>
          (case fold (read_attribute rkey) (attributes event) (None, None) of
             (None, a) \<Rightarrow> deposits_loop events deposits seen
           | (Some r, a) \<Rightarrow>
               if r \<in> set seen then deposits_loop events deposits seen
               else deposits_loop events
                 (deposits @ [\<lparr>recipient = r, coins = (case a of Some s \<Rightarrow> parse_coins s | None \<Rightarrow> [])\<rparr>])
                 (r # seen)))"

definition deposits_from_events :: "abci_event list \<Rightarrow> deposit list" where
  "deposits_from_events events = deposits_loop events [] []"

definition all_events :: "block_results \<Rightarrow> abci_event list" where
  "all_events results =
     concat (case txs_results results of Some txs \<Rightarrow> txs | None \<Rightarrow> [])
     @ finalize_block_events results
     @ (case begin_block_events results of Some es \<Rightarrow> es | None \<Rightarrow> [])
     @ (case end_block_events results of Some es \<Rightarrow> es | None \<Rightarrow> [])"

definition extract_deposits :: "block_results \<Rightarrow> deposit list" where
  "extract_deposits results = deposits_from_events (all_events results)"

section \<open>URLs\<close>

definition derive_ws_url :: "string \<Rightarrow> string" where
  "derive_ws_url rpc_url =
     (let base = trim_end_char CHR ''/'' rpc_url;
          ws = (case strip_prefix ''https://'' base of
                  Some rest \<Rightarrow> ''wss://'' @ rest
                | None \<Rightarrow>
                  (case strip_prefix ''http://'' base of
                     Some rest \<Rightarrow> ''ws://'' @ rest
                   | None \<Rightarrow> base))
      in ws @ ''/websocket'')"

definition ends_authority :: "char \<Rightarrow> bool" where
  "ends_authority c \<longleftrightarrow> c = CHR ''/'' \<or> c = CHR ''?'' \<or> c = CHR ''#''"

definition redact_userinfo :: "string \<Rightarrow> string" where
  "redact_userinfo url =
     (case split_once_str ''://'' url of
        None \<Rightarrow> url
      | Some (scheme, rest) \<Rightarrow>
          let authority = takeWhile (\<lambda>c. \<not> ends_authority c) rest;
              rest_tail = dropWhile (\<lambda>c. \<not> ends_authority c) rest
          in (case rsplit_once CHR ''@'' authority of
                Some (_, host) \<Rightarrow> scheme @ ''://***@'' @ host @ rest_tail
              | None \<Rightarrow> url))"

definition with_auth_token :: "string \<Rightarrow> string option \<Rightarrow> string result" where
  "with_auth_token url token =
     (case token of
        None \<Rightarrow> Inr url
      | Some t \<Rightarrow>
          (case split_once_str ''://'' url of
             None \<Rightarrow> Inl (''Invalid CometBFT RPC URL (expected scheme://host): '' @ url)
           | Some (scheme, rest) \<Rightarrow> Inr (scheme @ ''://:'' @ t @ ''@'' @ rest)))"

section \<open>Detection\<close>

text \<open>The recipient an event announces, if it is a deposit.\<close>

definition event_recipient :: "abci_event \<Rightarrow> string option" where
  "event_recipient event =
     (case recipient_key (kind event) of
        None \<Rightarrow> None
      | Some rkey \<Rightarrow> fst (fold (read_attribute rkey) (attributes event) (None, None)))"

text \<open>The elements of a list in the order of their first occurrence.\<close>

fun first_seen :: "'a list \<Rightarrow> 'a list \<Rightarrow> 'a list" where
  "first_seen seen [] = []"
| "first_seen seen (x # xs) =
     (if x \<in> set seen then first_seen seen xs else x # first_seen (x # seen) xs)"

lemma first_seen_set: "set (first_seen seen xs) = set xs - set seen"
  by (induction xs arbitrary: seen) auto

lemma first_seen_distinct: "distinct (first_seen seen xs)"
  by (induction xs arbitrary: seen) (auto simp: first_seen_set)

lemma deposits_loop_recipients:
  "map recipient (deposits_loop es deposits seen)
   = map recipient deposits @ first_seen seen (List.map_filter event_recipient es)"
proof (induction es arbitrary: deposits seen)
  case (Cons e es)
  show ?case
  proof (cases "recipient_key (kind e)")
    case None
    with Cons show ?thesis by (simp add: event_recipient_def map_filter_simps)
  next
    case (Some rkey)
    obtain r a where ra: "fold (read_attribute rkey) (attributes e) (None, None) = (r, a)" by fastforce
    with Some Cons show ?thesis
      by (cases r) (simp_all add: event_recipient_def map_filter_simps)
  qed
qed (simp add: map_filter_simps)

text \<open>C40: a block's deposits are exactly its announced recipients, each once, in the order they
  first appear, over transaction, finalize, begin and end events.\<close>

theorem deposits_are_announced_recipients:
  "map recipient (extract_deposits results)
     = first_seen [] (List.map_filter event_recipient (all_events results))
   \<and> distinct (map recipient (extract_deposits results))
   \<and> set (map recipient (extract_deposits results))
     = {r. \<exists>e \<in> set (all_events results). event_recipient e = Some r}"
proof -
  have eq: "map recipient (extract_deposits results)
      = first_seen [] (List.map_filter event_recipient (all_events results))"
    by (simp add: extract_deposits_def deposits_from_events_def deposits_loop_recipients)
  moreover have "set (List.map_filter event_recipient es) = {r. \<exists>e \<in> set es. event_recipient e = Some r}" for es
    by (force simp: map_filter_def)
  ultimately show ?thesis
    by (simp only: first_seen_distinct first_seen_set) simp
qed

text \<open>Coins as Cosmos writes them, and which of them can be read back.\<close>

definition render_coin :: "balance \<Rightarrow> string" where
  "render_coin b = amount b @ denom b"

definition wf_coin :: "balance \<Rightarrow> bool" where
  "wf_coin b \<longleftrightarrow> amount b \<noteq> [] \<and> (\<forall>c \<in> set (amount b). is_digit c)
     \<and> denom b \<noteq> [] \<and> \<not> is_digit (hd (denom b)) \<and> CHR '','' \<notin> set (denom b)
     \<and> \<not> is_whitespace (last (denom b))"

lemma is_digit_not_whitespace: "is_digit c \<Longrightarrow> \<not> is_whitespace c"
  by (auto simp: is_digit_def is_whitespace_def Let_def)

lemma parse_render_coin: "wf_coin b \<Longrightarrow> parse_coin (render_coin b) = Some b"
proof -
  assume wf: "wf_coin b"
  then have tr: "trim (render_coin b) = render_coin b"
    by (intro trim_id) (auto simp: wf_coin_def render_coin_def is_digit_not_whitespace)
  have tw: "takeWhile is_digit (render_coin b) = amount b"
    and dw: "dropWhile is_digit (render_coin b) = denom b"
    using wf by (cases "denom b"; auto simp: wf_coin_def render_coin_def takeWhile_append dropWhile_append)+
  show ?thesis
    using wf by (simp only: parse_coin_def Let_def tr tw dw) (simp add: wf_coin_def)
qed

text \<open>a list of coins written as Cosmos writes it, amount then denomination, separated by
  commas, reads back as that list.\<close>

theorem parse_render_coins:
  assumes "cs \<noteq> []" and "\<forall>b \<in> set cs. wf_coin b"
  shows "parse_coins (join '','' (map render_coin cs)) = cs"
proof -
  have digit: "\<not> is_digit CHR '',''" by (simp add: is_digit_def)
  then have "\<forall>s \<in> set (map render_coin cs). CHR '','' \<notin> set s"
    using assms(2) by (auto simp: wf_coin_def render_coin_def)
  with assms(1) have "split_on CHR '','' (join '','' (map render_coin cs)) = map render_coin cs"
    by (intro split_on_join) simp_all
  moreover have "List.map_filter parse_coin (map render_coin cs) = cs"
    using assms(2) by (induction cs) (simp_all add: map_filter_simps parse_render_coin)
  ultimately show ?thesis by (simp add: parse_coins_def)
qed

theorem parse_render_coins_witness:
  "parse_coins ''1000utia,500ibc/27394FB0'' = [\<lparr>denom = ''utia'', amount = ''1000''\<rparr>,
     \<lparr>denom = ''ibc/27394FB0'', amount = ''500''\<rparr>]"
proof -
  let ?cs = "[\<lparr>denom = ''utia'', amount = ''1000''\<rparr>, \<lparr>denom = ''ibc/27394FB0'', amount = ''500''\<rparr>]"
  have "\<forall>b \<in> set ?cs. wf_coin b" by code_simp
  from parse_render_coins [OF _ this] show ?thesis by (simp add: render_coin_def)
qed

section \<open>A token never reaches the log\<close>

lemma strip_prefix_common:
  "length p \<le> length s \<Longrightarrow> strip_prefix p (s @ x) = map_option (\<lambda>r. r @ x) (strip_prefix p s)"
  by (induction p s rule: strip_prefix.induct) auto

lemma split_once_str_Some_local:
  assumes "p \<noteq> []" and "split_once_str p (a @ p @ b) = Some (a, b)"
  shows "split_once_str p (a @ p @ c) = Some (a, c)"
  using assms(2)
proof (induction a)
  case Nil
  have "strip_prefix p (p @ c) = Some c" by simp
  with assms(1) show ?case by (cases p) auto
next
  case (Cons x a)
  have "strip_prefix p ((x # a @ p) @ b) = None"
    using Cons.prems by (auto split: option.splits)
  then have "strip_prefix p (x # a @ p) = None"
    by (subst (asm) strip_prefix_common) auto
  then have n: "strip_prefix p (x # a @ p @ y) = None" for y
    using strip_prefix_common [of p "x # a @ p" y] by simp
  from Cons.prems n have "split_once_str p (a @ p @ b) = Some (a, b)"
    by (auto split: option.splits)
  with Cons.IH n show ?case by simp
qed

lemma split_once_str_local:
  "p \<noteq> [] \<Longrightarrow> split_once_str p s = Some (a, b) \<Longrightarrow> split_once_str p (a @ p @ c) = Some (a, c)"
  using split_once_str_append [of p s a b] split_once_str_Some_local [of p a b c] by simp

text \<open>The part of an authority after its last \<^verbatim>\<open>@\<close>.\<close>

definition host_part :: "string \<Rightarrow> string" where
  "host_part h = (case rsplit_once CHR ''@'' h of Some (_, host) \<Rightarrow> host | None \<Rightarrow> h)"

lemma rsplit_host_part: "\<exists>creds. rsplit_once CHR ''@'' (x @ CHR ''@'' # h) = Some (creds, host_part h)"
proof (cases "rsplit_once CHR ''@'' h")
  case None
  then have n: "CHR ''@'' \<notin> set h" by (simp add: rsplit_once_None_iff)
  then have "rsplit_once CHR ''@'' (x @ CHR ''@'' # h) = Some (x, h)"
    by (simp add: rsplit_once_Some_iff)
  with None show ?thesis by (simp add: host_part_def)
next
  case (Some q)
  then obtain a b where q: "q = (a, b)" by (cases q)
  with Some have "h = a @ CHR ''@'' # b" "CHR ''@'' \<notin> set b" by (auto simp: rsplit_once_Some_iff)
  then have "rsplit_once CHR ''@'' (x @ CHR ''@'' # h) = Some (x @ CHR ''@'' # a, b)"
    by (simp add: rsplit_once_Some_iff)
  with Some q show ?thesis by (simp add: host_part_def)
qed

lemma redact_token:
  assumes "split_once_str ''://'' (scheme @ ''://'' @ r) = Some (scheme, r)" and "valid_token t"
  shows "redact_userinfo (scheme @ ''://:'' @ t @ ''@'' @ y)
    = scheme @ ''://***@'' @ host_part (takeWhile (\<lambda>c. \<not> ends_authority c) y)
        @ dropWhile (\<lambda>c. \<not> ends_authority c) y"
proof -
  let ?P = "\<lambda>c. \<not> ends_authority c" and ?rest = "'':'' @ t @ ''@'' @ y"
  have split: "split_once_str ''://'' (scheme @ ''://'' @ ?rest) = Some (scheme, ?rest)"
    using assms(1) by (rule split_once_str_local [rotated]) simp
  have "\<forall>c \<in> set ('':'' @ t @ ''@''). ?P c"
    using valid_token_free [OF assms(2)] by (auto simp: ends_authority_def)
  then have tw: "takeWhile ?P ?rest = ('':'' @ t) @ CHR ''@'' # takeWhile ?P y"
    and dw: "dropWhile ?P ?rest = dropWhile ?P y"
    by (simp_all add: takeWhile_append2 dropWhile_append2)
  obtain creds where creds: "rsplit_once CHR ''@'' (('':'' @ t) @ CHR ''@'' # takeWhile ?P y)
      = Some (creds, host_part (takeWhile ?P y))"
    using rsplit_host_part by blast
  have "redact_userinfo (scheme @ ''://'' @ ?rest)
      = scheme @ ''://***@'' @ host_part (takeWhile ?P y) @ dropWhile ?P y"
    unfolding redact_userinfo_def split option.case prod.case Let_def tw dw creds ..
  then show ?thesis by simp
qed

definition ws_scheme :: "string \<Rightarrow> string" where
  "ws_scheme scheme = (if scheme = ''https'' then ''wss'' else if scheme = ''http'' then ''ws'' else scheme)"

lemma derive_ws_url_token:
  assumes "split_once_str ''://'' (scheme @ ''://'' @ r) = Some (scheme, r)"
  shows "derive_ws_url (scheme @ ''://:'' @ t @ ''@'' @ y)
    = ws_scheme scheme @ ''://:'' @ t @ ''@'' @ trim_end_char CHR ''/'' y @ ''/websocket''"
proof -
  let ?z = "t @ ''@'' @ trim_end_char CHR ''/'' y"
  have "trim_end_char CHR ''/'' ((scheme @ ''://:'' @ t @ ''@'') @ y)
      = (scheme @ ''://:'' @ t @ ''@'') @ trim_end_char CHR ''/'' y"
  proof (cases "\<forall>x \<in> set y. x = CHR ''/''")
    case True
    then have "trim_end_char CHR ''/'' y = []" by (simp add: trim_end_char_def dropWhile_eq_Nil_conv)
    moreover have "trim_end_char CHR ''/'' ((scheme @ ''://:'' @ t) @ ''@'') = (scheme @ ''://:'' @ t) @ ''@''"
      by (simp add: trim_end_char_def)
    ultimately show ?thesis using True by (subst trim_end_char_append) simp
  next
    case False
    then show ?thesis by (subst trim_end_char_append) auto
  qed
  then have base: "trim_end_char CHR ''/'' (scheme @ ''://:'' @ t @ ''@'' @ y) = scheme @ ''://'' @ '':'' @ ?z"
    by simp
  have split: "split_once_str ''://'' (scheme @ ''://'' @ '':'' @ ?z) = Some (scheme, '':'' @ ?z)"
    using assms by (rule split_once_str_local [rotated]) simp
  have other: "strip_prefix (q @ ''://'') (scheme @ ''://'' @ '':'' @ ?z) = None"
    if q: "q = ''https'' \<or> q = ''http''" and ne: "scheme \<noteq> q" for q
  proof (rule ccontr)
    assume "strip_prefix (q @ ''://'') (scheme @ ''://'' @ '':'' @ ?z) \<noteq> None"
    then obtain x where eq: "scheme @ ''://'' @ '':'' @ ?z = q @ ''://'' @ x"
      by (auto simp: strip_prefix_Some_iff)
    have "split_once_str ''://'' (q @ ''://'' @ x) = Some (q, x)" using q by auto
    with eq split have "scheme = q" by simp
    with ne show False ..
  qed
  show ?thesis
  proof (cases "scheme = ''https'' \<or> scheme = ''http''")
    case True
    then show ?thesis unfolding derive_ws_url_def Let_def base by (auto simp: ws_scheme_def)
  next
    case False
    with other [of "''https''"] other [of "''http''"] show ?thesis
      unfolding derive_ws_url_def Let_def base by (simp add: ws_scheme_def)
  qed
qed

text \<open>the gateway token never reaches the log. The line written when a WebSocket connection
  fails is the same whatever the (URL-safe) token of the endpoint is.\<close>

theorem token_never_logged:
  assumes "with_auth_token url (Some t) = Inr a" and "valid_token t"
    and "with_auth_token url (Some u) = Inr b" and "valid_token u"
  shows "redact_userinfo (derive_ws_url a) = redact_userinfo (derive_ws_url b)"
proof -
  from assms(1) obtain scheme r where split: "split_once_str ''://'' url = Some (scheme, r)"
    by (auto simp: with_auth_token_def split: option.splits)
  then have url: "split_once_str ''://'' (scheme @ ''://'' @ x) = Some (scheme, x)" for x
    by (rule split_once_str_local [rotated]) simp
  have ws: "split_once_str ''://'' (ws_scheme scheme @ ''://'' @ x) = Some (ws_scheme scheme, x)" for x
    using url [of x] by (simp add: ws_scheme_def)
  have "redact_userinfo (derive_ws_url (scheme @ ''://:'' @ v @ ''@'' @ r))
      = ws_scheme scheme @ ''://***@''
        @ host_part (takeWhile (\<lambda>c. \<not> ends_authority c) (trim_end_char CHR ''/'' r @ ''/websocket''))
        @ dropWhile (\<lambda>c. \<not> ends_authority c) (trim_end_char CHR ''/'' r @ ''/websocket'')"
    if "valid_token v" for v
    unfolding derive_ws_url_token [OF url] by (rule redact_token [OF ws that])
  moreover from assms(1,3) split have "a = scheme @ ''://:'' @ t @ ''@'' @ r" "b = scheme @ ''://:'' @ u @ ''@'' @ r"
    by (auto simp: with_auth_token_def)
  ultimately show ?thesis using assms(2,4) by simp
qed

theorem token_never_logged_witness:
  "redact_userinfo (derive_ws_url ''https://:tokA@node:26657/'') = redact_userinfo (derive_ws_url ''https://:secret@node:26657/'')
   \<and> redact_userinfo (derive_ws_url ''https://:tokA@node:26657/'') = ''wss://***@node:26657/websocket''"
proof
  have "with_auth_token ''https://node:26657/'' (Some ''tokA'') = Inr ''https://:tokA@node:26657/''"
    "with_auth_token ''https://node:26657/'' (Some ''secret'') = Inr ''https://:secret@node:26657/''"
    "valid_token ''tokA''" "valid_token ''secret''"
    by code_simp+
  then show "redact_userinfo (derive_ws_url ''https://:tokA@node:26657/'')
      = redact_userinfo (derive_ws_url ''https://:secret@node:26657/'')"
    using token_never_logged by blast
  show "redact_userinfo (derive_ws_url ''https://:tokA@node:26657/'') = ''wss://***@node:26657/websocket''"
    by code_simp
qed

end
