(* ===== verification/Scanner.thy ===== *)
theory Scanner
  imports Events Failover Retry_Store
begin

text \<open>
  \<^verbatim>\<open>src/scanner.rs\<close>, lines 199-712: the block scanner. The RPC nodes are the record
  \<open>rpc_env\<close>; because their answers change over time every part of a session brings its
  own. \<open>history\<close> is the trace of what happened to the cursor, \<open>enqueued\<close> the addresses
  sent to the forward queue.
\<close>

section \<open>Endpoints\<close>

record rpc_status =
  earliest_block_height :: u64
  latest_block_height :: u64

record rpc_endpoint =
  rpc_url :: string
  conn_url :: string
  ws_url :: string

text \<open>\<open>height_ok\<close> is tendermint's \<^verbatim>\<open>Height::try_from\<close>.\<close>

record rpc_env =
  status :: "rpc_endpoint \<Rightarrow> rpc_status result"
  fetch_results :: "rpc_endpoint \<Rightarrow> u64 \<Rightarrow> block_results result"
  height_ok :: "u64 \<Rightarrow> bool"

definition build_rpc_endpoint :: "(string \<Rightarrow> unit result) \<Rightarrow> endpoint_spec \<Rightarrow> rpc_endpoint result" where
  "build_rpc_endpoint http_new spec =
     (case with_auth_token (ep_url spec) (map_option as_str (ep_token spec)) of
        Inl e \<Rightarrow> Inl e
      | Inr conn \<Rightarrow>
        (case with_context (''Invalid CometBFT RPC URL: '' @ ep_url spec) (http_new conn) of
           Inl e \<Rightarrow> Inl e
         | Inr _ \<Rightarrow> Inr \<lparr>rpc_url = ep_url spec, conn_url = conn, ws_url = derive_ws_url conn\<rparr>))"

definition rpc_pool_new :: "(string \<Rightarrow> unit result) \<Rightarrow> string \<Rightarrow> rpc_endpoint list result" where
  "rpc_pool_new http_new spec =
     (case parse_endpoint_specs spec of
        Inl e \<Rightarrow> Inl e
      | Inr specs \<Rightarrow>
     (case collect_results (map (build_rpc_endpoint http_new) specs) of
        Inl e \<Rightarrow> Inl e
      | Inr eps \<Rightarrow> if eps = [] then Inl ''CELESTIA_RPC contained no usable URLs'' else Inr eps))"

definition rpc_url_list :: "rpc_endpoint list \<Rightarrow> string" where
  "rpc_url_list pool = join '', '' (map rpc_url pool)"

definition current_height :: "rpc_env \<Rightarrow> rpc_endpoint \<Rightarrow> u64 result" where
  "current_height env ep =
     (case with_context ''Failed to query node status'' (status env ep) of
        Inl e \<Rightarrow> Inl e
      | Inr st \<Rightarrow> Inr (latest_block_height st))"

definition pool_current_height :: "rpc_env \<Rightarrow> rpc_endpoint list \<Rightarrow> u64 result" where
  "pool_current_height env pool =
     (case try_each (\<lambda>i. current_height env (pool ! i)) [0..<length pool] None of
        Inr (_, height) \<Rightarrow> Inr height
      | Inl _ \<Rightarrow> Inl ''All RPC endpoints failed to return chain status'')"

interpretation rpc_pool: endpoint_pool
  "\<lambda>pool. [0..<length pool]" "\<lambda>pool. {..<length pool}" "\<lambda>pool. pool \<noteq> []"
  by unfold_locales auto

section \<open>Evidence about a stuck height\<close>

record height_evidence =
  earliest :: u64
  probe :: "bool option"

definition is_ok :: "'a result \<Rightarrow> bool" where
  "is_ok r = (case r of Inr _ \<Rightarrow> True | Inl _ \<Rightarrow> False)"

definition endpoint_evidence ::
  "rpc_env \<Rightarrow> u64 \<Rightarrow> u64 \<Rightarrow> rpc_endpoint \<Rightarrow> height_evidence option" where
  "endpoint_evidence env stuck confirmation_depth ep =
     (case status env ep of
        Inl _ \<Rightarrow> None
      | Inr st \<Rightarrow>
          let e = earliest_block_height st; latest = latest_block_height st;
              p = (if e \<le> stuck \<and> saturating_add stuck confirmation_depth \<le> latest
                   then Some (is_ok (fetch_results env ep stuck)) else None)
          in Some \<lparr>earliest = e, probe = p\<rparr>)"

definition gather_height_evidence ::
  "rpc_env \<Rightarrow> rpc_endpoint list \<Rightarrow> u64 \<Rightarrow> u64 \<Rightarrow> height_evidence list" where
  "gather_height_evidence env pool stuck confirmation_depth =
     (if \<not> height_ok env stuck then []
      else List.map_filter (endpoint_evidence env stuck confirmation_depth) pool)"

datatype pruned_verdict = Pruned u64 bool | Unservable | Wait

definition assess_evidence :: "height_evidence list \<Rightarrow> nat \<Rightarrow> u64 \<Rightarrow> pruned_verdict" where
  "assess_evidence evidence total_endpoints stuck =
     (if list_ex (\<lambda>e. probe e = Some True) evidence then Wait
      else
        (case map earliest evidence of
           [] \<Rightarrow> Wait
         | e # es \<Rightarrow>
             let min_earliest = fold min es e in
             if stuck < min_earliest
             then Pruned (min_earliest - 1) (length evidence = total_endpoints)
             else if list_ex (\<lambda>e. probe e = Some False) evidence then Unservable
             else Wait))"

section \<open>The cursor\<close>

datatype cursor_event = Scanned u64 | Skipped u64 u64

record scanner =
  cursor :: u64
  pruned :: "(u64 \<times> int) option"
  current_endpoint :: nat
  scan_store :: retry_store
  enqueued :: "string list"
  history :: "cursor_event list"
  scan_log :: "metric list"

definition scan_metric :: "metric \<Rightarrow> scanner \<Rightarrow> scanner" where
  "scan_metric m s = s\<lparr>scan_log := scan_log s @ [m]\<rparr>"

definition set_cursor :: "u64 \<Rightarrow> scanner \<Rightarrow> scanner" where
  "set_cursor height s =
     (let (_, c) = store_height height (scan_store s)
      in scan_metric (Gauge ''relayer_scan_height'' [] (f64_of_int (uint height)))
           (s\<lparr>cursor := height, scan_store := c\<rparr>))"

definition advance_cursor :: "u64 \<Rightarrow> scanner \<Rightarrow> scanner" where
  "advance_cursor new_cursor s =
     set_cursor new_cursor (s\<lparr>history := history s @ [Skipped (cursor s) new_cursor]\<rparr>)"

text \<open>
  \<open>recover_pruned\<close>: \<open>now\<close> is read when the stuck height is new, \<open>later\<close> for the time elapsed.
\<close>

definition stuck_since :: "int \<Rightarrow> u64 \<Rightarrow> (u64 \<times> int) option \<Rightarrow> int" where
  "stuck_since now stuck old =
     (case old of Some (h, since) \<Rightarrow> if h = stuck then since else now | None \<Rightarrow> now)"

definition recover_pruned ::
  "rpc_env \<Rightarrow> rpc_endpoint list \<Rightarrow> int \<Rightarrow> u64 \<Rightarrow> int \<Rightarrow> int \<Rightarrow> scanner \<Rightarrow> scanner" where
  "recover_pruned env pool timeout confirmation_depth now later s =
     (let stuck = cursor s + 1;
          since = stuck_since now stuck (pruned s);
          s1 = s\<lparr>pruned := Some (stuck, since)\<rparr>;
          elapsed = later - since;
          evidence = gather_height_evidence env pool stuck confirmation_depth
      in case assess_evidence evidence (length pool) stuck of
           Pruned new_cursor unanimous \<Rightarrow>
             if unanimous \<or> timeout \<le> elapsed
             then (advance_cursor new_cursor
                    (scan_metric (Counter ''relayer_scan_blocks_skipped_total''
                       [(''reason'', ''pruned'')] (unat (new_cursor - cursor s1))) s1))\<lparr>pruned := None\<rparr>
             else s1
         | Unservable \<Rightarrow>
             if timeout \<le> elapsed
             then (advance_cursor stuck
                    (scan_metric (Counter ''relayer_scan_blocks_skipped_total''
                       [(''reason'', ''unservable'')] 1) s1))\<lparr>pruned := None\<rparr>
             else s1
         | Wait \<Rightarrow> s1)"

section \<open>Scanning\<close>

text \<open>The live list at the time each height is processed.\<close>

type_synonym live_at = "u64 \<Rightarrow> (string, forwarding_request) hmap"

definition matched :: "live_at \<Rightarrow> u64 \<Rightarrow> block_results \<Rightarrow> string list" where
  "matched live height results =
     map recipient (filter (\<lambda>d. hm_contains (live height) (recipient d)) (extract_deposits results))"

definition enqueue_deposit :: "string \<Rightarrow> scanner \<Rightarrow> scanner" where
  "enqueue_deposit r s =
     (let s1 = scan_metric (Counter ''relayer_deposits_detected_total'' [] 1) s
      in s1\<lparr>enqueued := enqueued s1 @ [r]\<rparr>)"

definition scan_block :: "live_at \<Rightarrow> u64 \<Rightarrow> block_results \<Rightarrow> scanner \<Rightarrow> scanner" where
  "scan_block live height results s =
     (let s1 = fold enqueue_deposit (matched live height results) s
      in set_cursor height (s1\<lparr>history := history s1 @ [Scanned height]\<rparr>))"

lemma scan_metric_simps [simp]:
  "cursor (scan_metric m s) = cursor s" "history (scan_metric m s) = history s"
  "pruned (scan_metric m s) = pruned s" "enqueued (scan_metric m s) = enqueued s"
  "scan_store (scan_metric m s) = scan_store s"
  "current_endpoint (scan_metric m s) = current_endpoint s"
  by (simp_all add: scan_metric_def)

lemma set_cursor_simps [simp]:
  "cursor (set_cursor h s) = h" "history (set_cursor h s) = history s"
  "pruned (set_cursor h s) = pruned s" "enqueued (set_cursor h s) = enqueued s"
  "scan_store (set_cursor h s) = snd (store_height h (scan_store s))"
  "current_endpoint (set_cursor h s) = current_endpoint s"
  by (simp_all add: set_cursor_def split: prod.splits)

lemma fold_enqueue_deposit [simp]:
  "cursor (fold enqueue_deposit rs s) = cursor s"
  "history (fold enqueue_deposit rs s) = history s"
  "pruned (fold enqueue_deposit rs s) = pruned s"
  "scan_store (fold enqueue_deposit rs s) = scan_store s"
  "current_endpoint (fold enqueue_deposit rs s) = current_endpoint s"
  "enqueued (fold enqueue_deposit rs s) = enqueued s @ rs"
  by (induction rs arbitrary: s) (simp_all add: enqueue_deposit_def Let_def)

lemma scan_block_simps [simp]:
  "cursor (scan_block live h r s) = h"
  "history (scan_block live h r s) = history s @ [Scanned h]"
  "pruned (scan_block live h r s) = pruned s"
  "scan_store (scan_block live h r s) = snd (store_height h (scan_store s))"
  "current_endpoint (scan_block live h r s) = current_endpoint s"
  "enqueued (scan_block live h r s) = enqueued s @ matched live h r"
  by (simp_all add: scan_block_def Let_def)

text \<open>An increment below a bound does not wrap.\<close>

lemma unat_Suc_less: "c < t \<Longrightarrow> unat (c + 1 :: u64) = unat c + 1"
proof -
  assume "c < t"
  then have "c \<noteq> - 1" by (metis word_order.extremum_strict)
  then have "1 + c \<noteq> 0" by (metis add.commute eq_neg_iff_add_eq_0)
  then show ?thesis by (metis add.commute unatSuc Suc_eq_plus1)
qed

function scan_to :: "rpc_env \<Rightarrow> live_at \<Rightarrow> rpc_endpoint \<Rightarrow> u64 \<Rightarrow> scanner \<Rightarrow> unit result \<times> scanner" where
  "scan_to env live ep target s =
     (if cursor s < target then
        let height = cursor s + 1 in
        if \<not> height_ok env height then (Inl ''Block height out of range'', s)
        else
          (case fetch_results env ep height of
             Inl _ \<Rightarrow> (Inl (''Failed to fetch block_results for height '' @ decimal (unat height)), s)
           | Inr results \<Rightarrow> scan_to env live ep target (scan_block live height results s))
      else (Inr (), s))"
  by pat_completeness auto
termination
proof (relation "measure (\<lambda>(env, live, ep, target, s). unat target - unat (cursor s))", goal_cases)
  case (2 env live ep target s height results)
  then have "unat height = unat (cursor s) + 1" by (simp add: unat_Suc_less)
  moreover have "unat (cursor s) < unat target" using 2(1) by (simp add: word_less_nat_alt)
  ultimately show ?case by simp
qed simp

declare scan_to.simps [simp del]

section \<open>Sessions\<close>

text \<open>
  What a NewBlock subscription delivers: the height of a block, with the node's answers and
  the live list while it is acted on; an event without a block; an error.
\<close>

datatype sub_event = NewBlock rpc_env live_at u64 | OtherEvent | StreamError

record session =
  ws_connect :: "unit result"
  ws_subscribe :: "unit result"
  catch_up :: rpc_env
  catch_up_live :: live_at
  stream :: "sub_event list"

fun scan_stream :: "u64 \<Rightarrow> rpc_endpoint \<Rightarrow> sub_event list \<Rightarrow> scanner \<Rightarrow> unit result \<times> scanner" where
  "scan_stream depth ep [] s = (Inr (), s)"
| "scan_stream depth ep (OtherEvent # evs) s = scan_stream depth ep evs s"
| "scan_stream depth ep (StreamError # evs) s = (Inl ''WebSocket subscription error'', s)"
| "scan_stream depth ep (NewBlock env live height # evs) s =
     (case scan_to env live ep (saturating_sub height depth) s of
        (Inl e, s1) \<Rightarrow> (Inl e, s1)
      | (Inr _, s1) \<Rightarrow> scan_stream depth ep evs s1)"

definition scan_session :: "u64 \<Rightarrow> rpc_endpoint \<Rightarrow> session \<Rightarrow> scanner \<Rightarrow> unit result \<times> scanner" where
  "scan_session depth ep sess s =
     (case with_context (''Failed to connect WebSocket at '' @ redact_userinfo (ws_url ep)) (ws_connect sess) of
        Inl e \<Rightarrow> (Inl e, s)
      | Inr _ \<Rightarrow>
     (case with_context ''Failed to subscribe to NewBlock events'' (ws_subscribe sess) of
        Inl e \<Rightarrow> (Inl e, s)
      | Inr _ \<Rightarrow>
     (case current_height (catch_up sess) ep of
        Inl e \<Rightarrow> (Inl e, s)
      | Inr tip \<Rightarrow>
     (case scan_to (catch_up sess) (catch_up_live sess) ep (saturating_sub tip depth) s of
        (Inl e, s1) \<Rightarrow> (Inl e, s1)
      | (Inr _, s1) \<Rightarrow> scan_stream depth ep (stream sess) s1))))"

section \<open>The scanner loop\<close>

definition scanner_start ::
  "rpc_env \<Rightarrow> rpc_endpoint list \<Rightarrow> u64 option \<Rightarrow> retry_store \<Rightarrow> scanner result" where
  "scanner_start env pool start_height c =
     (let (persisted, c1) = load_height c;
          start = (case persisted of
                     Inr (Some height) \<Rightarrow> Inr height
                   | Inr None \<Rightarrow>
                       (case start_height of
                          Some height \<Rightarrow> Inr (saturating_sub height 1)
                        | None \<Rightarrow> pool_current_height env pool)
                   | Inl _ \<Rightarrow> pool_current_height env pool)
      in case start of
           Inl e \<Rightarrow> Inl e
         | Inr cur \<Rightarrow>
             let (_, c2) = store_height cur c1
             in Inr \<lparr>cursor = cur, pruned = None, current_endpoint = 0, scan_store = c2,
                  enqueued = [], history = [], scan_log = []\<rparr>)"

text \<open>One turn of the loop: a session, and on failure the node's answers and the two clock
  readings of the recovery.\<close>

record round =
  the_session :: session
  recovery :: rpc_env
  now_at :: int
  later_at :: int

definition scanner_round ::
  "rpc_endpoint list \<Rightarrow> int \<Rightarrow> u64 \<Rightarrow> round \<Rightarrow> scanner \<Rightarrow> scanner" where
  "scanner_round pool timeout depth rd s =
     (case scan_session depth (pool ! current_endpoint s) (the_session rd) s of
        (Inr _, s1) \<Rightarrow> s1\<lparr>pruned := None\<rparr>
      | (Inl e, s1) \<Rightarrow>
          let s2 = (if 1 < length pool
                    then scan_metric (Counter ''relayer_rpc_failover_total'' [] 1)
                           (s1\<lparr>current_endpoint := (current_endpoint s1 + 1) mod length pool\<rparr>)
                    else s1)
          in recover_pruned (recovery rd) pool timeout depth (now_at rd) (later_at rd) s2)"

definition run_scanner :: "rpc_endpoint list \<Rightarrow> int \<Rightarrow> u64 \<Rightarrow> round list \<Rightarrow> scanner \<Rightarrow> scanner" where
  "run_scanner pool timeout depth rds s = fold (scanner_round pool timeout depth) rds s"

text \<open>The whole task: it returns only if it cannot start.\<close>

definition run_block_scanner ::
  "(string \<Rightarrow> unit result) \<Rightarrow> rpc_env \<Rightarrow> string \<Rightarrow> u64 option \<Rightarrow> u64 \<Rightarrow> int \<Rightarrow> round list \<Rightarrow> retry_store
     \<Rightarrow> scanner result" where
  "run_block_scanner http_new env rpc_urls start_height depth timeout rds c =
     (case rpc_pool_new http_new rpc_urls of
        Inl e \<Rightarrow> Inl e
      | Inr pool \<Rightarrow> map_sum id (run_scanner pool timeout depth rds) (scanner_start env pool start_height c))"

section \<open>The cursor's history\<close>

text \<open>
  Replaying a history from a height: a scan moves to the next height, a skip jumps ahead.
  A history that replays accounts for every height once, in order.
\<close>

fun replay :: "u64 \<Rightarrow> cursor_event list \<Rightarrow> u64 option" where
  "replay c [] = Some c"
| "replay c (Scanned h # es) = (if h = c + 1 \<and> c < h then replay h es else None)"
| "replay c (Skipped a b # es) = (if a = c \<and> c < b then replay b es else None)"

lemma replay_append:
  "replay c (es @ es') = (case replay c es of Some d \<Rightarrow> replay d es' | None \<Rightarrow> None)"
  by (induction c es rule: replay.induct) auto

definition accounted :: "u64 \<Rightarrow> scanner \<Rightarrow> bool" where
  "accounted start s \<longleftrightarrow> replay start (history s) = Some (cursor s)"

lemma less_Suc_u64: "c < t \<Longrightarrow> c < (c + 1 :: u64)"
  by (simp add: word_less_nat_alt unat_Suc_less [of c t])

lemma Suc_le_u64: "c < t \<Longrightarrow> (c + 1 :: u64) \<le> t"
  using unat_Suc_less [of c t] by (simp add: word_less_nat_alt word_le_nat_alt)

lemma of_nat_Suc_unat: "c < t \<Longrightarrow> of_nat (Suc (unat c)) = (c + 1 :: u64)"
proof -
  assume "c < t"
  then have "of_nat (Suc (unat c)) = (of_nat (unat (c + 1)) :: u64)"
    using unat_Suc_less [of c t] by (simp only: Suc_eq_plus1)
  then show ?thesis by simp
qed

text \<open>
  What one pass over the blocks does: it processes the blocks \<open>bs\<close>, height and results, at
  the heights after the cursor, without a gap.
\<close>

definition blocks_after :: "u64 \<Rightarrow> u64 \<Rightarrow> (u64 \<times> block_results) list \<Rightarrow> bool" where
  "blocks_after c c' bs \<longleftrightarrow> unat c' = unat c + length bs
     \<and> map fst bs = map of_nat [Suc (unat c)..<Suc (unat c')]"

lemma blocks_after_Nil [simp]: "blocks_after c c []"
  by (simp add: blocks_after_def)

lemma blocks_after_Cons:
  assumes "c < t" and "blocks_after (c + 1) c' bs"
  shows "blocks_after c c' ((c + 1, b) # bs)"
proof -
  have u: "unat (c + 1) = Suc (unat c)" using unat_Suc_less [OF assms(1)] by simp
  have of: "of_nat (Suc (unat c)) = c + 1" using assms(1) by (rule of_nat_Suc_unat)
  have "Suc (unat c) < Suc (unat c')" using assms(2) u by (simp add: blocks_after_def)
  then have "[Suc (unat c)..<Suc (unat c')] = Suc (unat c) # [Suc (Suc (unat c))..<Suc (unat c')]"
    by (rule upt_conv_Cons)
  with of show ?thesis
    using assms(2) u by (simp add: blocks_after_def del: upt_Suc of_nat_Suc)
qed

lemma scan_to_result:
  assumes "scan_to env live ep target s = (r, s')"
  shows "\<exists>bs. blocks_after (cursor s) (cursor s') bs
    \<and> history s' = history s @ map (\<lambda>hb. Scanned (fst hb)) bs
    \<and> enqueued s' = enqueued s @ concat (map (\<lambda>(h, b). matched live h b) bs)
    \<and> (\<forall>(h, b) \<in> set bs. fetch_results env ep h = Inr b)
    \<and> pruned s' = pruned s \<and> current_endpoint s' = current_endpoint s
    \<and> (r = Inr () \<longrightarrow> cursor s' = max (cursor s) target)
    \<and> (r \<noteq> Inr () \<longrightarrow> cursor s' < target)"
  using assms
proof (induction env live ep target s arbitrary: r s' rule: scan_to.induct)
  case (1 env live ep target s)
  let ?h = "cursor s + 1"
  show ?case
  proof (cases "cursor s < target")
    case False
    with 1(2) have "r = Inr ()" "s' = s" by (auto simp: scan_to.simps [of env live ep target s])
    with False show ?thesis by (intro exI [of _ "[]"]) simp
  next
    case less: True
    show ?thesis
    proof (cases "height_ok env ?h \<and> (\<exists>b. fetch_results env ep ?h = Inr b)")
      case False
      with 1(2) less have "\<exists>e. r = Inl e" "s' = s"
        by (auto simp: scan_to.simps [of env live ep target s] Let_def split: if_splits sum.splits)
      with less show ?thesis by (intro exI [of _ "[]"]) auto
    next
      case True
      then obtain b where h: "height_ok env ?h" and b: "fetch_results env ep ?h = Inr b" by blast
      let ?s1 = "scan_block live ?h b s"
      from 1(2) less h b have "scan_to env live ep target ?s1 = (r, s')"
        by (simp add: scan_to.simps [of env live ep target s])
      from 1(1) [OF less refl _ b this] h obtain bs where bs:
        "blocks_after ?h (cursor s') bs" "history s' = history ?s1 @ map (\<lambda>hb. Scanned (fst hb)) bs"
        "enqueued s' = enqueued ?s1 @ concat (map (\<lambda>(h, b). matched live h b) bs)"
        "\<forall>(h, b) \<in> set bs. fetch_results env ep h = Inr b"
        "pruned s' = pruned s \<and> current_endpoint s' = current_endpoint s"
        "r = Inr () \<longrightarrow> cursor s' = max ?h target" "r \<noteq> Inr () \<longrightarrow> cursor s' < target"
        by auto
      have "max ?h target = max (cursor s) target"
        using less Suc_le_u64 [OF less] by (simp add: max_def less_imp_le)
      with bs blocks_after_Cons [OF less bs(1), of b] b show ?thesis
        by (intro exI [of _ "(?h, b) # bs"]) simp
    qed
  qed
qed

lemma replay_blocks:
  "blocks_after c c' bs \<Longrightarrow> replay c (map (\<lambda>hb. Scanned (fst hb)) bs) = Some c'"
proof (induction bs arbitrary: c)
  case Nil
  then show ?case by (simp add: blocks_after_def word_unat_eq_iff)
next
  case (Cons hb bs)
  then have less: "unat c < unat c'" by (simp add: blocks_after_def)
  then have c: "c < c'" by (simp add: word_less_nat_alt)
  have u: "unat (c + 1) = Suc (unat c)" using unat_Suc_less [OF c] by simp
  have of: "of_nat (Suc (unat c)) = c + 1" using c by (rule of_nat_Suc_unat)
  have "[Suc (unat c)..<Suc (unat c')] = Suc (unat c) # [Suc (Suc (unat c))..<Suc (unat c')]"
    using less by (intro upt_conv_Cons) simp
  with Cons.prems of u have "fst hb = c + 1" "blocks_after (c + 1) c' bs"
    by (simp_all add: blocks_after_def del: upt_Suc of_nat_Suc)
  with Cons.IH less_Suc_u64 [OF c] show ?case by simp
qed

lemma scan_to_accounted:
  assumes "accounted start s" and "scan_to env live ep target s = (r, s')"
  shows "accounted start s'"
  using scan_to_result [OF assms(2)] assms(1)
  by (auto simp: accounted_def replay_append replay_blocks)

lemma scan_stream_accounted:
  "accounted start s \<Longrightarrow> accounted start (snd (scan_stream depth ep evs s))"
  by (induction depth ep evs s rule: scan_stream.induct)
    (auto dest: scan_to_accounted split: prod.splits sum.splits)

lemma scan_session_accounted:
  assumes "accounted start s" and "scan_session depth ep sess s = (r, s')"
  shows "accounted start s'"
proof -
  have *: "accounted start x" if "scan_stream depth ep evs y = (r, x)" "accounted start y" for evs x y
    using scan_stream_accounted [OF that(2), of depth ep evs] that(1) by simp
  from assms show ?thesis
    by (auto simp: scan_session_def intro: * scan_to_accounted split: sum.splits prod.splits)
qed

text \<open>The evidence, endpoint by endpoint.\<close>

lemma Min_fold_min: "fold min es e = Min (set (e # es))" for e :: "'a::linorder"
  by (rule Min.set_eq_fold [symmetric])

lemma gather_mem:
  assumes "height_ok env stuck"
  shows "ev \<in> set (gather_height_evidence env pool stuck depth) \<longleftrightarrow>
    (\<exists>ep \<in> set pool. endpoint_evidence env stuck depth ep = Some ev)"
  using assms by (force simp: gather_height_evidence_def map_filter_def)

lemma assess_Pruned:
  assumes "assess_evidence evidence n stuck = Pruned new unanimous"
  shows "evidence \<noteq> [] \<and> stuck \<le> new \<and> (\<forall>e \<in> set evidence. new < earliest e \<and> probe e \<noteq> Some True)
    \<and> (\<exists>e \<in> set evidence. earliest e = new + 1) \<and> (unanimous \<longleftrightarrow> length evidence = n)"
proof -
  from assms obtain e es where ev: "map earliest evidence = e # es"
    and no: "\<not> list_ex (\<lambda>e. probe e = Some True) evidence"
    and lt: "stuck < fold min es e" and new: "new = fold min es e - 1" "unanimous \<longleftrightarrow> length evidence = n"
    by (auto simp: assess_evidence_def Let_def split: if_splits list.splits)
  let ?m = "fold min es e"
  have m: "?m = Min (set (map earliest evidence))" unfolding ev by (rule Min_fold_min)
  have ne: "evidence \<noteq> []" using ev by auto
  have mem: "?m \<in> set (map earliest evidence)" unfolding m by (rule Min_in) (use ne in auto)
  have le: "?m \<le> earliest x" if "x \<in> set evidence" for x
    unfolding m by (rule Min_le) (use that in auto)
  have pos: "?m \<noteq> 0" using lt by (metis word_not_simps(1))
  have u: "unat new = unat ?m - 1" using pos by (simp add: new unat_minus_one)
  have "0 < unat ?m" using pos by (simp add: unat_gt_0)
  with u have "new < ?m" "new + 1 = ?m" by (simp_all add: new word_less_nat_alt)
  moreover have "stuck \<le> new" using lt u by (simp add: word_less_nat_alt word_le_nat_alt)
  ultimately show ?thesis
    using ne mem le no new(2) by (fastforce simp: list_ex_iff)
qed

lemma assess_Unservable:
  assumes "assess_evidence evidence n stuck = Unservable"
  shows "(\<exists>e \<in> set evidence. probe e = Some False) \<and> (\<forall>e \<in> set evidence. probe e \<noteq> Some True)"
  using assms by (auto simp: assess_evidence_def Let_def list_ex_iff split: if_splits list.splits)

section \<open>Recovery\<close>

lemma recover_cases:
  assumes "recover_pruned env pool timeout depth now later s = s'"
  obtains (waits) "cursor s' = cursor s" "history s' = history s" "enqueued s' = enqueued s"
      "scan_store s' = scan_store s" "current_endpoint s' = current_endpoint s"
  | (jumps) new unanimous where
      "assess_evidence (gather_height_evidence env pool (cursor s + 1) depth) (length pool) (cursor s + 1)
         = Pruned new unanimous"
      "unanimous \<or> timeout \<le> later - stuck_since now (cursor s + 1) (pruned s)"
      "cursor s' = new" "history s' = history s @ [Skipped (cursor s) new]"
      "enqueued s' = enqueued s" "scan_store s' = snd (store_height new (scan_store s))"
      "current_endpoint s' = current_endpoint s"
  | (steps) "assess_evidence (gather_height_evidence env pool (cursor s + 1) depth) (length pool) (cursor s + 1)
         = Unservable"
      "timeout \<le> later - stuck_since now (cursor s + 1) (pruned s)"
      "cursor s' = cursor s + 1" "history s' = history s @ [Skipped (cursor s) (cursor s + 1)]"
      "enqueued s' = enqueued s" "scan_store s' = snd (store_height (cursor s + 1) (scan_store s))"
      "current_endpoint s' = current_endpoint s"
proof (cases "assess_evidence (gather_height_evidence env pool (cursor s + 1) depth) (length pool) (cursor s + 1)")
  case (Pruned new unanimous)
  show thesis
  proof (cases "unanimous \<or> timeout \<le> later - stuck_since now (cursor s + 1) (pruned s)")
    case True
    with Pruned assms show thesis
      by (intro jumps [OF Pruned True]) (auto simp: recover_pruned_def Let_def advance_cursor_def)
  next
    case False
    with Pruned assms show thesis by (intro waits) (auto simp: recover_pruned_def Let_def)
  qed
next
  case Unservable
  show thesis
  proof (cases "timeout \<le> later - stuck_since now (cursor s + 1) (pruned s)")
    case True
    with Unservable assms show thesis
      by (intro steps [OF Unservable True]) (auto simp: recover_pruned_def Let_def advance_cursor_def)
  next
    case False
    with Unservable assms show thesis by (intro waits) (auto simp: recover_pruned_def Let_def)
  qed
next
  case Wait
  with assms show thesis by (intro waits) (auto simp: recover_pruned_def Let_def)
qed

text \<open>What a node's answers look like: tendermint's heights fit a signed 64-bit integer.\<close>

definition rpc_ok :: "rpc_env \<Rightarrow> bool" where
  "rpc_ok env \<longleftrightarrow> (\<forall>h. height_ok env h \<longrightarrow> unat h < 2 ^ 63)
     \<and> (\<forall>ep st. status env ep = Inr st \<longrightarrow>
          unat (earliest_block_height st) < 2 ^ 63 \<and> unat (latest_block_height st) < 2 ^ 63)"

lemma evidence_height_ok:
  "gather_height_evidence env pool stuck depth \<noteq> [] \<Longrightarrow> height_ok env stuck"
  by (auto simp: gather_height_evidence_def split: if_splits)

lemma endpoint_evidence_earliest:
  "endpoint_evidence env stuck depth ep = Some ev \<Longrightarrow>
     \<exists>st. status env ep = Inr st \<and> earliest ev = earliest_block_height st"
  by (auto simp: endpoint_evidence_def Let_def split: sum.splits)

text \<open>A skip moves forward: the distance reported never underflows.\<close>

lemma recover_forward:
  assumes "unat (cursor s) < 2 ^ 63" and "rpc_ok env"
    and "recover_pruned env pool timeout depth now later s = s'" and "cursor s' \<noteq> cursor s"
  shows "cursor s < cursor s' \<and> history s' = history s @ [Skipped (cursor s) (cursor s')]
    \<and> unat (cursor s') < 2 ^ 63 \<and> height_ok env (cursor s + 1)"
proof -
  let ?gather = "gather_height_evidence env pool (cursor s + 1) depth"
  have lt: "cursor s < cursor s + 1"
    by (rule less_Suc_u64 [of _ 18446744073709551615]) (use assms(1) in \<open>simp add: word_less_nat_alt\<close>)
  from assms(3) show ?thesis
  proof (cases rule: recover_cases)
    case waits
    with assms(4) show ?thesis by simp
  next
    case (jumps new unanimous)
    note a = assess_Pruned [OF jumps(1)]
    then have ok: "height_ok env (cursor s + 1)" using evidence_height_ok by blast
    obtain ev where ev: "ev \<in> set ?gather" "earliest ev = new + 1" "new < earliest ev"
      using a by blast
    then obtain ep where "endpoint_evidence env (cursor s + 1) depth ep = Some ev"
      using gather_mem [OF ok] by blast
    then have "unat (earliest ev) < 2 ^ 63"
      using assms(2) by (auto simp: rpc_ok_def dest: endpoint_evidence_earliest)
    with ev(3) have "unat new < 2 ^ 63" by (simp add: word_less_nat_alt)
    moreover have "cursor s < new" using lt a by (auto intro: less_le_trans)
    ultimately show ?thesis using jumps ok by simp
  next
    case steps
    have "?gather \<noteq> []" using assess_Unservable [OF steps(1)] by auto
    then have ok: "height_ok env (cursor s + 1)" by (rule evidence_height_ok)
    then have "unat (cursor s + 1) < 2 ^ 63" using assms(2) by (simp add: rpc_ok_def)
    with steps lt ok show ?thesis by simp
  qed
qed

text \<open>C19: the skip policy. The cursor only leaves a stuck height when some node answered and no
  node that answered could serve it. Then either the height, and every height jumped over, is
  below what each answering node retains, and the cursor stops just before the lowest
  retained height, at once if all configured nodes testified and else after the timeout;
  or a node that retains the height failed to serve it, the timeout has passed, and just
  this height is skipped.\<close>

theorem recover_skips_only_proven:
  assumes "unat (cursor s) < 2 ^ 63" and "rpc_ok env"
    and "recover_pruned env pool timeout depth now later s = s'" and "cursor s' \<noteq> cursor s"
  shows "cursor s < cursor s' \<and> history s' = history s @ [Skipped (cursor s) (cursor s')]
    \<and> (\<forall>ep \<in> set pool. \<forall>ev. endpoint_evidence env (cursor s + 1) depth ep = Some ev \<longrightarrow>
          probe ev \<noteq> Some True)
    \<and> ((\<exists>ep \<in> set pool. \<exists>st. status env ep = Inr st \<and> earliest_block_height st = cursor s' + 1)
        \<and> (\<forall>ep \<in> set pool. \<forall>st. status env ep = Inr st \<longrightarrow> cursor s' < earliest_block_height st)
        \<and> ((\<forall>ep \<in> set pool. \<exists>st. status env ep = Inr st)
            \<or> timeout \<le> later - stuck_since now (cursor s + 1) (pruned s))
      \<or> cursor s' = cursor s + 1 \<and> timeout \<le> later - stuck_since now (cursor s + 1) (pruned s)
        \<and> (\<exists>ep \<in> set pool. \<exists>st e. status env ep = Inr st \<and> earliest_block_height st \<le> cursor s + 1
            \<and> fetch_results env ep (cursor s + 1) = Inl e))"
proof -
  let ?gather = "gather_height_evidence env pool (cursor s + 1) depth"
  from recover_forward [OF assms] have fwd: "cursor s < cursor s'"
    "history s' = history s @ [Skipped (cursor s) (cursor s')]" and ok: "height_ok env (cursor s + 1)"
    by simp_all
  note mem = gather_mem [OF ok]
  have answered: "\<exists>ev. endpoint_evidence env (cursor s + 1) depth ep = Some ev
      \<and> earliest ev = earliest_block_height st" if "status env ep = Inr st" for ep st
    using that by (simp add: endpoint_evidence_def Let_def)
  have all: "\<forall>ep \<in> set pool. \<exists>st. status env ep = Inr st" if "length ?gather = length pool"
  proof (rule ballI)
    fix ep assume "ep \<in> set pool"
    have "length (filter (\<lambda>ep. endpoint_evidence env (cursor s + 1) depth ep \<noteq> None) pool) = length pool"
      using that ok by (simp add: gather_height_evidence_def map_filter_def)
    then have "endpoint_evidence env (cursor s + 1) depth ep \<noteq> None"
      using \<open>ep \<in> set pool\<close> by (metis (mono_tags, lifting) filter_True length_filter_less less_irrefl)
    then show "\<exists>st. status env ep = Inr st" by (auto dest: endpoint_evidence_earliest)
  qed
  from assms(3) show ?thesis
  proof (cases rule: recover_cases)
    case waits
    with assms(4) show ?thesis by simp
  next
    case (jumps new unanimous)
    note a = assess_Pruned [OF jumps(1)]
    then obtain ev ep where "ep \<in> set pool" "endpoint_evidence env (cursor s + 1) depth ep = Some ev"
      "earliest ev = new + 1" using mem by blast
    then have 1: "\<exists>ep \<in> set pool. \<exists>st. status env ep = Inr st \<and> earliest_block_height st = cursor s' + 1"
      using jumps(3) by (metis endpoint_evidence_earliest)
    have 2: "\<forall>ep \<in> set pool. \<forall>st. status env ep = Inr st \<longrightarrow> cursor s' < earliest_block_height st"
      using a mem answered jumps(3) by metis
    have 3: "\<forall>ep \<in> set pool. \<forall>ev. endpoint_evidence env (cursor s + 1) depth ep = Some ev \<longrightarrow> probe ev \<noteq> Some True"
      using a mem by blast
    have 4: "(\<forall>ep \<in> set pool. \<exists>st. status env ep = Inr st)
        \<or> timeout \<le> later - stuck_since now (cursor s + 1) (pruned s)"
      using a jumps(2) all by blast
    from fwd 1 2 3 4 show ?thesis by blast
  next
    case steps
    note a = assess_Unservable [OF steps(1)]
    then obtain ev ep where ep: "ep \<in> set pool" "endpoint_evidence env (cursor s + 1) depth ep = Some ev"
      "probe ev = Some False" using mem by blast
    then have "\<exists>st e. status env ep = Inr st \<and> earliest_block_height st \<le> cursor s + 1
        \<and> fetch_results env ep (cursor s + 1) = Inl e"
      by (auto simp: endpoint_evidence_def Let_def is_ok_def split: sum.splits if_splits)
    moreover have "\<forall>ep \<in> set pool. \<forall>ev. endpoint_evidence env (cursor s + 1) depth ep = Some ev \<longrightarrow> probe ev \<noteq> Some True"
      using a mem by blast
    ultimately show ?thesis using fwd ep(1) steps(2,3) by blast
  qed
qed

section \<open>The loop's invariant\<close>

text \<open>
  Every height since the start is accounted for, the cursor fits the store, and on a working
  database the store holds it.
\<close>

definition scanner_ok :: "u64 \<Rightarrow> scanner \<Rightarrow> bool" where
  "scanner_ok start s \<longleftrightarrow> accounted start s \<and> unat (cursor s) < 2 ^ 63
     \<and> sql_healthy (scan_store s)
     \<and> map_option height_of_column (read_height (tables (scan_store s))) = Some (cursor s)"

lemma scanner_ok_frame [simp]:
  "scanner_ok start (s\<lparr>pruned := p\<rparr>) = scanner_ok start s"
  "scanner_ok start (s\<lparr>current_endpoint := n\<rparr>) = scanner_ok start s"
  "scanner_ok start (scan_metric m s) = scanner_ok start s"
  by (simp_all add: scanner_ok_def accounted_def)

lemma stored_cursor:
  assumes "sql_healthy c" and "unat h < 2 ^ 63"
  shows "sql_healthy (snd (store_height h c))
    \<and> map_option height_of_column (read_height (tables (snd (store_height h c)))) = Some h"
  using assms cursor.load_store [of h "tables c"] by (simp add: store_height_healthy)

lemma scanner_ok_scan_to:
  assumes "scan_to env live ep target s = (r, s')" and "scanner_ok start s" and "rpc_ok env"
  shows "scanner_ok start s'"
  using assms
proof (induction env live ep target s arbitrary: r s' rule: scan_to.induct)
  case (1 env live ep target s)
  let ?h = "cursor s + 1"
  show ?case
  proof (cases "cursor s < target \<and> height_ok env ?h \<and> (\<exists>b. fetch_results env ep ?h = Inr b)")
    case False
    with "1.prems"(1) have "s' = s"
      by (auto simp: scan_to.simps [of env live ep target s] Let_def split: if_splits sum.splits)
    with "1.prems"(2) show ?thesis by simp
  next
    case True
    then obtain b where less: "cursor s < target" and h: "height_ok env ?h"
      and b: "fetch_results env ep ?h = Inr b" by blast
    let ?s1 = "scan_block live ?h b s"
    have bound: "unat ?h < 2 ^ 63" using "1.prems"(3) h by (simp add: rpc_ok_def)
    have "accounted start ?s1"
      using "1.prems"(2) less_Suc_u64 [OF less] by (simp add: scanner_ok_def accounted_def replay_append)
    then have "scanner_ok start ?s1"
      using "1.prems"(2) bound stored_cursor [OF _ bound] by (simp add: scanner_ok_def)
    moreover have "scan_to env live ep target ?s1 = (r, s')"
      using "1.prems"(1) less h b by (simp add: scan_to.simps [of env live ep target s])
    moreover have "\<not> \<not> height_ok env ?h" using h by simp
    ultimately show ?thesis using "1.IH" [OF less refl _ b] "1.prems"(3) by blast
  qed
qed

fun sub_event_ok :: "sub_event \<Rightarrow> bool" where
  "sub_event_ok (NewBlock env live h) = rpc_ok env"
| "sub_event_ok _ = True"

definition round_ok :: "round \<Rightarrow> bool" where
  "round_ok rd \<longleftrightarrow> rpc_ok (catch_up (the_session rd)) \<and> list_all sub_event_ok (stream (the_session rd))
     \<and> rpc_ok (recovery rd)"

lemma scanner_ok_stream:
  "scanner_ok start s \<Longrightarrow> list_all sub_event_ok evs \<Longrightarrow> scanner_ok start (snd (scan_stream depth ep evs s))"
  by (induction depth ep evs s rule: scan_stream.induct)
    (auto split: prod.splits sum.splits, (blast dest: scanner_ok_scan_to)+)

lemma scanner_ok_session:
  assumes "scan_session depth ep sess s = (r, s')" and "scanner_ok start s"
    and "rpc_ok (catch_up sess)" and "list_all sub_event_ok (stream sess)"
  shows "scanner_ok start s'"
proof -
  have *: "scanner_ok start x" if "scan_stream depth ep (stream sess) y = (r, x)" "scanner_ok start y" for x y
    using scanner_ok_stream [OF that(2) assms(4), of depth ep] that(1) by simp
  have **: "scanner_ok start x" if "scan_to (catch_up sess) live ep t s = (q, x)" for live t q x
    using that assms(2,3) by (rule scanner_ok_scan_to)
  from assms(1,2) show ?thesis
    by (auto simp: scan_session_def intro: * ** split: sum.splits prod.splits)
qed

lemma scanner_ok_recover:
  assumes "scanner_ok start s" and "rpc_ok env"
  shows "scanner_ok start (recover_pruned env pool timeout depth now later s)"
proof -
  obtain s' where s': "recover_pruned env pool timeout depth now later s = s'" by blast
  have ok: "unat (cursor s) < 2 ^ 63" "sql_healthy (scan_store s)" "accounted start s"
    using assms(1) by (simp_all add: scanner_ok_def)
  show ?thesis
  proof (cases "cursor s' = cursor s")
    case False
    note f = recover_forward [OF ok(1) assms(2) s' False]
    then have "accounted start s'" using ok(3) by (simp add: accounted_def replay_append)
    moreover have "scan_store s' = snd (store_height (cursor s') (scan_store s))"
      using s' by (cases rule: recover_cases) (use False in auto)
    ultimately show ?thesis
      using f stored_cursor [OF ok(2), of "cursor s'"] by (simp add: s' scanner_ok_def)
  next
    case True
    from s' show ?thesis
    proof (cases rule: recover_cases)
      case waits
      with assms(1) show ?thesis by (simp add: s' scanner_ok_def accounted_def)
    next
      case (jumps new unanimous)
      have "cursor s + 1 \<le> new" using assess_Pruned [OF jumps(1)] by simp
      then have "cursor s + 1 \<le> cursor s" using jumps(3) True by simp
      moreover have "cursor s < cursor s + 1"
        by (rule less_Suc_u64 [of _ 18446744073709551615]) (use ok(1) in \<open>simp add: word_less_nat_alt\<close>)
      ultimately show ?thesis by simp
    next
      case steps
      with True show ?thesis by simp
    qed
  qed
qed

lemma scanner_ok_round:
  assumes "scanner_ok start s" and "round_ok rd"
  shows "scanner_ok start (scanner_round pool timeout depth rd s)"
proof -
  obtain r s1 where 1: "scan_session depth (pool ! current_endpoint s) (the_session rd) s = (r, s1)"
    by fastforce
  from scanner_ok_session [OF 1 assms(1)] assms(2) have "scanner_ok start s1"
    by (simp add: round_ok_def)
  then show ?thesis
    using 1 assms(2) by (cases r) (auto simp: scanner_round_def Let_def round_ok_def scanner_ok_recover)
qed

lemma scanner_ok_run:
  "scanner_ok start s \<Longrightarrow> list_all round_ok rds \<Longrightarrow>
     scanner_ok start (run_scanner pool timeout depth rds s)"
  unfolding run_scanner_def by (induction rds arbitrary: s) (simp_all add: scanner_ok_round)

lemma scanner_start_ok:
  assumes "scanner_start env pool start_height c = Inr s" and "sql_healthy c"
    and "unat (cursor s) < 2 ^ 63"
  shows "scanner_ok (cursor s) s \<and> history s = []"
proof -
  obtain p c1 where 1: "load_height c = (p, c1)" by fastforce
  then have h1: "sql_healthy c1"
    using assms(2) by (auto simp: load_height_def io_defs sql_healthy_def)
  have "scan_store s = snd (store_height (cursor s) c1)" "history s = []"
    using assms(1) 1 by (auto simp: scanner_start_def Let_def split: sum.splits option.splits prod.splits)
  with stored_cursor [OF h1 assms(3)] assms(3) show ?thesis
    by (simp add: scanner_ok_def accounted_def)
qed

section \<open>Properties of the scanner\<close>

lemma replay_covers:
  "replay c es = Some c' \<Longrightarrow> c \<le> c' \<and> (\<forall>h. c < h \<and> h \<le> c' \<longrightarrow>
     (Scanned h \<in> set es) \<noteq> (\<exists>a b. Skipped a b \<in> set es \<and> a < h \<and> h \<le> b))"
proof (induction c es rule: replay.induct)
  case (1 c)
  then show ?case by auto
next
  case (2 c h es)
  then have h: "h = c + 1" "c < h" and IH: "h \<le> c'" "\<forall>k. h < k \<and> k \<le> c' \<longrightarrow>
      (Scanned k \<in> set es) \<noteq> (\<exists>a b. Skipped a b \<in> set es \<and> a < k \<and> k \<le> b)"
    by (auto split: if_splits)
  have range: "h \<le> a" if "Skipped a b \<in> set es" "replay h es = Some c'" for a b
    using that
  proof (induction h es rule: replay.induct)
    case (2 c h es)
    then show ?case by (fastforce split: if_splits)
  next
    case (3 c a' b' es)
    then show ?case by (fastforce split: if_splits)
  qed simp
  have rep: "replay h es = Some c'" using 2(2) h by simp
  have none: "\<not> (\<exists>a b. Skipped a b \<in> set es \<and> a < h \<and> h \<le> b)"
    using range [OF _ rep] by (meson leD)
  have "(Scanned k \<in> set (Scanned h # es)) \<noteq>
      (\<exists>a b. Skipped a b \<in> set (Scanned h # es) \<and> a < k \<and> k \<le> b)" if k: "c < k" "k \<le> c'" for k
  proof (cases "k = h")
    case True
    with none show ?thesis by auto
  next
    case False
    with k h Suc_le_u64 [of c k] have "h < k" by (auto simp: le_less)
    with IH k False show ?thesis by auto
  qed
  with IH h show ?case by auto
next
  case (3 c a b es)
  then have a: "a = c" "c < b" and IH: "b \<le> c'" "\<forall>k. b < k \<and> k \<le> c' \<longrightarrow>
      (Scanned k \<in> set es) \<noteq> (\<exists>a b. Skipped a b \<in> set es \<and> a < k \<and> k \<le> b)"
    by (auto split: if_splits)
  have rep: "replay b es = Some c'" using 3(2) a by simp
  have range: "b < h" if "Scanned h \<in> set es" "replay b es = Some c'" for h
    using that
  proof (induction b es rule: replay.induct)
    case (2 c h es)
    then show ?case by (fastforce split: if_splits)
  next
    case (3 c a' b' es)
    then show ?case by (fastforce split: if_splits)
  qed simp
  have "(Scanned k \<in> set (Skipped a b # es)) \<noteq>
      (\<exists>a' b'. Skipped a' b' \<in> set (Skipped a b # es) \<and> a' < k \<and> k \<le> b')" if k: "c < k" "k \<le> c'" for k
  proof (cases "k \<le> b")
    case True
    then have "Scanned k \<notin> set es" using range [OF _ rep, of k] by (meson leD)
    with True k a show ?thesis by auto
  next
    case False
    with IH k show ?thesis by (auto simp: not_le)
  qed
  with IH a show ?case by auto
qed

text \<open>C18: no height is lost. Whatever the nodes answer, in whatever sessions, every height from
  the start to the cursor was either scanned or skipped by a recovery, never both; the
  cursor never moves back; and on a working database a restarted scanner starts at it.\<close>

theorem scanner_accounts_every_height:
  assumes "scanner_start env pool start_height c = Inr s0" and "sql_healthy c"
    and "unat (cursor s0) < 2 ^ 63" and "list_all round_ok rds"
    and "run_scanner pool timeout depth rds s0 = s"
  shows "cursor s0 \<le> cursor s
    \<and> (\<forall>h. cursor s0 < h \<and> h \<le> cursor s \<longrightarrow>
        (Scanned h \<in> set (history s)) \<noteq> (\<exists>a b. Skipped a b \<in> set (history s) \<and> a < h \<and> h \<le> b))
    \<and> (\<forall>env' pool' start'. map_sum id cursor (scanner_start env' pool' start' (scan_store s))
        = Inr (cursor s))"
proof -
  from scanner_start_ok [OF assms(1-3)] have "scanner_ok (cursor s0) s0" by simp
  from scanner_ok_run [OF this assms(4), of pool timeout depth] assms(5)
  have ok: "scanner_ok (cursor s0) s" by simp
  then have "fst (load_height (scan_store s)) = Inr (Some (cursor s))"
    by (simp add: scanner_ok_def load_height_healthy)
  then have "map_sum id cursor (scanner_start env' pool' start' (scan_store s)) = Inr (cursor s)"
    for env' pool' start'
    by (simp add: scanner_start_def Let_def split_beta)
  moreover have "replay (cursor s0) (history s) = Some (cursor s)"
    using ok by (simp add: scanner_ok_def accounted_def)
  ultimately show ?thesis using replay_covers by blast
qed

text \<open>an outage never skips anything. While no configured node answers, a failed session leaves
  the cursor where it is, however long it lasts.\<close>

theorem outage_never_skips:
  assumes "\<forall>ep \<in> set pool. \<exists>e. status env ep = Inl e"
  shows "cursor (recover_pruned env pool timeout depth now later s) = cursor s
    \<and> history (recover_pruned env pool timeout depth now later s) = history s"
proof -
  have "gather_height_evidence env pool (cursor s + 1) depth = []"
    using assms by (force simp: gather_height_evidence_def map_filter_def filter_empty_conv
        endpoint_evidence_def)
  then have "assess_evidence (gather_height_evidence env pool (cursor s + 1) depth) (length pool)
      (cursor s + 1) = Wait"
    by (simp add: assess_evidence_def)
  then show ?thesis by (simp add: recover_pruned_def Let_def)
qed

text \<open>C22: a pass over the blocks that succeeds reaches its target, and every watched recipient of
  every block up to it has been sent to the forward queue, block by block; a pass that fails
  has done so for the blocks before the one it failed on.\<close>

theorem scan_enqueues_every_deposit:
  assumes "scan_to env live ep target s = (r, s')"
  shows "(r = Inr () \<longrightarrow> cursor s' = max (cursor s) target)
    \<and> enqueued s' = enqueued s @ concat (map (\<lambda>h. case fetch_results env ep h of
          Inr b \<Rightarrow> matched live h b | Inl _ \<Rightarrow> [])
        (map of_nat [Suc (unat (cursor s))..<Suc (unat (cursor s'))]))"
proof -
  obtain bs where bs: "blocks_after (cursor s) (cursor s') bs"
    "enqueued s' = enqueued s @ concat (map (\<lambda>(h, b). matched live h b) bs)"
    "\<forall>(h, b) \<in> set bs. fetch_results env ep h = Inr b"
    "r = Inr () \<longrightarrow> cursor s' = max (cursor s) target"
    using scan_to_result [OF assms] by blast
  have "map (\<lambda>(h, b). matched live h b) bs = map (\<lambda>h. case fetch_results env ep h of
      Inr b \<Rightarrow> matched live h b | Inl _ \<Rightarrow> []) (map fst bs)"
    using bs(3) by auto
  with bs show ?thesis by (simp only: blocks_after_def)
qed

section \<open>Examples\<close>

definition example_pool :: "rpc_endpoint list" where
  "example_pool = [\<lparr>rpc_url = ''http://a:26657'', conn_url = ''http://a:26657'',
       ws_url = ''ws://a:26657/websocket''\<rparr>,
     \<lparr>rpc_url = ''http://b:26657'', conn_url = ''http://:tok@b:26657'',
       ws_url = ''ws://:tok@b:26657/websocket''\<rparr>]"

definition example_block :: block_results where
  "example_block = \<lparr>txs_results = Some [[\<lparr>kind = ''transfer'', attributes =
       [\<lparr>key_str = Some ''recipient'', value_str = Some ''a''\<rparr>,
        \<lparr>key_str = Some ''amount'', value_str = Some ''5utia''\<rparr>]\<rparr>]],
     finalize_block_events = [\<lparr>kind = ''coin_spent'', attributes = []\<rparr>],
     begin_block_events = None, end_block_events = None\<rparr>"

text \<open>The first node retains the heights from \<open>first\<close> to \<open>tip\<close>, the second is down.\<close>

definition example_rpc :: "u64 \<Rightarrow> u64 \<Rightarrow> rpc_env" where
  "example_rpc first tip = \<lparr>
     status = (\<lambda>ep. if rpc_url ep = ''http://a:26657''
       then Inr \<lparr>earliest_block_height = min first 1000, latest_block_height = min tip 1000\<rparr> else Inl ''refused''),
     fetch_results = (\<lambda>ep h. if rpc_url ep = ''http://a:26657'' \<and> first \<le> h then Inr example_block
       else Inl ''not available''),
     height_ok = (\<lambda>h. h < 9223372036854775808)\<rparr>"

lemma example_rpc_ok: "rpc_ok (example_rpc first tip)"
proof -
  have "unat (min h 1000) < 2 ^ 63" for h :: u64
  proof -
    have "min h 1000 \<le> 1000" by simp
    then have "unat (min h 1000) \<le> 1000" by (simp add: word_le_nat_alt)
    then show ?thesis by simp
  qed
  then show ?thesis by (auto simp: rpc_ok_def example_rpc_def word_less_nat_alt split: if_splits)
qed

definition example_live :: live_at where
  "example_live h = [(''a'', \<lparr>forward_addr = ''a'', dest_domain = 7, dest_recipient = [], token_id = [],
     custom_hook_id = None, custom_hook_metadata = None, created_at = []\<rparr>)]"

text \<open>The session scans two blocks and breaks; by then the node has pruned its past.\<close>

definition example_round :: round where
  "example_round = \<lparr>the_session = \<lparr>ws_connect = Inr (), ws_subscribe = Inr (),
       catch_up = example_rpc 1 45, catch_up_live = example_live, stream = [OtherEvent, StreamError]\<rparr>,
     recovery = example_rpc 50 53, now_at = 0, later_at = 1800\<rparr>"

lemma example_round_ok: "round_ok example_round"
  by (simp add: round_ok_def example_round_def example_rpc_ok)

theorem scanner_accounts_every_height_witness:
  "\<exists>s0. scanner_start (example_rpc 50 53) example_pool None example_store = Inr s0
   \<and> history (run_scanner example_pool 1800 2 [example_round] s0) = [Scanned 42, Scanned 43, Skipped 43 49]
   \<and> map_sum id cursor (scanner_start (example_rpc 50 53) example_pool None
       (scan_store (run_scanner example_pool 1800 2 [example_round] s0))) = Inr 49"
proof -
  obtain s0 where s0: "scanner_start (example_rpc 50 53) example_pool None example_store = Inr s0"
    and c0: "cursor s0 = 41"
    by (auto simp: scanner_start_def load_height_def store_height_def example_store_def io_defs
        read_height_def tbl_get_def Let_def)
  have "case scanner_start (example_rpc 50 53) example_pool None example_store of Inl _ \<Rightarrow> False
      | Inr s0 \<Rightarrow> history (run_scanner example_pool 1800 2 [example_round] s0)
            = [Scanned 42, Scanned 43, Skipped 43 49]
          \<and> cursor (run_scanner example_pool 1800 2 [example_round] s0) = 49"
    by code_simp
  then have h: "history (run_scanner example_pool 1800 2 [example_round] s0)
      = [Scanned 42, Scanned 43, Skipped 43 49]"
    and c: "cursor (run_scanner example_pool 1800 2 [example_round] s0) = 49"
    by (simp_all add: s0)
  have rds: "list_all round_ok [example_round]" by (simp add: example_round_ok)
  have "unat (cursor s0) < 2 ^ 63" by (simp add: c0)
  from scanner_accounts_every_height [OF s0 example_store_ok(1) this rds refl] c
  have "map_sum id cursor (scanner_start (example_rpc 50 53) example_pool None
       (scan_store (run_scanner example_pool 1800 2 [example_round] s0))) = Inr 49"
    by simp
  with s0 h show ?thesis by blast
qed

definition example_scanner :: scanner where
  "example_scanner = \<lparr>cursor = 41, pruned = Some (42, 0), current_endpoint = 0, scan_store = example_store,
     enqueued = [], history = [], scan_log = []\<rparr>"

theorem recover_skips_only_proven_witness:
  "\<exists>ep \<in> set example_pool. \<exists>st. status (example_rpc 50 53) ep = Inr st \<and> earliest_block_height st = 49 + 1"
proof -
  let ?s' = "recover_pruned (example_rpc 50 53) example_pool 1800 2 1800 1800 example_scanner"
  have c: "cursor ?s' = 49" by code_simp
  have "unat (cursor example_scanner) < 2 ^ 63" "cursor ?s' \<noteq> cursor example_scanner"
    by (simp_all add: c) (simp_all add: example_scanner_def)
  from recover_skips_only_proven [OF this(1) example_rpc_ok refl this(2)] c
  show ?thesis by (auto simp: example_scanner_def)
qed

theorem outage_never_skips_witness:
  "cursor (recover_pruned (example_rpc 50 53) [example_pool ! 1] 1800 2 0 999999 example_scanner) = 41"
proof -
  have "\<forall>ep \<in> set [example_pool ! 1]. \<exists>e. status (example_rpc 50 53) ep = Inl e"
    by (simp add: example_pool_def example_rpc_def)
  from outage_never_skips [OF this, of 1800 2 0 999999 example_scanner] show ?thesis
    by (simp add: example_scanner_def)
qed

theorem scan_enqueues_every_deposit_witness:
  "enqueued (snd (scan_to (example_rpc 50 53) example_live (example_pool ! 0) 51
     (example_scanner\<lparr>cursor := 49\<rparr>))) = [''a'', ''a'']"
proof -
  let ?s = "example_scanner\<lparr>cursor := 49\<rparr>"
  obtain r s' where eq: "scan_to (example_rpc 50 53) example_live (example_pool ! 0) 51 ?s = (r, s')"
    by fastforce
  have "fst (scan_to (example_rpc 50 53) example_live (example_pool ! 0) 51 ?s) = Inr ()"
    by code_simp
  then have r: "r = Inr ()" by (simp add: eq)
  note res = scan_enqueues_every_deposit [OF eq]
  have "cursor s' = 51" using res r by (simp add: example_scanner_def max_def)
  then have upt: "[Suc (unat (cursor ?s))..<Suc (unat (cursor s'))] = [50, 51]"
    by (simp add: upt_rec)
  have "enqueued s' = enqueued ?s @ concat (map (\<lambda>h. case fetch_results (example_rpc 50 53) (example_pool ! 0) h of
      Inr b \<Rightarrow> matched example_live h b | Inl _ \<Rightarrow> []) (map of_nat [50, 51]))"
    using res unfolding upt by blast
  also have "\<dots> = [''a'', ''a'']" by code_simp
  finally show ?thesis by (simp add: eq)
qed

text \<open>Without a persisted or configured height, a start while no node answers ends the scanner.\<close>

lemma scanner_needs_a_node:
  assumes "fst (load_height c) = Inr None" and "\<forall>ep \<in> set pool. \<exists>e. status env ep = Inl e"
    and "rpc_pool_new http_new rpc_urls = Inr pool"
  shows "run_block_scanner http_new env rpc_urls None depth timeout rds c
    = Inl ''All RPC endpoints failed to return chain status''"
proof -
  have "try_each (\<lambda>i. current_height env (pool ! i)) [0..<length pool] None \<noteq> Inr (i, h)" for i h
  proof
    assume "try_each (\<lambda>i. current_height env (pool ! i)) [0..<length pool] None = Inr (i, h)"
    then obtain before after where eq: "[0..<length pool] = before @ i # after"
      and op: "current_height env (pool ! i) = Inr h"
      by (auto simp: try_each_Inr_iff)
    have "i \<in> set (before @ i # after)" by simp
    then have "i < length pool" unfolding eq [symmetric] by simp
    with op have "pool ! i \<in> set pool" "\<exists>st. status env (pool ! i) = Inr st"
      by (auto simp: current_height_def with_context_def split: sum.splits)
    with assms(2) show False by fastforce
  qed
  then have "pool_current_height env pool = Inl ''All RPC endpoints failed to return chain status''"
    by (auto simp: pool_current_height_def split: sum.splits)
  then show ?thesis
    using assms(1,3) by (simp add: run_block_scanner_def scanner_start_def Let_def split_beta)
qed



end
