(* ===== verification/Dispatcher.thy ===== *)
theory Dispatcher
  imports Steps Scanner "HOL-Library.Multiset"
begin

text \<open>
  \<^verbatim>\<open>src/relayer.rs\<close>, lines 611-738 and the loops at 955-999: the tasks \<^verbatim>\<open>Relayer::run\<close> starts
  (maintenance, balance poll, signer balance, block scanner), the bounded queue between them
  and the dispatcher, and the workers the dispatcher spawns, as one step relation that
  interleaves them freely. A step is what one task does between two awaits: forwards and ticks
  advance by the pieces of \<open>Steps\<close>, a blocked send is a step that is not enabled. The part
  of the scanner that touches shared state is here; which heights it scans is in \<open>Scanner\<close>.
\<close>

section \<open>Systems that drain\<close>

text \<open>
  A transition system whose internal steps use up a finite amount of work, are never
  stuck while the system is not idle, and keep every obligation until it is served. The
  consequences are proved once: runs are short, the work gets done, and what was owed
  when a run began is served by the time the system is idle.
\<close>

inductive run :: "('s \<Rightarrow> 'a \<Rightarrow> 's \<Rightarrow> bool) \<Rightarrow> 's \<Rightarrow> 'a list \<Rightarrow> 's \<Rightarrow> bool"
  for step :: "'s \<Rightarrow> 'a \<Rightarrow> 's \<Rightarrow> bool" where
  run_Nil: "run step s [] s"
| run_Cons: "step s a s' \<Longrightarrow> run step s' as s'' \<Longrightarrow> run step s (a # as) s''"

inductive_simps run_Nil_iff [simp]: "run step s [] s'"
inductive_simps run_Cons_iff: "run step s (a # as) s'"

lemma run_append: "run step s (as @ bs) s'' \<longleftrightarrow> (\<exists>s'. run step s as s' \<and> run step s' bs s'')"
  by (induction as arbitrary: s) (auto simp: run_Cons_iff)

lemma run_invariant:
  assumes "run step s as s'" and "ok s"
    and "\<And>s a s'. ok s \<Longrightarrow> step s a s' \<Longrightarrow> ok s'"
  shows "ok s'"
  using assms(1,2) by induction (blast intro: assms(3))+

locale draining =
  fixes step :: "'s \<Rightarrow> 'a \<Rightarrow> 's \<Rightarrow> bool"
    and ok idle :: "'s \<Rightarrow> bool"
    and work :: "'s \<Rightarrow> nat"
    and owed :: "'s \<Rightarrow> 'k \<Rightarrow> bool"
    and serves :: "'a \<Rightarrow> 'k \<Rightarrow> bool"
  assumes ok_step: "ok s \<Longrightarrow> step s a s' \<Longrightarrow> ok s'"
    and work_step: "ok s \<Longrightarrow> step s a s' \<Longrightarrow> work s' < work s"
    and progress: "ok s \<Longrightarrow> \<not> idle s \<Longrightarrow> \<exists>a s'. step s a s'"
    and owed_step: "ok s \<Longrightarrow> step s a s' \<Longrightarrow> owed s k \<Longrightarrow> owed s' k \<or> serves a k"
    and idle_owes: "idle s \<Longrightarrow> \<not> owed s k"
begin

lemma run_ok: "run step s as s' \<Longrightarrow> ok s \<Longrightarrow> ok s'"
  by (induction rule: run.induct) (blast intro: ok_step)+

lemma run_work: "run step s as s' \<Longrightarrow> ok s \<Longrightarrow> length as + work s' \<le> work s"
proof (induction rule: run.induct)
  case (run_Cons s a s' as s'')
  with ok_step work_step [of s a s'] show ?case by force
qed simp

lemma run_owed:
  "run step s as s' \<Longrightarrow> ok s \<Longrightarrow> owed s k \<Longrightarrow> owed s' k \<or> (\<exists>a \<in> set as. serves a k)"
proof (induction rule: run.induct)
  case (run_Cons s a s' as s'')
  with ok_step owed_step show ?case by (meson list.set_intros)
qed simp

lemma drains: "ok s \<Longrightarrow> \<exists>as s'. run step s as s' \<and> idle s'"
proof (induction s rule: measure_induct_rule [of work])
  case (less s)
  show ?case
  proof (cases "idle s")
    case False
    then obtain a s1 where "step s a s1" using progress less.prems by blast
    with less work_step ok_step show ?thesis by (meson run_Cons)
  qed (blast intro: run_Nil)
qed

lemma stuck_is_idle: "ok s \<Longrightarrow> \<nexists>a s'. step s a s' \<Longrightarrow> idle s"
  using progress by blast

lemma served:
  assumes "run step s as s'" and "ok s" and "idle s'" and "owed s k"
  shows "\<exists>a \<in> set as. serves a k"
  using run_owed [OF assms(1,2,4)] idle_owes [OF assms(3)] by blast

end

section \<open>State\<close>

datatype worker =
    Working forward_stage
  | Leaving string bool
  | Requeueing string

datatype producer = Maintenance | BalancePoll | BlockScanner

text \<open>
  \<open>receiving\<close> is the address taken from the queue whose worker waits for a permit;
  \<open>outbox p\<close> what the producer \<open>p\<close> has still to send, blocked while the queue is full;
  \<open>maintenance\<close> how far the tick is, \<open>polling\<close> the size of the sweep being sent, \<open>scanning\<close>
  the block whose deposits are being sent.
\<close>

record 'b system =
  shared :: relayer_state
  backend :: 'b
  queue :: "string list"
  receiving :: "string option"
  in_flight :: "(string, bool) hmap"
  workers :: "worker multiset"
  permits :: nat
  outbox :: "producer \<Rightarrow> string list"
  maintenance :: tick_stage
  polling :: "nat option"
  scanning :: "u64 option"

definition run_relayer :: "relayer_state \<Rightarrow> 'b \<Rightarrow> 'b system" where
  "run_relayer r b = \<lparr>shared = r, backend = b, queue = [], receiving = None, in_flight = [],
     workers = {#}, permits = max 1 (forward_concurrency (config r)), outbox = (\<lambda>_. []),
     maintenance = Sleeping, polling = None, scanning = None\<rparr>"

section \<open>Steps\<close>

datatype action =
    Ticked int
  | TickOn
  | DueRetried
  | Polled
  | PollCounted
  | SignerRefreshed grpc_env
  | BlockFound u64 block_results
  | BlockDone
  | HeightsSkipped string nat u64
  | Send producer
  | MarkDirty
  | Accept
  | Spawn
  | Work grpc_env forward_clock forward_stage
  | Finish string
  | Release string bool
  | Requeue string

text \<open>What happens by itself, as opposed to what timers, blocks and clients cause.\<close>

fun internal :: "action \<Rightarrow> bool" where
  "internal (Ticked _) = False"
| "internal DueRetried = False"
| "internal Polled = False"
| "internal (SignerRefreshed _) = False"
| "internal (BlockFound _ _) = False"
| "internal (HeightsSkipped _ _ _) = False"
| "internal _ = True"

definition swap_worker :: "worker \<Rightarrow> worker \<Rightarrow> worker multiset \<Rightarrow> worker multiset" where
  "swap_worker w w' ws = add_mset w' (ws - {#w#})"

definition sent_by :: "producer \<Rightarrow> relayer_state \<Rightarrow> relayer_state" where
  "sent_by p r = (case p of BlockScanner \<Rightarrow> count_deposit r | _ \<Rightarrow> r)"

fun retiring :: "tick_stage \<Rightarrow> bool" where
  "retiring (Retiring _ _ _ _) = True"
| "retiring _ = False"

fun probing :: "tick_stage \<Rightarrow> bool" where
  "probing (Probing _) = True"
| "probing _ = False"

inductive sys_step ::
  "'b backend_link \<Rightarrow> chrono \<Rightarrow> 'b system \<Rightarrow> action \<Rightarrow> 'b system \<Rightarrow> bool"
  for link :: "'b backend_link" and ch :: chrono where
  ticked:
    "maintenance s = Sleeping \<Longrightarrow> outbox s Maintenance = [] \<Longrightarrow>
     tick_piece link ch now Sleeping (shared s, backend s) = (g, sent, r, b) \<Longrightarrow>
     sys_step link ch s (Ticked now) (s\<lparr>shared := r, backend := b, maintenance := g\<rparr>)"
| tick_on:
    "retiring (maintenance s) \<Longrightarrow>
     tick_piece link ch 0 (maintenance s) (shared s, backend s) = (g, sent, r, b) \<Longrightarrow>
     sys_step link ch s TickOn
       (s\<lparr>shared := r, backend := b, maintenance := g,
          outbox := (outbox s)(Maintenance := outbox s Maintenance @ sent)\<rparr>)"
| due_retried:
    "probing (maintenance s) \<Longrightarrow> outbox s Maintenance = [] \<Longrightarrow>
     tick_piece link ch 0 (maintenance s) (shared s, backend s) = (g, sent, r, b) \<Longrightarrow>
     sys_step link ch s DueRetried
       (s\<lparr>shared := r, backend := b, maintenance := g, outbox := (outbox s)(Maintenance := sent)\<rparr>)"
| polled:
    "polling s = None \<Longrightarrow> outbox s BalancePoll = [] \<Longrightarrow> 0 < balance_poll_interval (config (shared s)) \<Longrightarrow>
     sys_step link ch s Polled
       (s\<lparr>polling := Some (length (hm_keys (live (shared s)))),
          outbox := (outbox s)(BalancePoll := hm_keys (live (shared s)))\<rparr>)"
| poll_counted:
    "polling s = Some n \<Longrightarrow> outbox s BalancePoll = [] \<Longrightarrow>
     sys_step link ch s PollCounted (s\<lparr>polling := None, shared := count_poll n (shared s)\<rparr>)"
| signer_refreshed:
    "sys_step link ch s (SignerRefreshed env)
       (s\<lparr>shared := snd (refresh_signer_balance_metrics env (shared s))\<rparr>)"
| block_found:
    "scanning s = None \<Longrightarrow> outbox s BlockScanner = [] \<Longrightarrow>
     sys_step link ch s (BlockFound height results)
       (s\<lparr>scanning := Some height,
          outbox := (outbox s)(BlockScanner := matched (\<lambda>_. live (shared s)) height results)\<rparr>)"
| block_done:
    "scanning s = Some height \<Longrightarrow> outbox s BlockScanner = [] \<Longrightarrow>
     sys_step link ch s BlockDone (s\<lparr>scanning := None, shared := block_scanned height (shared s)\<rparr>)"
| heights_skipped:
    "scanning s = None \<Longrightarrow> outbox s BlockScanner = [] \<Longrightarrow>
     sys_step link ch s (HeightsSkipped reason n new_cursor)
       (s\<lparr>shared := heights_skipped reason n new_cursor (shared s)\<rparr>)"
| send:
    "outbox s p = a # rest \<Longrightarrow> length (queue s) < FORWARD_QUEUE_CAPACITY \<Longrightarrow>
     sys_step link ch s (Send p)
       (s\<lparr>outbox := (outbox s)(p := rest), queue := queue s @ [a], shared := sent_by p (shared s)\<rparr>)"
| mark_dirty:
    "receiving s = None \<Longrightarrow> queue s = a # rest \<Longrightarrow> hm_get (in_flight s) a = Some d \<Longrightarrow>
     sys_step link ch s MarkDirty (s\<lparr>queue := rest, in_flight := hm_insert a True (in_flight s)\<rparr>)"
| accept:
    "receiving s = None \<Longrightarrow> queue s = a # rest \<Longrightarrow> hm_get (in_flight s) a = None \<Longrightarrow>
     sys_step link ch s Accept
       (s\<lparr>queue := rest, in_flight := hm_insert a False (in_flight s), receiving := Some a\<rparr>)"
| spawn:
    "receiving s = Some a \<Longrightarrow> 0 < permits s \<Longrightarrow>
     sys_step link ch s Spawn
       (s\<lparr>receiving := None, permits := permits s - 1,
          workers := add_mset (Working (Begun a)) (workers s)\<rparr>)"
| work:
    "Working g \<in># workers s \<Longrightarrow> 0 < stage_left g \<Longrightarrow>
     forward_piece env ch clk g (shared s) = (g', r) \<Longrightarrow>
     sys_step link ch s (Work env clk g)
       (s\<lparr>shared := r, workers := swap_worker (Working g) (Working g') (workers s)\<rparr>)"
| finish:
    "Working (Ended a) \<in># workers s \<Longrightarrow> requeue = (hm_get (in_flight s) a = Some True) \<Longrightarrow>
     sys_step link ch s (Finish a)
       (s\<lparr>in_flight := hm_remove a (in_flight s),
          workers := swap_worker (Working (Ended a)) (Leaving a requeue) (workers s)\<rparr>)"
| release:
    "Leaving a requeue \<in># workers s \<Longrightarrow>
     sys_step link ch s (Release a requeue)
       (s\<lparr>permits := permits s + 1,
          workers := (if requeue then swap_worker (Leaving a True) (Requeueing a) (workers s)
                      else workers s - {#Leaving a False#})\<rparr>)"
| requeue:
    "Requeueing a \<in># workers s \<Longrightarrow> length (queue s) < FORWARD_QUEUE_CAPACITY \<Longrightarrow>
     sys_step link ch s (Requeue a)
       (s\<lparr>queue := queue s @ [a], workers := workers s - {#Requeueing a#}\<rparr>)"

text \<open>
  An action determines its effect: the same steps as a function, for running the system.
\<close>

fun sys_exec :: "'b backend_link \<Rightarrow> chrono \<Rightarrow> action \<Rightarrow> 'b system \<Rightarrow> 'b system option" where
  "sys_exec link ch (Ticked now) s =
     (if maintenance s = Sleeping \<and> outbox s Maintenance = []
      then (case tick_piece link ch now Sleeping (shared s, backend s) of (g, sent, r, b) \<Rightarrow>
        Some (s\<lparr>shared := r, backend := b, maintenance := g\<rparr>))
      else None)"
| "sys_exec link ch TickOn s =
     (if retiring (maintenance s)
      then (case tick_piece link ch 0 (maintenance s) (shared s, backend s) of (g, sent, r, b) \<Rightarrow>
        Some (s\<lparr>shared := r, backend := b, maintenance := g,
          outbox := (outbox s)(Maintenance := outbox s Maintenance @ sent)\<rparr>))
      else None)"
| "sys_exec link ch DueRetried s =
     (if probing (maintenance s) \<and> outbox s Maintenance = []
      then (case tick_piece link ch 0 (maintenance s) (shared s, backend s) of (g, sent, r, b) \<Rightarrow>
        Some (s\<lparr>shared := r, backend := b, maintenance := g, outbox := (outbox s)(Maintenance := sent)\<rparr>))
      else None)"
| "sys_exec link ch Polled s =
     (if polling s = None \<and> outbox s BalancePoll = [] \<and> 0 < balance_poll_interval (config (shared s))
      then Some (s\<lparr>polling := Some (length (hm_keys (live (shared s)))),
             outbox := (outbox s)(BalancePoll := hm_keys (live (shared s)))\<rparr>)
      else None)"
| "sys_exec link ch PollCounted s =
     (case polling s of
        Some n \<Rightarrow>
          if outbox s BalancePoll = [] then Some (s\<lparr>polling := None, shared := count_poll n (shared s)\<rparr>)
          else None
      | None \<Rightarrow> None)"
| "sys_exec link ch (SignerRefreshed env) s =
     Some (s\<lparr>shared := snd (refresh_signer_balance_metrics env (shared s))\<rparr>)"
| "sys_exec link ch (BlockFound height results) s =
     (if scanning s = None \<and> outbox s BlockScanner = []
      then Some (s\<lparr>scanning := Some height,
        outbox := (outbox s)(BlockScanner := matched (\<lambda>_. live (shared s)) height results)\<rparr>)
      else None)"
| "sys_exec link ch BlockDone s =
     (case scanning s of
        Some height \<Rightarrow>
          if outbox s BlockScanner = []
          then Some (s\<lparr>scanning := None, shared := block_scanned height (shared s)\<rparr>) else None
      | None \<Rightarrow> None)"
| "sys_exec link ch (HeightsSkipped reason n new_cursor) s =
     (if scanning s = None \<and> outbox s BlockScanner = []
      then Some (s\<lparr>shared := heights_skipped reason n new_cursor (shared s)\<rparr>) else None)"
| "sys_exec link ch (Send p) s =
     (case outbox s p of
        a # rest \<Rightarrow>
          if length (queue s) < FORWARD_QUEUE_CAPACITY
          then Some (s\<lparr>outbox := (outbox s)(p := rest), queue := queue s @ [a],
                 shared := sent_by p (shared s)\<rparr>)
          else None
      | [] \<Rightarrow> None)"
| "sys_exec link ch MarkDirty s =
     (case (receiving s, queue s) of
        (None, a # rest) \<Rightarrow>
          if hm_get (in_flight s) a = None then None
          else Some (s\<lparr>queue := rest, in_flight := hm_insert a True (in_flight s)\<rparr>)
      | _ \<Rightarrow> None)"
| "sys_exec link ch Accept s =
     (case (receiving s, queue s) of
        (None, a # rest) \<Rightarrow>
          if hm_get (in_flight s) a = None
          then Some (s\<lparr>queue := rest, in_flight := hm_insert a False (in_flight s), receiving := Some a\<rparr>)
          else None
      | _ \<Rightarrow> None)"
| "sys_exec link ch Spawn s =
     (case receiving s of
        Some a \<Rightarrow>
          if 0 < permits s
          then Some (s\<lparr>receiving := None, permits := permits s - 1,
                 workers := add_mset (Working (Begun a)) (workers s)\<rparr>)
          else None
      | None \<Rightarrow> None)"
| "sys_exec link ch (Work env clk g) s =
     (if Working g \<in># workers s \<and> 0 < stage_left g
      then (case forward_piece env ch clk g (shared s) of (g', r) \<Rightarrow>
        Some (s\<lparr>shared := r, workers := swap_worker (Working g) (Working g') (workers s)\<rparr>))
      else None)"
| "sys_exec link ch (Finish a) s =
     (if Working (Ended a) \<in># workers s
      then Some (s\<lparr>in_flight := hm_remove a (in_flight s),
             workers := swap_worker (Working (Ended a))
               (Leaving a (hm_get (in_flight s) a = Some True)) (workers s)\<rparr>)
      else None)"
| "sys_exec link ch (Release a requeue) s =
     (if Leaving a requeue \<in># workers s
      then Some (s\<lparr>permits := permits s + 1,
             workers := (if requeue then swap_worker (Leaving a True) (Requeueing a) (workers s)
                         else workers s - {#Leaving a False#})\<rparr>)
      else None)"
| "sys_exec link ch (Requeue a) s =
     (if Requeueing a \<in># workers s \<and> length (queue s) < FORWARD_QUEUE_CAPACITY
      then Some (s\<lparr>queue := queue s @ [a], workers := workers s - {#Requeueing a#}\<rparr>) else None)"

lemma sys_step_exec: "sys_step link ch s act s' \<Longrightarrow> sys_exec link ch act s = Some s'"
  by (induction rule: sys_step.induct) simp_all

lemma sys_exec_step: "sys_exec link ch act s = Some s' \<Longrightarrow> sys_step link ch s act s'"
  by (cases act)
    (auto split: if_splits option.splits list.splits prod.splits intro: sys_step.intros
      sys_step.spawn [simplified] sys_step.release [where requeue = True, simplified]
      sys_step.release [where requeue = False, simplified])

lemma sys_step_iff: "sys_step link ch s act s' \<longleftrightarrow> sys_exec link ch act s = Some s'"
  using sys_step_exec sys_exec_step by blast

lemma sys_step_backend:
  assumes "sys_step link ch s act s'"
  shows "backend s' = backend s \<or> backend s' = snd (http_get link (backend s))
    \<or> (\<exists>a. backend s' = snd (http_delete link a (backend s)))"
  using assms
proof cases
  case (ticked now g sent r b)
  with tick_piece_backend [OF ticked(5)] show ?thesis by simp
next
  case (tick_on g sent r b)
  with tick_piece_backend [OF tick_on(4)] show ?thesis by simp
next
  case (due_retried g sent r b)
  with tick_piece_backend [OF due_retried(5)] show ?thesis by simp
qed simp_all

fun sys_run :: "'b backend_link \<Rightarrow> chrono \<Rightarrow> action list \<Rightarrow> 'b system \<Rightarrow> 'b system option" where
  "sys_run link ch [] s = Some s"
| "sys_run link ch (act # acts) s =
     (case sys_exec link ch act s of None \<Rightarrow> None | Some s' \<Rightarrow> sys_run link ch acts s')"

lemma run_sys_run: "run (sys_step link ch) s acts s' \<longleftrightarrow> sys_run link ch acts s = Some s'"
  by (induction acts arbitrary: s) (auto simp: run_Cons_iff sys_step_iff split: option.splits)

section \<open>Deduplication and permits\<close>

fun busy_of :: "worker \<Rightarrow> string multiset" where
  "busy_of (Working g) = {#stage_addr g#}"
| "busy_of _ = {#}"

fun permits_of :: "worker \<Rightarrow> nat" where
  "permits_of (Requeueing _) = 0"
| "permits_of _ = 1"

definition busy :: "'b system \<Rightarrow> string multiset" where
  "busy s = (case receiving s of Some a \<Rightarrow> {#a#} | None \<Rightarrow> {#}) + (\<Sum>w\<in>#workers s. busy_of w)"

definition holders :: "worker multiset \<Rightarrow> nat" where
  "holders ws = (\<Sum>w\<in>#ws. permits_of w)"

definition system_ok :: "nat \<Rightarrow> 'b system \<Rightarrow> bool" where
  "system_ok n s \<longleftrightarrow> 0 < n \<and> permits s + holders (workers s) = n
     \<and> hm_wf (in_flight s) \<and> busy s = mset (hm_keys (in_flight s))
     \<and> length (queue s) \<le> FORWARD_QUEUE_CAPACITY"

lemma hm_keys_insert:
  "hm_keys (hm_insert k v m) = (if k \<in> set (map fst m) then hm_keys m else hm_keys m @ [k])"
  by (simp add: hm_keys_def update_keys)

lemma mset_hm_keys_remove:
  "hm_wf m \<Longrightarrow> mset (hm_keys (hm_remove k m)) = mset (hm_keys m) - {#k#}"
  by (induction m) (auto simp: hm_keys_def AList.delete_eq)

lemma swap_worker_add [simp]: "swap_worker w w' (add_mset w ws) = add_mset w' ws"
  by (simp add: swap_worker_def)

lemma holders_add [simp]: "holders (add_mset w ws) = permits_of w + holders ws"
  by (simp add: holders_def)

lemma system_ok_step:
  assumes "system_ok n s" and "sys_step link ch s act s'"
  shows "system_ok n s'"
  using assms(2)
proof cases
  case (accept a rest)
  with assms(1) show ?thesis
    by (auto simp: system_ok_def busy_def hm_keys_insert map_of_eq_None_iff distinct_update)
next
  case (mark_dirty a rest d)
  then have "a \<in> set (map fst (in_flight s))" by (metis domI dom_map_of_conv_image_fst set_map)
  with assms(1) mark_dirty show ?thesis
    by (auto simp: system_ok_def busy_def hm_keys_insert distinct_update)
next
  case (spawn a)
  with assms(1) show ?thesis by (auto simp: system_ok_def busy_def)
next
  case (work g env clk g' r)
  then obtain ws where "workers s = add_mset (Working g) ws" by (meson multi_member_split)
  with assms(1) work forward_piece_stage [OF work(5)] show ?thesis by (auto simp: system_ok_def busy_def)
next
  case (finish a r)
  then obtain ws where "workers s = add_mset (Working (Ended a)) ws" by (meson multi_member_split)
  with assms(1) finish show ?thesis
    by (auto simp: system_ok_def busy_def mset_hm_keys_remove distinct_delete)
      (metis add_mset_remove_trivial)+
next
  case (release a r)
  then obtain ws where "workers s = add_mset (Leaving a r) ws" by (meson multi_member_split)
  with assms(1) release show ?thesis by (auto simp: system_ok_def busy_def)
next
  case (requeue a)
  then obtain ws where "workers s = add_mset (Requeueing a) ws" by (meson multi_member_split)
  with assms(1) requeue show ?thesis by (auto simp: system_ok_def busy_def)
qed (use assms(1) in \<open>auto simp: system_ok_def busy_def\<close>)

lemma system_ok_init: "system_ok (max 1 (forward_concurrency (config r))) (run_relayer r b)"
  by (simp add: system_ok_def run_relayer_def busy_def holders_def hm_keys_def)


section \<open>Draining\<close>

text \<open>
  A trigger is worth what is left to do for it: an address taken into flight becomes a
  worker, one that is in flight already a mark, and finishing a marked one pays for its
  second turn.
\<close>

fun worker_work :: "worker \<Rightarrow> nat" where
  "worker_work (Working g) = 9 + stage_left g"
| "worker_work (Leaving _ r) = (if r then 17 else 1)"
| "worker_work (Requeueing _) = 16"

fun tick_work :: "tick_stage \<Rightarrow> nat" where
  "tick_work (Retiring _ rrs _ new) = 1 + length rrs + 16 * length new"
| "tick_work _ = 0"

definition marks :: "(string, bool) hmap \<Rightarrow> nat" where
  "marks m = length (filter snd m)"

definition pending :: "'b system \<Rightarrow> nat" where
  "pending s = length (outbox s Maintenance) + length (outbox s BalancePoll)
     + length (outbox s BlockScanner)"

definition system_work :: "'b system \<Rightarrow> nat" where
  "system_work s = 16 * pending s + 15 * length (queue s)
     + (if receiving s = None then 0 else 14) + 9 * marks (in_flight s)
     + (\<Sum>w\<in>#workers s. worker_work w) + tick_work (maintenance s)
     + (if polling s = None then 0 else 1) + (if scanning s = None then 0 else 1)"

definition system_idle :: "'b system \<Rightarrow> bool" where
  "system_idle s \<longleftrightarrow> (\<forall>p. outbox s p = []) \<and> queue s = [] \<and> receiving s = None
     \<and> workers s = {#} \<and> in_flight s = [] \<and> \<not> retiring (maintenance s) \<and> polling s = None
     \<and> scanning s = None"

lemma marks_insert_True:
  "map_of m k = Some d \<Longrightarrow> marks (hm_insert k True m) \<le> Suc (marks m)"
  by (induction m) (auto simp: marks_def split: if_splits)

lemma marks_insert_new: "map_of m k = None \<Longrightarrow> marks (hm_insert k False m) = marks m"
  by (induction m) (auto simp: marks_def split: if_splits)

lemma marks_remove:
  "hm_wf m \<Longrightarrow> marks (hm_remove k m) + (if map_of m k = Some True then 1 else 0) = marks m"
proof (induction m)
  case (Cons x m)
  show ?case
  proof (cases "fst x = k")
    case True
    with Cons.prems have "k \<notin> fst ` set m" by auto
    then have "hm_remove k m = m" by (simp add: delete_id)
    with True Cons show ?thesis by (cases x) (auto simp: marks_def AList.delete_eq)
  next
    case False
    with Cons show ?thesis by (cases x) (auto simp: marks_def AList.delete_eq)
  qed
qed (simp add: marks_def)

lemma pending_send: "outbox s p = a # rest \<Longrightarrow> pending s = Suc (pending (s\<lparr>outbox := (outbox s)(p := rest)\<rparr>))"
  by (cases p) (simp_all add: pending_def)

lemma pending_frame [simp]:
  "pending (s\<lparr>queue := q\<rparr>) = pending s" "pending (s\<lparr>in_flight := f\<rparr>) = pending s"
  "pending (s\<lparr>receiving := r\<rparr>) = pending s" "pending (s\<lparr>workers := ws\<rparr>) = pending s"
  "pending (s\<lparr>permits := n\<rparr>) = pending s" "pending (s\<lparr>shared := sh\<rparr>) = pending s"
  "pending (s\<lparr>scanning := sc\<rparr>) = pending s" "pending (s\<lparr>polling := po\<rparr>) = pending s"
  "pending (s\<lparr>maintenance := g\<rparr>) = pending s" "pending (s\<lparr>backend := b\<rparr>) = pending s"
  by (simp_all add: pending_def)

lemma system_work_step:
  assumes "system_ok n s" and "sys_step link ch s act s'" and "internal act"
  shows "system_work s' < system_work s"
  using assms(2)
proof cases
  case (tick_on g sent r b)
  have "pending s' = pending s + length sent" by (simp add: tick_on pending_def)
  moreover have "tick_work g + 16 * length sent < tick_work (maintenance s)"
    using tick_on(3,4) by (cases "(link, ch, 0 :: int, maintenance s, (shared s, backend s))" rule: tick_piece.cases)
      auto
  ultimately show ?thesis by (simp add: tick_on system_work_def)
next
  case (send p a rest)
  from pending_send [OF send(3)] show ?thesis by (simp add: send system_work_def pending_def)
next
  case (mark_dirty a rest d)
  from marks_insert_True [OF mark_dirty(5)] show ?thesis by (simp add: mark_dirty system_work_def)
next
  case (accept a rest)
  from marks_insert_new [OF accept(5)] show ?thesis by (simp add: accept system_work_def)
next
  case (work g env clk g' r)
  then obtain ws where "workers s = add_mset (Working g) ws" by (meson multi_member_split)
  with forward_piece_stage [OF work(5)] work(4) show ?thesis by (simp add: work system_work_def)
next
  case (finish a r)
  then obtain ws where "workers s = add_mset (Working (Ended a)) ws" by (meson multi_member_split)
  with marks_remove [of "in_flight s" a] assms(1) finish show ?thesis
    by (auto simp: system_work_def system_ok_def split: if_splits)
next
  case (release a r)
  then obtain ws where "workers s = add_mset (Leaving a r) ws" by (meson multi_member_split)
  then show ?thesis by (simp add: release system_work_def)
next
  case (requeue a)
  then obtain ws where "workers s = add_mset (Requeueing a) ws" by (meson multi_member_split)
  then show ?thesis by (simp add: requeue system_work_def)
qed (use assms(3) in \<open>simp_all add: system_work_def\<close>)


text \<open>A worker that still holds its permit can always take its next step.\<close>

lemma holder_steps:
  assumes "w \<in># workers s" and "permits_of w = 1"
  shows "\<exists>act s'. sys_step link ch s act s' \<and> internal act"
proof (cases w)
  case (Working g)
  show ?thesis
  proof (cases "0 < stage_left g")
    case True
    obtain env clk g' r where "forward_piece env ch clk g (shared s) = (g', r)" by (metis surj_pair)
    from sys_step.work [OF _ True this] Working assms(1) show ?thesis by (meson internal.simps)
  next
    case False
    then obtain a where "g = Ended a" by (cases g) auto
    with Working assms sys_step.finish [OF _ refl] show ?thesis by (meson internal.simps)
  qed
next
  case (Leaving a r)
  with assms sys_step.release show ?thesis by (meson internal.simps)
qed (use assms in simp)

lemma busy_empty: "busy s = {#} \<Longrightarrow> system_ok n s \<Longrightarrow> in_flight s = []"
  by (simp add: system_ok_def hm_keys_def)

text \<open>
  The queue and the permits cannot block each other: a worker waiting for the queue
  holds no permit, so while the queue is full the dispatcher can go on.
\<close>

lemma system_progress:
  assumes "system_ok n s" and "\<not> system_idle s"
  shows "\<exists>act s'. sys_step link ch s act s' \<and> internal act"
proof (cases "\<exists>w \<in># workers s. permits_of w = 1")
  case True
  with holder_steps show ?thesis by blast
next
  case False
  have waiting: "\<exists>a. w = Requeueing a" if "w \<in># workers s" for w
    using False that by (cases w) auto
  have "holders (workers s) = 0"
    unfolding holders_def using waiting by (intro sum_mset.neutral ballI) fastforce
  with assms(1) have permits: "0 < permits s" by (simp add: system_ok_def)
  show ?thesis
  proof (cases "receiving s")
    case (Some a)
    from sys_step.spawn [OF this permits] show ?thesis by (meson internal.simps)
  next
    case receiving: None
    show ?thesis
    proof (cases "queue s")
      case (Cons a rest)
      with receiving show ?thesis
        by (cases "hm_get (in_flight s) a")
          (use sys_step.accept sys_step.mark_dirty in \<open>meson internal.simps\<close>)+
    next
      case Nil
      then have room: "length (queue s) < FORWARD_QUEUE_CAPACITY" by (simp add: FORWARD_QUEUE_CAPACITY_def)
      show ?thesis
      proof (cases "\<exists>p. outbox s p \<noteq> []")
        case True
        then obtain p a rest where "outbox s p = a # rest" by (meson list.exhaust)
        from sys_step.send [OF this room] show ?thesis by (meson internal.simps)
      next
        case boxes: False
        show ?thesis
        proof (cases "workers s = {#}")
          case True
          with receiving have "busy s = {#}" by (simp add: busy_def)
          from busy_empty [OF this assms(1)] True Nil boxes receiving assms(2)
          consider "scanning s \<noteq> None" | "polling s \<noteq> None" | "retiring (maintenance s)"
            by (auto simp: system_idle_def)
          then show ?thesis
          proof cases
            case 1
            then obtain h where "scanning s = Some h" by blast
            from sys_step.block_done [OF this] boxes show ?thesis by (meson internal.simps)
          next
            case 2
            then obtain n where "polling s = Some n" by blast
            from sys_step.poll_counted [OF this] boxes show ?thesis by (meson internal.simps)
          next
            case 3
            obtain g sent r b where
              "tick_piece link ch 0 (maintenance s) (shared s, backend s) = (g, sent, r, b)"
              by (metis prod.exhaust)
            from sys_step.tick_on [OF 3 this] show ?thesis by (meson internal.simps)
          qed
        next
          case False
          then obtain a where "Requeueing a \<in># workers s" using waiting by (metis multiset_nonemptyE)
          from sys_step.requeue [OF this room] show ?thesis by (meson internal.simps)
        qed
      qed
    qed
  qed
qed

section \<open>No trigger is lost\<close>

text \<open>Where a trigger for an address can be before a forward that began after it.\<close>

definition owed :: "'b system \<Rightarrow> string \<Rightarrow> bool" where
  "owed s a \<longleftrightarrow> (\<exists>p. a \<in> set (outbox s p)) \<or> a \<in> set (queue s) \<or> receiving s = Some a
     \<or> Working (Begun a) \<in># workers s \<or> Leaving a True \<in># workers s \<or> Requeueing a \<in># workers s
     \<or> hm_get (in_flight s) a = Some True
     \<or> (case maintenance s of Retiring _ _ _ new \<Rightarrow> a \<in> set new | _ \<Rightarrow> False)"

fun attempts :: "action \<Rightarrow> string \<Rightarrow> bool" where
  "attempts (Work _ _ (Begun b)) a = (b = a)"
| "attempts _ a = False"

lemma ex_producer: "(\<exists>p. P p) \<longleftrightarrow> P Maintenance \<or> P BalancePoll \<or> P BlockScanner"
  by (metis producer.exhaust)

lemma owed_step:
  assumes "system_ok n s" and "sys_step link ch s act s'" and "owed s a"
  shows "owed s' a \<or> attempts act a"
  using assms(2)
proof cases
  case (ticked now g sent r b)
  with assms(3) show ?thesis by (auto simp: owed_def ex_producer)
next
  case (tick_on g sent r b)
  with assms(3) show ?thesis
    by (cases "(link, ch, 0 :: int, maintenance s, (shared s, backend s))" rule: tick_piece.cases)
      (auto simp: owed_def ex_producer)
next
  case (due_retried g sent r b)
  with assms(3) show ?thesis by (cases "maintenance s") (auto simp: owed_def ex_producer)
next
  case (send p b rest)
  with assms(3) show ?thesis by (cases p) (auto simp: owed_def ex_producer)
next
  case (mark_dirty b rest d)
  with assms(3) show ?thesis by (auto simp: owed_def ex_producer update_conv')
next
  case (accept b rest)
  with assms(3) show ?thesis by (auto simp: owed_def ex_producer update_conv')
next
  case (work g env clk g' r)
  then obtain ws where "workers s = add_mset (Working g) ws" by (meson multi_member_split)
  with assms(3) work show ?thesis by (cases g) (auto simp: owed_def ex_producer)
next
  case (finish b r)
  then obtain ws where "workers s = add_mset (Working (Ended b)) ws" by (meson multi_member_split)
  with assms(3) finish show ?thesis by (auto simp: owed_def ex_producer delete_conv')
next
  case (release b r)
  then obtain ws where "workers s = add_mset (Leaving b r) ws" by (meson multi_member_split)
  with assms(3) release show ?thesis by (auto simp: owed_def ex_producer)
next
  case (requeue b)
  then obtain ws where "workers s = add_mset (Requeueing b) ws" by (meson multi_member_split)
  with assms(3) requeue show ?thesis by (auto simp: owed_def ex_producer)
qed (use assms(3) in \<open>auto simp: owed_def ex_producer\<close>)

definition internal_step :: "'b backend_link \<Rightarrow> chrono \<Rightarrow> 'b system \<Rightarrow> action \<Rightarrow> 'b system \<Rightarrow> bool" where
  "internal_step link ch s act s' \<longleftrightarrow> internal act \<and> sys_step link ch s act s'"

interpretation dispatcher: draining "internal_step link ch" "system_ok n" system_idle system_work owed attempts
  for link :: "'b backend_link" and ch and n
proof
  show "system_ok n s \<Longrightarrow> internal_step link ch s a s' \<Longrightarrow> system_ok n s'" for s a s'
    using system_ok_step by (auto simp: internal_step_def)
  show "system_ok n s \<Longrightarrow> internal_step link ch s a s' \<Longrightarrow> system_work s' < system_work s" for s a s'
    using system_work_step by (auto simp: internal_step_def)
  show "system_ok n s \<Longrightarrow> \<not> system_idle s \<Longrightarrow> \<exists>a s'. internal_step link ch s a s'" for s
    using system_progress by (metis internal_step_def)
  show "system_ok n s \<Longrightarrow> internal_step link ch s a s' \<Longrightarrow> owed s k \<Longrightarrow> owed s' k \<or> attempts a k" for s a s' k
    using owed_step by (metis internal_step_def)
  show "system_idle s \<Longrightarrow> \<not> owed s k" for s :: "'b system" and k
    by (cases "maintenance s") (simp_all add: system_idle_def owed_def)
qed


section \<open>The system as a whole\<close>

lemma system_ok_run:
  assumes "run (sys_step link ch) s acts s'" and "system_ok n s"
  shows "system_ok n s'"
  using assms by (rule run_invariant) (rule system_ok_step)

lemma owed_run:
  "run (sys_step link ch) s acts s' \<Longrightarrow> system_ok n s \<Longrightarrow> owed s a \<Longrightarrow>
     owed s' a \<or> (\<exists>act \<in> set acts. attempts act a)"
proof (induction rule: run.induct)
  case (run_Cons s act s1 acts s')
  with system_ok_step owed_step show ?case by (meson list.set_intros)
qed simp

lemma size_working:
  "size {#w \<in># ws. \<exists>g. w = Working g \<and> stage_addr g = a#} = count (\<Sum>w\<in>#ws. busy_of w) a"
proof (induction ws)
  case (add w ws)
  then show ?case by (cases w) auto
qed simp

lemma size_holders: "size {#w \<in># ws. permits_of w = 1#} = holders ws"
proof (induction ws)
  case (add w ws)
  then show ?case by (cases w) auto
qed (simp add: holders_def)

text \<open>C5: no double submission. In every reachable state of the running relayer each address is
  in the hands of at most one worker, no more workers hold a permit than configured, and
  the queue stays within its capacity.\<close>

theorem one_forward_per_address:
  assumes "run (sys_step link ch) (run_relayer r b) acts s"
  shows "size {#w \<in># workers s. \<exists>g. w = Working g \<and> stage_addr g = a#} \<le> 1
    \<and> size {#w \<in># workers s. permits_of w = 1#} \<le> max 1 (forward_concurrency (config r))
    \<and> length (queue s) \<le> FORWARD_QUEUE_CAPACITY"
proof -
  have ok: "system_ok (max 1 (forward_concurrency (config r))) s"
    using system_ok_run [OF assms system_ok_init] .
  have "count (busy s) a \<le> 1"
    using ok by (simp add: system_ok_def hm_keys_def distinct_count_atmost_1)
  then have "count (\<Sum>w\<in>#workers s. busy_of w) a \<le> 1" by (simp add: busy_def)
  with ok show ?thesis unfolding size_working size_holders by (simp add: system_ok_def)
qed

text \<open>C9: no trigger is lost and nothing deadlocks. From every reachable state the relayer can
  run until it is idle without outside help; every way it can run on its own is finite,
  with a bound, and ends only when it is idle, and by then every address that was owed a
  forward has been attempted, by a forward that began after.\<close>

theorem triggers_are_served:
  assumes "run (sys_step link ch) (run_relayer r b) acts s"
  shows "(\<exists>acts' s'. run (internal_step link ch) s acts' s' \<and> system_idle s')
    \<and> (\<forall>acts' s'. run (internal_step link ch) s acts' s' \<longrightarrow>
        length acts' \<le> system_work s
        \<and> ((\<nexists>act s''. internal_step link ch s' act s'') \<longrightarrow>
            system_idle s' \<and> (\<forall>a. owed s a \<longrightarrow> (\<exists>act \<in> set acts'. attempts act a))))"
proof -
  have ok: "system_ok (max 1 (forward_concurrency (config r))) s"
    using system_ok_run [OF assms system_ok_init] .
  have "length acts' \<le> system_work s" if "run (internal_step link ch) s acts' s'" for acts' s'
    using dispatcher.run_work [OF that ok] by simp
  moreover have "system_idle s' \<and> (\<forall>a. owed s a \<longrightarrow> (\<exists>act \<in> set acts'. attempts act a))"
    if "run (internal_step link ch) s acts' s'" "\<nexists>act s''. internal_step link ch s' act s''" for acts' s'
    using dispatcher.stuck_is_idle [OF dispatcher.run_ok [OF that(1) ok] that(2)]
      dispatcher.served [OF that(1) ok] by blast
  ultimately show ?thesis using dispatcher.drains [OF ok] by blast
qed

text \<open>C10: every trigger gets its forward. Whatever a maintenance tick, a balance poll or a scanned
  block sends to the queue, in any run of the whole relayer, with further events of every
  kind: when the relayer is next idle the address has been attempted.\<close>

theorem sent_addresses_are_attempted:
  assumes "run (sys_step link ch) (run_relayer r b) acts s" and "sys_step link ch s act s1"
    and "run (sys_step link ch) s1 acts' s'" and "system_idle s'"
    and "case act of
        Ticked now \<Rightarrow> (case fst (begin_tick link ch now (shared s, backend s)) of
            Retiring _ _ _ new \<Rightarrow> a \<in> set new | _ \<Rightarrow> False)
      | DueRetried \<Rightarrow> (case maintenance s of Probing now \<Rightarrow> a \<in> set (due_retries now (shared s)) | _ \<Rightarrow> False)
      | Polled \<Rightarrow> a \<in> set (hm_keys (live (shared s)))
      | BlockFound height results \<Rightarrow> a \<in> set (matched (\<lambda>_. live (shared s)) height results)
      | _ \<Rightarrow> False"
  shows "\<exists>act \<in> set acts'. attempts act a"
proof -
  have "system_ok (max 1 (forward_concurrency (config r))) s1"
    using system_ok_step [OF system_ok_run [OF assms(1) system_ok_init] assms(2)] .
  moreover have "owed s1 a"
    using assms(5,2)
    by (cases act)
      (auto simp: sys_step_iff owed_def ex_producer split: if_splits prod.splits tick_stage.splits)
  ultimately show ?thesis using owed_run [OF assms(3)] dispatcher.idle_owes [OF assms(4)] by blast
qed

section \<open>Restarting the system\<close>

fun action_clock_ok :: "action \<Rightarrow> bool" where
  "action_clock_ok (Work env clk g) \<longleftrightarrow> clock_ok (deposit_seen_at clk) \<and> clock_ok (finished_at clk)"
| "action_clock_ok _ \<longleftrightarrow> True"

lemma relayer_ok_system:
  assumes "sys_step link ch s act s'" and "relayer_ok ch (shared s)" and "chrono_roundtrip ch"
    and "action_clock_ok act"
  shows "relayer_ok ch (shared s')"
  using assms(1)
proof cases
  case (ticked now g sent r b)
  with tick_piece_frame [OF ticked(5)] assms(2) show ?thesis by (simp add: relayer_ok_def)
next
  case (tick_on g sent r b)
  with tick_piece_frame [OF tick_on(4)] assms(2) show ?thesis by (simp add: relayer_ok_def)
next
  case (due_retried g sent r b)
  with tick_piece_frame [OF due_retried(5)] assms(2) show ?thesis by (simp add: relayer_ok_def)
next
  case (signer_refreshed env)
  from relayer_ok_step [OF assms(2,3), of "SignerBalance env" link "backend s"] signer_refreshed
  show ?thesis by simp
next
  case (work g env clk g' r)
  with assms(2,4) mirrored_piece [OF _ _ assms(3) _ _ work(5)] forward_piece_frame [OF _ work(5)]
  show ?thesis by (simp add: relayer_ok_def)
next
  case (send p a rest)
  with assms(2) show ?thesis
    by (cases p) (simp_all add: relayer_ok_def sent_by_def mirrored_scan_pieces relayer_simps)
qed (use assms(2) in \<open>simp_all add: relayer_ok_def mirrored_scan_pieces relayer_simps\<close>)

lemma relayer_ok_system_run:
  "run (sys_step link ch) s acts s' \<Longrightarrow> relayer_ok ch (shared s) \<Longrightarrow> chrono_roundtrip ch \<Longrightarrow>
     list_all action_clock_ok acts \<Longrightarrow> relayer_ok ch (shared s')"
  by (induction rule: run.induct) (auto dest: relayer_ok_system)


text \<open>A tick makes live only what it sends or what was live.\<close>

lemma tick_sends_new:
  assumes "maintenance_tick link ch now (s, b) = (sent, s', b')"
  shows "set (hm_keys (live s')) \<subseteq> set sent \<union> set (hm_keys (live s))"
  using assms
proof (cases rule: maintenance_tick_cases)
  case (refreshed requests rrs s2)
  then show ?thesis by (auto simp: hm_contains_def)
qed (simp add: relayer_simps)


section \<open>The scanner\<close>

text \<open>The scanner of \<open>Scanner\<close> and the scanner's steps here are the same code.\<close>

lemma run_sends:
  assumes "run (sys_step link ch) s (replicate n (Send BlockScanner)) s'"
  shows "\<exists>as. length as = n \<and> outbox s BlockScanner = as @ outbox s' BlockScanner \<and> queue s' = queue s @ as
    \<and> scanning s' = scanning s \<and> shared s' = (count_deposit ^^ n) (shared s)"
  using assms
proof (induction n arbitrary: s)
  case (Suc n)
  then obtain s1 where 1: "sys_step link ch s (Send BlockScanner) s1"
    "run (sys_step link ch) s1 (replicate n (Send BlockScanner)) s'"
    by (auto simp: run_Cons_iff)
  then obtain a rest where s1: "outbox s BlockScanner = a # rest" "outbox s1 BlockScanner = rest"
    "queue s1 = queue s @ [a]" "scanning s1 = scanning s" "shared s1 = count_deposit (shared s)"
    by (auto simp: sys_step_iff sent_by_def split: list.splits if_splits)
  obtain as where "length as = n" "rest = as @ outbox s' BlockScanner" "queue s' = queue s1 @ as"
    "scanning s' = scanning s1" "shared s' = (count_deposit ^^ n) (shared s1)"
    using Suc.IH [OF 1(2)] s1(2) by auto
  with s1 show ?case by (intro exI [of _ "a # as"]) (simp add: funpow_swap1)
qed (simp add: run_Nil_iff)

lemma fold_enqueue:
  "fold enqueue_deposit rs sc = sc\<lparr>enqueued := enqueued sc @ rs,
     scan_log := scan_log sc @ replicate (length rs) (Counter ''relayer_deposits_detected_total'' [] 1)\<rparr>"
  by (induction rs arbitrary: sc) (simp_all add: enqueue_deposit_def scan_metric_def replicate_app_Cons_same)

lemma count_deposits:
  "(count_deposit ^^ n) r = r\<lparr>relayer_log := relayer_log r
     @ replicate n (Counter ''relayer_deposits_detected_total'' [] 1)\<rparr>"
  by (induction n arbitrary: r) (simp_all add: funpow_swap1 count_deposit_def log_metric_def replicate_app_Cons_same)


section \<open>Examples\<close>

definition deposit_block :: "string \<Rightarrow> block_results" where
  "deposit_block a = \<lparr>txs_results = Some [[\<lparr>kind = ''transfer'', attributes =
       [\<lparr>key_str = Some ''recipient'', value_str = Some a\<rparr>,
        \<lparr>key_str = Some ''amount'', value_str = Some ''5utia''\<rparr>]\<rparr>]],
     finalize_block_events = [], begin_block_events = None, end_block_events = None\<rparr>"

text \<open>A tick makes \<open>c\<close> live; a deposit to it is found while its worker is running.\<close>

definition example_actions :: "action list" where
  "example_actions = [Ticked 3, TickOn, Send Maintenance, Accept, Spawn, BlockFound 50 (deposit_block ''c''),
     Send BlockScanner, MarkDirty]"

text \<open>The pieces of a forward when the fee query fails.\<close>

definition example_pieces :: "string \<Rightarrow> forwarding_request \<Rightarrow> action list" where
  "example_pieces a rq = map (Work example_grpc (example_clock 3))
     [Begun a, Checked a rq, Funded a rq, Priced a rq ''0utia'']"

definition example_rest :: "action list" where
  "example_rest = [BlockDone] @ example_pieces ''c'' (example_request ''c'') @ [Finish ''c'',
     Release ''c'' True, Requeue ''c'', Accept, Spawn]
     @ example_pieces ''c'' (example_request ''c'') @ [Finish ''c'', Release ''c'' False]"

definition example_system :: "forwarding_request list system" where
  "example_system = run_relayer example_relayer [example_request ''c'']"

definition is_idle :: "'b system \<Rightarrow> bool" where
  "is_idle s \<longleftrightarrow> outbox s Maintenance = [] \<and> outbox s BalancePoll = [] \<and> outbox s BlockScanner = []
     \<and> queue s = [] \<and> receiving s = None \<and> size (workers s) = 0 \<and> in_flight s = []
     \<and> \<not> retiring (maintenance s) \<and> polling s = None \<and> scanning s = None"

lemma is_idle: "is_idle s \<longleftrightarrow> system_idle s"
proof -
  have "(\<forall>p. outbox s p = []) \<longleftrightarrow>
      outbox s Maintenance = [] \<and> outbox s BalancePoll = [] \<and> outbox s BlockScanner = []"
    by (metis producer.exhaust)
  then show ?thesis by (auto simp: is_idle_def system_idle_def)
qed

text \<open>The first part ends in the middle of a forward with a mark set, the second idle.\<close>

lemma example_middle:
  "\<exists>s. run (sys_step listing_link tally_chrono) example_system example_actions s
     \<and> count (workers s) (Working (Begun ''c'')) = 1 \<and> in_flight s = [(''c'', True)]"
proof -
  have "case sys_run listing_link tally_chrono example_actions example_system of None \<Rightarrow> False
     | Some s \<Rightarrow> count (workers s) (Working (Begun ''c'')) = 1 \<and> in_flight s = [(''c'', True)]"
    by code_simp
  then show ?thesis by (auto simp: run_sys_run split: option.splits)
qed

lemma example_end:
  "\<exists>s. run (sys_step listing_link tally_chrono) example_system (example_actions @ example_rest) s
     \<and> system_idle s"
proof -
  have "case sys_run listing_link tally_chrono (example_actions @ example_rest) example_system of
      None \<Rightarrow> False | Some s \<Rightarrow> is_idle s"
    by code_simp
  then show ?thesis by (auto simp: run_sys_run is_idle split: option.splits)
qed

theorem one_forward_per_address_witness:
  "\<exists>s. run (sys_step listing_link tally_chrono) (run_relayer example_relayer [example_request ''c''])
       example_actions s
     \<and> Working (Begun ''c'') \<in># workers s \<and> Working (Ended ''c'') \<notin># workers s"
proof -
  obtain s where s: "run (sys_step listing_link tally_chrono)
      (run_relayer example_relayer [example_request ''c'']) example_actions s"
    and one: "count (workers s) (Working (Begun ''c'')) = 1"
    using example_middle unfolding example_system_def by blast
  then have w: "Working (Begun ''c'') \<in># workers s" by (metis count_inI zero_neq_one)
  moreover have "Working (Ended ''c'') \<notin># workers s"
  proof
    assume e: "Working (Ended ''c'') \<in># workers s"
    from w obtain ws where ws: "workers s = add_mset (Working (Begun ''c'')) ws" by (meson multi_member_split)
    with e obtain ws' where "ws = add_mset (Working (Ended ''c'')) ws'" by (auto dest: multi_member_split)
    with ws one_forward_per_address [OF s, of "''c''"] show False by simp
  qed
  ultimately show ?thesis using s by blast
qed

lemma idle_stuck: "system_idle s \<Longrightarrow> \<not> internal_step link ch s act s'"
  by (cases act) (auto simp: internal_step_def sys_step_iff system_idle_def)

theorem triggers_are_served_witness:
  "\<exists>s acts' s'. in_flight s = [(''c'', True)]
     \<and> run (internal_step listing_link tally_chrono) s acts' s' \<and> system_idle s'
     \<and> (\<exists>act \<in> set acts'. attempts act ''c'')"
proof -
  obtain s where s: "run (sys_step listing_link tally_chrono)
      (run_relayer example_relayer [example_request ''c'']) example_actions s"
    and mark: "in_flight s = [(''c'', True)]"
    using example_middle unfolding example_system_def by blast
  from triggers_are_served [OF s] obtain acts' s' where
    r: "run (internal_step listing_link tally_chrono) s acts' s'" "system_idle s'" and
    all: "\<And>acts' s'. run (internal_step listing_link tally_chrono) s acts' s' \<Longrightarrow>
      \<nexists>act s''. internal_step listing_link tally_chrono s' act s'' \<Longrightarrow>
      \<forall>a. owed s a \<longrightarrow> (\<exists>act \<in> set acts'. attempts act a)"
    by blast
  have "\<nexists>act s''. internal_step listing_link tally_chrono s' act s''"
    using idle_stuck [OF r(2)] by blast
  moreover have "owed s ''c''" by (simp add: owed_def mark)
  ultimately show ?thesis using all [OF r(1)] r mark by blast
qed

theorem sent_addresses_are_attempted_witness:
  "\<exists>act \<in> set ([Send BlockScanner, MarkDirty] @ example_rest). attempts act ''c''"
proof -
  let ?step = "sys_step listing_link tally_chrono"
  have split: "example_actions @ example_rest = take 5 example_actions
      @ BlockFound 50 (deposit_block ''c'') # ([Send BlockScanner, MarkDirty] @ example_rest)"
    by (simp add: example_actions_def)
  obtain s0 s s1 where
    r: "run ?step (run_relayer example_relayer [example_request ''c'']) (take 5 example_actions) s0"
      "?step s0 (BlockFound 50 (deposit_block ''c'')) s1"
      "run ?step s1 ([Send BlockScanner, MarkDirty] @ example_rest) s" "system_idle s"
    using example_end unfolding split run_append run_Cons_iff example_system_def by blast
  have "case sys_run listing_link tally_chrono (take 5 example_actions) example_system of None \<Rightarrow> False
      | Some s \<Rightarrow> matched (\<lambda>_. live (shared s)) 50 (deposit_block ''c'') = [''c'']"
    by code_simp
  with r(1) have "''c'' \<in> set (matched (\<lambda>_. live (shared s0)) 50 (deposit_block ''c''))"
    by (simp add: run_sys_run example_system_def)
  then show ?thesis by (intro sent_addresses_are_attempted [OF r]) simp
qed

definition crash_actions :: "action list" where
  "crash_actions = [Ticked 3, TickOn, Send Maintenance, Accept, Spawn]
     @ take 2 (example_pieces ''b'' (example_request ''b'')) @ [BlockFound 50 (deposit_block ''b'')]"


definition watching_system :: "forwarding_request list system" where
  "watching_system = run_relayer (example_relayer\<lparr>live := [(''c'', example_request ''c'')]\<rparr>) []"


end
