(* ===== verification/World.thy ===== *)
theory World
  imports Dispatcher
begin

text \<open>
  The programs put together: the relayer's HTTP calls (\<^verbatim>\<open>src/relayer.rs\<close>, lines 490-552)
  answered by the handlers of \<^verbatim>\<open>src/backend.rs\<close>, and the relayer's tasks and workers, the
  backend and its clients interleaved in one step relation.
\<close>

section \<open>The relayer on the backend\<close>

text \<open>The backend's handlers behind the relayer's HTTP calls, at one instant.\<close>

definition over_http :: "crypto \<Rightarrow> chrono \<Rightarrow> int \<Rightarrow> backend_state backend_link" where
  "over_http cr ch now = \<lparr>
     http_get = (\<lambda>b. case serve cr ch now now GetForwardingRequests b of (resp, b') \<Rightarrow> (Some resp, b')),
     http_delete = (\<lambda>addr b. case serve cr ch now now (DeleteForwardingRequest addr) b of
       (resp, b') \<Rightarrow> (Some resp, b'))\<rparr>"

lemma refresh_metrics_fault [backend_simps]:
  "sql_fault (storage (snd (refresh_metrics ch now s))) = sql_fault (storage s)"
  by (auto simp: refresh_metrics_def pending_metrics_snapshot_def io_defs on_storage_def with_context_def
      backend_simps split: prod.splits option.splits sum.splits)

lemma keeps_fault_storage:
  "keeps_fault (storage_create_request created req)" "keeps_fault storage_list_requests"
  "keeps_fault pending_metrics_snapshot" "keeps_fault storage_health_check"
  "keeps_fault (storage_remove_by_addr addr)"
  by (simp_all add: storage_create_request_def storage_list_requests_def pending_metrics_snapshot_def
      storage_health_check_def storage_remove_by_addr_def)

lemma on_storage_fault:
  "keeps_fault m \<Longrightarrow> on_storage m s = (r, s') \<Longrightarrow> sql_fault (storage s') = sql_fault (storage s)"
  by (auto simp: on_storage_def keeps_fault_def split: prod.splits) (metis snd_conv)

lemma count_result_fault [backend_simps]: "sql_fault (storage (count_result name res s)) = sql_fault (storage s)"
  by (simp add: count_result_def backend_simps)

lemma refreshed_fault:
  "refresh_metrics ch now (count_result name res s) = (r, s') \<Longrightarrow> sql_fault (storage s') = sql_fault (storage s)"
  using refresh_metrics_fault [of ch now "count_result name res s"] by (simp add: count_result_fault)

lemma serve_fault: "sql_fault (storage (snd (serve cr ch now now' req s))) = sql_fault (storage s)"
  by (cases req)
    (auto simp: health_def list_requests_def create_request_def complete_request_def Let_def backend_simps
      split: prod.splits sum.splits option.splits
      dest!: refreshed_fault on_storage_fault [OF keeps_fault_storage(1)] on_storage_fault [OF keeps_fault_storage(2)]
        on_storage_fault [OF keeps_fault_storage(4)] on_storage_fault [OF keeps_fault_storage(5)])

lemma listing_healthy:
  assumes "sql_healthy (storage b)"
  shows "fetch_forwarding_requests (fst (http_get (over_http cr ch now) b))
      = Inr (ordered_requests (tables (storage b)))"
    and "tables (storage (snd (http_get (over_http cr ch now) b))) = tables (storage b)"
    and "sql_healthy (storage (snd (http_get (over_http cr ch now) b)))"
  using assms
  by (auto simp: over_http_def list_requests_def on_storage_def storage_list_requests_def io_defs
      fetch_forwarding_requests_def is_success_def sql_healthy_def with_context_def backend_simps
      split: prod.splits)

lemma delete_healthy:
  assumes "sql_healthy (storage b)"
  shows "tables (storage (snd (http_delete (over_http cr ch now) a b)))
      = tables (storage b)\<lparr>forwarding_requests := tbl_delete forward_addr a (rows b)\<rparr>"
    and "sql_healthy (storage (snd (http_delete (over_http cr ch now) a b)))"
proof -
  have 1: "snd (http_delete (over_http cr ch now) a b) = snd (complete_request ch now a b)"
    by (simp add: over_http_def split: prod.splits)
  have 2: "sql_fault (storage (snd (complete_request ch now a b))) = sql_fault (storage b)"
    using assms
    by (cases "tbl_get forward_addr (rows b) a")
      (simp_all add: complete_request_def on_storage_def storage_remove_by_addr_def io_defs sql_healthy_def
        Let_def backend_simps split_beta)
  have 3: "tables (storage (snd (complete_request ch now a b)))
      = tables (storage b)\<lparr>forwarding_requests := tbl_delete forward_addr a (rows b)\<rparr>"
    using assms
    by (cases "tbl_get forward_addr (rows b) a")
      (simp_all add: complete_request_def on_storage_def storage_remove_by_addr_def io_defs sql_healthy_def
        Let_def backend_simps split_beta tbl_delete_absent)
  show "tables (storage (snd (http_delete (over_http cr ch now) a b)))
      = tables (storage b)\<lparr>forwarding_requests := tbl_delete forward_addr a (rows b)\<rparr>"
    unfolding 1 by (rule 3)
  show "sql_healthy (storage (snd (http_delete (over_http cr ch now) a b)))"
    using assms unfolding 1 sql_healthy_def 2 .
qed


lemma delete_all_healthy:
  "sql_healthy (storage b) \<Longrightarrow>
     rows (fold (\<lambda>a b. snd (http_delete (over_http cr ch now) a b)) as b)
       = fold (tbl_delete forward_addr) as (rows b)"
  by (induction as arbitrary: b) (simp_all add: delete_healthy)

lemma kept_map_get:
  assumes "tbl_wf forward_addr reqs"
  shows "map_of (kept_map rrs reqs) a
    = (if a \<in> (forward_addr \<circ> fst) ` set rrs then None else tbl_get forward_addr reqs a)"
proof -
  let ?R = "(forward_addr \<circ> fst) ` set rrs"
  let ?ps = "map (\<lambda>r. (forward_addr r, r)) (filter (\<lambda>r. forward_addr r \<notin> ?R) reqs)"
  have k: "kept_map rrs reqs = hm_collect ?ps"
    by (simp add: kept_map_def Let_def image_image split_beta comp_def)
  have "distinct (map fst (rev ?ps))"
    using assms by (simp add: comp_def rev_map [symmetric] distinct_map_filter)
  then have "map_of (kept_map rrs reqs) a = Some r \<longleftrightarrow> r \<in> set reqs \<and> forward_addr r = a \<and> a \<notin> ?R" for r
    unfolding k hm_get_collect by (subst map_of_eq_Some_iff) auto
  moreover have "tbl_get forward_addr reqs a = Some r \<longleftrightarrow> r \<in> set reqs \<and> forward_addr r = a" for r
    using assms by (rule tbl_get_Some_iff)
  ultimately show ?thesis by (intro option_ext) simp
qed

lemma ordered_requests_get:
  assumes "tbl_wf forward_addr (forwarding_requests t)"
  shows "tbl_get forward_addr (ordered_requests t) a = tbl_get forward_addr (forwarding_requests t) a"
proof -
  have "tbl_wf forward_addr (ordered_requests t)"
    using backend_registry.fetch_distinct [OF assms] .
  then show ?thesis
    using assms by (intro option_ext) (simp add: tbl_get_Some_iff, simp add: ordered_requests_def)
qed

lemma tick_sync:
  assumes "maintenance_tick (over_http cr ch t) ch now (s, b) = (sent, s', b')"
    and "registry_ok cr b" and "sql_healthy (storage b)"
  shows "map_of (live s') = reg b'
    \<and> reg b' = (\<lambda>a. case reg b a of None \<Rightarrow> None
        | Some r \<Rightarrow>
            if retirement_reason ch (created_at r) (map_of (last_activity s) a) now
                (max_request_age_seconds (config s)) (max_address_inactivity_seconds (config s)) = None
            then Some r else None)"
  using assms(1)
proof (cases rule: maintenance_tick_cases)
  case (failed e)
  with listing_healthy(1) [OF assms(3)] show ?thesis by simp
next
  case (refreshed requests rrs s2)
  have wf: "tbl_wf forward_addr (rows b)" using assms(2) by (simp add: registry_ok_def)
  have reqs: "requests = ordered_requests (tables (storage b))"
    using refreshed(1) listing_healthy(1) [OF assms(3), of cr ch t] by simp
  then have wf': "tbl_wf forward_addr requests" using backend_registry.fetch_distinct [OF wf] by simp
  have get: "tbl_get forward_addr requests a = reg b a" for a
    by (simp add: reqs ordered_requests_get [OF wf] reg_def)
  let ?R = "(forward_addr \<circ> fst) ` set rrs"
  have "rows b' = fold (tbl_delete forward_addr) (map (forward_addr \<circ> fst) rrs) (rows b)"
    using retire_all [OF refreshed(6)] delete_all_healthy [OF listing_healthy(3) [OF assms(3)]]
      listing_healthy(2) [OF assms(3)] by simp
  then have reg': "reg b' a = (if a \<in> ?R then None else reg b a)" for a
    by (simp add: reg_def tbl_get_delete_all)
  have live: "map_of (live s') a = reg b' a" for a
    by (simp add: refreshed(3) kept_map_get [OF wf'] get reg')
  have "a \<in> ?R \<longleftrightarrow> retirement_reason ch (created_at r) (map_of (last_activity s) a) now
      (max_request_age_seconds (config s)) (max_address_inactivity_seconds (config s)) \<noteq> None"
    if "reg b a = Some r" for a r
  proof -
    have r: "q \<in> set requests \<and> forward_addr q = a \<longleftrightarrow> q = r" for q
      using that get tbl_get_Some_iff [OF wf', of a q] by auto
    show ?thesis
      unfolding refreshed(2) retired_addrs mem_Collect_eq using r by (metis (no_types, lifting))
  qed
  then have "reg b' a = (case reg b a of None \<Rightarrow> None | Some r \<Rightarrow>
      if retirement_reason ch (created_at r) (map_of (last_activity s) a) now
          (max_request_age_seconds (config s)) (max_address_inactivity_seconds (config s)) = None
      then Some r else None)" for a
    unfolding reg' by (cases "reg b a") auto
  with live show ?thesis by blast
qed

section \<open>Clients, backend and relayer together\<close>

text \<open>Clients call the backend and the relayer's tasks run, in any order; a step of the relayer
  reaches the backend at an instant, or does not reach it.\<close>

definition unreachable :: "'b backend_link" where
  "unreachable = \<lparr>http_get = (\<lambda>b. (None, b)), http_delete = (\<lambda>addr b. (None, b))\<rparr>"

definition link_at :: "crypto \<Rightarrow> chrono \<Rightarrow> int option \<Rightarrow> backend_state backend_link" where
  "link_at cr ch moment = (case moment of None \<Rightarrow> unreachable | Some now \<Rightarrow> over_http cr ch now)"

datatype world_action =
    ClientCall int int http_request
  | BackendRefreshed int
  | RelayerStep "int option" action

inductive world_step ::
  "crypto \<Rightarrow> chrono \<Rightarrow> backend_state system \<Rightarrow> world_action \<Rightarrow> backend_state system \<Rightarrow> bool"
  for cr :: crypto and ch :: chrono where
  client_call:
    "world_step cr ch s (ClientCall now now' req)
       (s\<lparr>backend := snd (serve cr ch now now' req (backend s))\<rparr>)"
| backend_refreshed:
    "metrics_enabled (backend s) \<Longrightarrow>
     world_step cr ch s (BackendRefreshed now) (s\<lparr>backend := snd (refresh_metrics ch now (backend s))\<rparr>)"
| relayer_step:
    "sys_step (link_at cr ch moment) ch s act s' \<Longrightarrow> world_step cr ch s (RelayerStep moment act) s'"

inductive_cases client_callE: "world_step cr ch s (ClientCall now now' req) s'"
inductive_cases backend_refreshedE: "world_step cr ch s (BackendRefreshed now) s'"
inductive_cases relayer_stepE: "world_step cr ch s (RelayerStep moment act) s'"

text \<open>The chain derives a message's address from the message's own fields.\<close>

definition message_ok :: "crypto \<Rightarrow> msg_forward \<Rightarrow> bool" where
  "message_ok cr m \<longleftrightarrow>
     derive_forwarding_address cr (mf_dest_domain m) (mf_dest_recipient m) (mf_token_id m)
       (Some (mf_custom_hook_id m)) (Some (mf_custom_hook_metadata m)) = Inr (mf_forward_addr m)"

definition request_ok :: "crypto \<Rightarrow> string \<Rightarrow> forwarding_request \<Rightarrow> bool" where
  "request_ok cr a rq \<longleftrightarrow> forward_addr rq = a \<and> row_valid cr rq"

definition live_ok :: "crypto \<Rightarrow> (string, forwarding_request) hmap \<Rightarrow> bool" where
  "live_ok cr l \<longleftrightarrow> (\<forall>a rq. map_of l a = Some rq \<longrightarrow> request_ok cr a rq)"

definition workers_ok :: "crypto \<Rightarrow> worker multiset \<Rightarrow> bool" where
  "workers_ok cr ws \<longleftrightarrow>
     (\<forall>g rq. Working g \<in># ws \<and> stage_request g = Some rq \<longrightarrow> request_ok cr (stage_addr g) rq)"

definition world_ok :: "crypto \<Rightarrow> relayer_config \<Rightarrow> backend_state system \<Rightarrow> bool" where
  "world_ok cr conf s \<longleftrightarrow> registry_ok cr (backend s) \<and> live_ok cr (live (shared s))
     \<and> (case maintenance s of Retiring _ _ kept _ \<Rightarrow> live_ok cr kept | _ \<Rightarrow> True)
     \<and> workers_ok cr (workers s)
     \<and> client_ok (celestia (shared s)) \<and> config (shared s) = conf
     \<and> (custom_igp_hook conf = None \<longrightarrow>
          (\<forall>m \<in> set (map snd (submissions (celestia (shared s)))). message_ok cr m))"

lemma parse_hook_unwrap [simp]: "parse_hook cr (Some (unwrap_or_default h)) = parse_hook cr h"
  by (cases h) (simp_all add: parse_hook_def unwrap_or_default_def trim_start_matches.simps [of _ "[]"])

lemma parse_metadata_unwrap [simp]: "parse_metadata cr (Some (unwrap_or_default m)) = parse_metadata cr m"
  by (cases m) (simp_all add: parse_metadata_def unwrap_or_default_def trim_start_matches.simps [of _ "[]"])

lemma derive_unwrap [simp]:
  "derive_forwarding_address cr d r t (Some (unwrap_or_default h)) (Some (unwrap_or_default m))
   = derive_forwarding_address cr d r t h m"
  by (simp only: derive_forwarding_address_def parse_hook_unwrap parse_metadata_unwrap)

lemma listing_mem:
  assumes "fetch_forwarding_requests (fst (http_get (link_at cr ch moment) b)) = Inr reqs"
  shows "set reqs = set (rows b)"
proof (cases moment)
  case None
  with assms show ?thesis by (simp add: link_at_def unreachable_def fetch_forwarding_requests_def)
next
  case (Some now)
  obtain r c where rc: "storage_list_requests (storage b) = (r, c)" by fastforce
  with assms Some obtain rs where "r = Inr rs" "rs = reqs"
    by (cases r) (auto simp: link_at_def over_http_def list_requests_def on_storage_def
        fetch_forwarding_requests_def is_success_def split: if_splits)
  with rc have "reqs = ordered_requests (tables (storage b))"
    by (auto simp: storage_list_requests_def io_defs with_context_def split: option.splits)
  then show ?thesis by (simp add: ordered_requests_def)
qed

lemma registry_ok_get: "registry_ok cr b \<Longrightarrow> registry_ok cr (snd (http_get (link_at cr ch moment) b))"
  using serve_registry_ok [of cr b ch _ _ GetForwardingRequests]
  by (auto simp: link_at_def unreachable_def over_http_def split: option.splits prod.splits)

lemma registry_ok_delete: "registry_ok cr b \<Longrightarrow> registry_ok cr (snd (http_delete (link_at cr ch moment) a b))"
  using serve_registry_ok [of cr b ch _ _ "DeleteForwardingRequest a"]
  by (simp add: link_at_def unreachable_def over_http_def split: option.splits)
    (simp add: split_beta)

lemma registry_ok_delete_all:
  "registry_ok cr b \<Longrightarrow>
     registry_ok cr (fold (\<lambda>a b. snd (http_delete (link_at cr ch moment) a b)) as b)"
  by (induction as arbitrary: b) (simp_all add: registry_ok_delete)

lemma kept_map_mem: "map_of (kept_map rrs reqs) a = Some rq \<Longrightarrow> rq \<in> set reqs \<and> forward_addr rq = a"
  by (auto simp: kept_map_def Let_def hm_get_collect dest!: map_of_SomeD)

lemma begin_tick_cases:
  assumes "begin_tick link ch now (s, b) = (g, s', b')"
  obtains (failed) "g = Sleeping" "b' = snd (http_get link b)"
  | (listed) reqs rrs new where "fetch_forwarding_requests (fst (http_get link b)) = Inr reqs"
      "rrs = retirements ch (config s) now (last_activity s) reqs"
      "g = Retiring now rrs (kept_map rrs reqs) new" "b' = snd (http_get link b)"
  using assms
  by (auto simp: begin_tick_def Let_def relayer_simps split: prod.splits sum.splits)

text \<open>What is registered, not expired and not yet live is what the tick is going to send.\<close>

lemma begin_tick_registered:
  assumes "begin_tick (over_http cr ch t) ch now (s, b) = (g, s', b')"
    and "registry_ok cr b" and "sql_healthy (storage b)"
    and "reg b a = Some rq" and "hm_get (live s) a = None"
    and "retirement_reason ch (created_at rq) (hm_get (last_activity s) a) now
      (max_request_age_seconds (config s)) (max_address_inactivity_seconds (config s)) = None"
  shows "\<exists>rrs kept new. g = Retiring now rrs kept new \<and> a \<in> set new"
  using assms(1)
proof (cases rule: begin_tick_cases)
  case failed
  obtain reply b1 where "http_get (over_http cr ch t) b = (reply, b1)" by fastforce
  with assms(1) listing_healthy(1) [OF assms(3), of cr ch t] failed(1) show ?thesis
    by (simp add: begin_tick_def Let_def)
next
  case (listed reqs rrs new)
  have wf: "tbl_wf forward_addr (rows b)" using assms(2) by (simp add: registry_ok_def)
  have reqs: "reqs = ordered_requests (tables (storage b))"
    using listed(1) listing_healthy(1) [OF assms(3), of cr ch t] by simp
  then have wf': "tbl_wf forward_addr reqs" using backend_registry.fetch_distinct [OF wf] by simp
  have get: "tbl_get forward_addr reqs a = Some rq"
    using assms(4) by (simp add: reqs ordered_requests_get [OF wf] reg_def)
  then have only: "q \<in> set reqs \<and> forward_addr q = a \<longleftrightarrow> q = rq" for q
    using tbl_get_Some_iff [OF wf', of a q] by auto
  have "a \<notin> (forward_addr \<circ> fst) ` set rrs"
    unfolding listed(2) retired_addrs mem_Collect_eq using only assms(6) by (metis (no_types, lifting))
  then have "map_of (kept_map rrs reqs) a = Some rq" by (simp add: kept_map_get [OF wf'] get)
  then have "a \<in> set (hm_keys (kept_map rrs reqs))" by auto
  moreover have "a \<notin> set (hm_keys (live s))" using assms(5) by (auto simp: domIff)
  ultimately show ?thesis
    using begin_tick_new [of _ ch now s b now rrs "kept_map rrs reqs" new s' b'] assms(1) listed(3) by blast
qed

lemma world_ok_begin_tick:
  assumes "world_ok cr conf s"
    and "begin_tick (link_at cr ch moment) ch now (shared s, backend s) = (g, r, b)"
  shows "world_ok cr conf (s\<lparr>shared := r, backend := b, maintenance := g\<rparr>)"
proof -
  obtain ms where r: "r = fold log_metric ms (shared s)" using begin_tick_frame [OF assms(2)] by blast
  from assms(2) show ?thesis
  proof (cases rule: begin_tick_cases)
    case failed
    with assms(1) show ?thesis by (simp add: world_ok_def r relayer_simps registry_ok_get)
  next
    case (listed reqs rrs new)
    have "live_ok cr (kept_map rrs reqs)"
      using assms(1) kept_map_mem [of rrs reqs] listing_mem [OF listed(1)]
      by (auto simp: live_ok_def request_ok_def world_ok_def registry_ok_def list_all_iff)
    with listed assms(1) show ?thesis by (simp add: world_ok_def r relayer_simps registry_ok_get)
  qed
qed

lemma world_ok_tick_piece:
  assumes "world_ok cr conf s" and "maintenance s \<noteq> Sleeping"
    and "tick_piece (link_at cr ch moment) ch t (maintenance s) (shared s, backend s) = (g, sent, r, b)"
  shows "world_ok cr conf (s\<lparr>shared := r, backend := b, maintenance := g, outbox := o'\<rparr>)"
proof (cases "maintenance s")
  case (Retiring now rrs kept new)
  show ?thesis
  proof (cases rrs)
    case (Cons rr rrs')
    with assms(3) Retiring have eq: "retire_one (link_at cr ch moment) rr (shared s, backend s) = (r, b)"
      "g = Retiring now rrs' kept new" by auto
    have b: "b = snd (http_delete (link_at cr ch moment) (forward_addr (fst rr)) (backend s))"
      using retire_one_backend [of "link_at cr ch moment" rr "shared s" "backend s"] eq by simp
    show ?thesis
      using assms(1) eq retire_one_frame [of "link_at cr ch moment" rr "shared s" "backend s"] Retiring
      by (simp add: world_ok_def registry_ok_delete b)
  next
    case Nil
    with assms(1,3) Retiring show ?thesis by (auto simp: world_ok_def relayer_simps)
  qed
qed (use assms in \<open>auto simp: world_ok_def\<close>)

lemma world_ok_work:
  assumes "world_ok cr conf s" and "Working g \<in># workers s"
    and "forward_piece env ch clk g (shared s) = (g', r)"
  shows "world_ok cr conf (s\<lparr>shared := r, workers := swap_worker (Working g) (Working g') (workers s)\<rparr>)"
proof -
  from assms(1) have ok: "client_ok (celestia (shared s))" and live: "live_ok cr (live (shared s))"
    and ws: "workers_ok cr (workers s)"
    by (simp_all add: world_ok_def)
  note frame = forward_piece_frame [OF ok assms(3)]
  obtain rest where rest: "workers s = add_mset (Working g) rest" using assms(2) by (meson multi_member_split)
  have "request_ok cr (stage_addr g') rq" if "stage_request g' = Some rq" for rq
    using forward_piece_request [OF assms(3) that] forward_piece_stage [OF assms(3)] ws live assms(2)
    by (auto simp: workers_ok_def live_ok_def)
  with ws have workers: "workers_ok cr (swap_worker (Working g) (Working g') (workers s))"
    by (auto simp: workers_ok_def rest)
  have "message_ok cr m" if "custom_igp_hook conf = None" and "stage_message g (shared s) = Some m" for m
  proof -
    from that(2) obtain a rq fee where g: "g = Priced a rq fee" and
      m: "m = forward_message (signer_address (celestia (shared s))) a (dest_domain rq) (dest_recipient rq)
          (token_id rq) fee (hook_binding_of rq (config (shared s)))"
      by (auto simp: stage_message_def split: forward_stage.splits)
    have "Working g \<in># workers s \<and> stage_request g = Some rq \<longrightarrow> request_ok cr (stage_addr g) rq"
      using ws unfolding workers_ok_def by blast
    then have "request_ok cr a rq" using assms(2) by (simp add: g)
    moreover have "hook_binding_of rq (config (shared s))
        = \<lparr>hook_id = custom_hook_id rq, metadata = custom_hook_metadata rq\<rparr>"
      using assms(1) that(1) by (simp add: world_ok_def hook_binding_of_def split: option.splits)
    ultimately show ?thesis
      by (simp add: message_ok_def m forward_message_def request_ok_def row_valid_def)
  qed
  with assms(1) frame workers show ?thesis
    by (auto simp: world_ok_def split: option.splits)
qed

lemma world_ok_step:
  assumes "world_step cr ch s act s'" and "world_ok cr conf s"
  shows "world_ok cr conf s'"
  using assms(1)
proof cases
  case (client_call now now' req)
  with assms(2) show ?thesis by (simp add: world_ok_def serve_registry_ok)
next
  case (backend_refreshed now)
  with assms(2) show ?thesis by (simp add: world_ok_def registry_ok_def backend_simps)
next
  case (relayer_step moment act')
  from relayer_step(2) show ?thesis
  proof cases
    case (ticked now g sent r b)
    with world_ok_begin_tick [OF assms(2), of ch moment now g r b] show ?thesis
      by (simp split: prod.splits)
  next
    case (tick_on g sent r b)
    with world_ok_tick_piece [OF assms(2) _ tick_on(4)] show ?thesis by (cases "maintenance s") auto
  next
    case (due_retried g sent r b)
    with world_ok_tick_piece [OF assms(2) _ due_retried(5)] show ?thesis by (cases "maintenance s") auto
  next
    case (signer_refreshed env)
    obtain q t where 1: "with_client (query_balances env (signer_address (celestia (shared s)))) (shared s) = (q, t)"
      by fastforce
    with assms(2) have "quiet (shared s) t"
      by (intro query_balances_quiet) (auto simp: world_ok_def)
    with assms(2) signer_refreshed show ?thesis
      by (cases q) (auto simp: world_ok_def refresh_signer_balance_metrics_def 1 Let_def quiet_def relayer_simps)
  next
    case (send p a rest)
    with assms(2) show ?thesis by (cases p) (simp_all add: world_ok_def sent_by_def relayer_simps)
  next
    case (spawn a)
    with assms(2) show ?thesis by (auto simp: world_ok_def workers_ok_def)
  next
    case (work g env clk g' r)
    with world_ok_work [OF assms(2) work(3,5)] show ?thesis by simp
  next
    case (finish a r)
    with assms(2) show ?thesis
      by (auto simp: world_ok_def workers_ok_def swap_worker_def dest: in_diffD)
  next
    case (release a r)
    with assms(2) show ?thesis
      by (auto simp: world_ok_def workers_ok_def swap_worker_def dest: in_diffD)
  next
    case (requeue a)
    with assms(2) show ?thesis by (auto simp: world_ok_def workers_ok_def dest: in_diffD)
  qed (use assms(2) in \<open>simp_all add: world_ok_def relayer_simps\<close>)
qed

lemma world_ok_run: "run (world_step cr ch) s acts s' \<Longrightarrow> world_ok cr conf s \<Longrightarrow> world_ok cr conf s'"
  by (rule run_invariant [of "world_step cr ch" s acts s' "world_ok cr conf"]) (auto intro: world_ok_step)

lemma world_ok_init:
  assumes "registry_ok cr b" and "live r = []" and "client_ok (celestia r)" and "submissions (celestia r) = []"
  shows "world_ok cr (config r) (run_relayer r b)"
  using assms by (simp add: world_ok_def run_relayer_def live_ok_def workers_ok_def)

lemma system_ok_world_step: "world_step cr ch s act s' \<Longrightarrow> system_ok n s \<Longrightarrow> system_ok n s'"
  by (auto elim!: world_step.cases intro: system_ok_step) (simp_all add: system_ok_def busy_def)

lemma system_ok_world: "run (world_step cr ch) s acts s' \<Longrightarrow> system_ok n s \<Longrightarrow> system_ok n s'"
  by (rule run_invariant [of "world_step cr ch" s acts s' "system_ok n"])
    (auto intro: system_ok_world_step)

fun world_attempts :: "world_action \<Rightarrow> string \<Rightarrow> bool" where
  "world_attempts (RelayerStep _ act) a = attempts act a"
| "world_attempts _ a = False"

lemma owed_world:
  "run (world_step cr ch) s acts s' \<Longrightarrow> system_ok n s \<Longrightarrow> owed s a \<Longrightarrow>
     owed s' a \<or> (\<exists>act \<in> set acts. world_attempts act a)"
proof (induction rule: run.induct)
  case (run_Cons s act s1 acts s')
  have "system_ok n s1"
    using system_ok_world_step [OF run_Cons.hyps(1) run_Cons.prems(1)] .
  moreover have "owed s1 a \<or> world_attempts act a"
    using run_Cons.hyps(1)
  proof cases
    case client_call
    with run_Cons.prems(2) show ?thesis by (simp add: owed_def)
  next
    case backend_refreshed
    with run_Cons.prems(2) show ?thesis by (simp add: owed_def)
  next
    case relayer_step
    with owed_step [OF run_Cons.prems(1) _ run_Cons.prems(2)] show ?thesis by auto
  qed
  ultimately show ?case using run_Cons.IH by auto
qed simp

fun world_exec :: "crypto \<Rightarrow> chrono \<Rightarrow> world_action \<Rightarrow> backend_state system \<Rightarrow> backend_state system option" where
  "world_exec cr ch (ClientCall now now' req) s =
     Some (s\<lparr>backend := snd (serve cr ch now now' req (backend s))\<rparr>)"
| "world_exec cr ch (BackendRefreshed now) s =
     (if metrics_enabled (backend s) then Some (s\<lparr>backend := snd (refresh_metrics ch now (backend s))\<rparr>)
      else None)"
| "world_exec cr ch (RelayerStep moment act) s = sys_exec (link_at cr ch moment) ch act s"

lemma world_step_iff: "world_step cr ch s act s' \<longleftrightarrow> world_exec cr ch act s = Some s'"
proof (cases act)
  case (ClientCall now now' req)
  then show ?thesis by (auto intro: world_step.intros elim: client_callE)
next
  case (BackendRefreshed now)
  then show ?thesis by (auto intro: world_step.intros elim: backend_refreshedE)
next
  case (RelayerStep moment act')
  then show ?thesis by (auto simp: sys_step_iff intro: world_step.intros elim!: relayer_stepE)
qed

fun world_run :: "crypto \<Rightarrow> chrono \<Rightarrow> world_action list \<Rightarrow> backend_state system \<Rightarrow> backend_state system option" where
  "world_run cr ch [] s = Some s"
| "world_run cr ch (act # acts) s =
     (case world_exec cr ch act s of None \<Rightarrow> None | Some s' \<Rightarrow> world_run cr ch acts s')"

lemma run_world_run: "run (world_step cr ch) s acts s' \<longleftrightarrow> world_run cr ch acts s = Some s'"
  by (induction acts arbitrary: s) (auto simp: run_Cons_iff world_step_iff split: option.splits)

text \<open>
  Whatever happens to the backend is the answer to a request or a refresh of its metrics.
\<close>

lemma world_step_backend:
  assumes "world_step cr ch s act s'"
  obtains (same) "backend s' = backend s"
  | (served) now now' req where "backend s' = snd (serve cr ch now now' req (backend s))"
  | (refreshed) now where "backend s' = snd (refresh_metrics ch now (backend s))"
  using assms
proof cases
  case (relayer_step moment act')
  have get: "snd (http_get (link_at cr ch moment) b) = b
      \<or> (\<exists>now. snd (http_get (link_at cr ch moment) b) = snd (serve cr ch now now GetForwardingRequests b))" for b
    by (cases moment) (auto simp: link_at_def unreachable_def over_http_def split_beta)
  have del: "snd (http_delete (link_at cr ch moment) a b) = b
      \<or> (\<exists>now. snd (http_delete (link_at cr ch moment) a b)
          = snd (serve cr ch now now (DeleteForwardingRequest a) b))" for a b
    by (cases moment) (auto simp: link_at_def unreachable_def over_http_def split_beta)
  from sys_step_backend [OF relayer_step(2)] get del show thesis
    using same served by metis
qed (use that in auto)

lemma world_backend_ok:
  assumes "world_step cr ch s act s'"
  shows "(registry_ok cr (backend s) \<longrightarrow> registry_ok cr (backend s'))
    \<and> (sql_healthy (storage (backend s)) \<longrightarrow> sql_healthy (storage (backend s')))"
  using assms
proof (cases rule: world_step_backend)
  case (served now now' req)
  with serve_registry_ok [of cr "backend s" ch now now' req] serve_fault [of cr ch now now' req "backend s"]
  show ?thesis by (simp add: sql_healthy_def)
next
  case (refreshed now)
  with refresh_metrics_fault [of ch now "backend s"] show ?thesis
    by (simp add: sql_healthy_def registry_ok_def backend_simps)
qed simp

lemma world_backend_ok_run:
  assumes "run (world_step cr ch) s acts s'" and "registry_ok cr (backend s)" and "sql_healthy (storage (backend s))"
  shows "registry_ok cr (backend s') \<and> sql_healthy (storage (backend s'))"
  using assms(1,2,3) by induction (use world_backend_ok in blast)+

fun world_clock_ok :: "world_action \<Rightarrow> bool" where
  "world_clock_ok (RelayerStep _ act) = action_clock_ok act"
| "world_clock_ok _ = True"

lemma relayer_ok_world_run:
  "run (world_step cr ch) s acts s' \<Longrightarrow> relayer_ok ch (shared s) \<Longrightarrow> chrono_roundtrip ch \<Longrightarrow>
     list_all world_clock_ok acts \<Longrightarrow> relayer_ok ch (shared s')"
proof (induction rule: run.induct)
  case (run_Cons s act s1 acts s')
  from run_Cons.hyps(1) have "relayer_ok ch (shared s1)"
  proof cases
    case (relayer_step moment act')
    with relayer_ok_system [OF relayer_step(2)] run_Cons.prems show ?thesis by simp
  qed (use run_Cons.prems(1) in simp_all)
  with run_Cons show ?case by simp
qed simp

text \<open>A tick that reaches a working backend owes a forward to what is registered and not live.\<close>

lemma ticked_owes:
  assumes "world_step cr ch s (RelayerStep (Some t) (Ticked now)) s1"
    and "registry_ok cr (backend s)" and "sql_healthy (storage (backend s))"
    and "reg (backend s) a = Some rq" and "hm_get (live (shared s)) a = None"
    and "retirement_reason ch (created_at rq) (hm_get (last_activity (shared s)) a) now
      (max_request_age_seconds (config (shared s))) (max_address_inactivity_seconds (config (shared s))) = None"
  shows "owed s1 a"
proof -
  obtain g r b where tick: "begin_tick (over_http cr ch t) ch now (shared s, backend s) = (g, r, b)"
    by (metis prod.exhaust)
  with assms(1) have "maintenance s1 = g"
    by (auto simp: world_step_iff link_at_def split: if_splits)
  with begin_tick_registered [OF tick assms(2-6)] show ?thesis by (auto simp: owed_def)
qed

end
