(* ===== verification/Program.thy ===== *)
theory Program
  imports World
begin

text \<open>
  The executable: the metrics exporter (\<^verbatim>\<open>src/metrics.rs\<close>), the subcommands (\<^verbatim>\<open>Command\<close> in
  \<^verbatim>\<open>src/lib.rs\<close>, \<^verbatim>\<open>src/main.rs\<close>) and how the two servers start.
\<close>

section \<open>The metrics exporter\<close>

text \<open>
  \<open>runtime\<close> is \<^verbatim>\<open>METRICS_RUNTIME\<close>, whose handle is opaque; \<open>recorder\<close> says that a recorder is
  installed in the process, \<open>servers\<close> and \<open>upkeeps\<close> what has been spawned. \<open>install\<close> stands for
  \<^verbatim>\<open>PrometheusBuilder::install_recorder\<close> and is given whether there is a recorder already.
\<close>

record metrics_process =
  runtime :: "u16 option"
  recorder :: bool
  servers :: "u16 list"
  upkeeps :: nat

definition new_process :: metrics_process where
  "new_process = \<lparr>runtime = None, recorder = False, servers = [], upkeeps = 0\<rparr>"

definition metrics_on :: "metrics_process \<Rightarrow> bool" where
  "metrics_on m \<longleftrightarrow> runtime m \<noteq> None"

definition already_initialized :: "u16 \<Rightarrow> string" where
  "already_initialized port = ''metrics exporter already initialized on port '' @ decimal (unat port)"

definition initialized_concurrently :: string where
  "initialized_concurrently = ''metrics exporter initialized concurrently''"

definition spawn_exporter :: "u16 \<Rightarrow> metrics_process \<Rightarrow> metrics_process" where
  "spawn_exporter port m =
     m\<lparr>recorder := True, servers := servers m @ [port], upkeeps := Suc (upkeeps m)\<rparr>"

text \<open>The function between the points where another thread can come in.\<close>

datatype exporter_stage =
    Called "u16 option"
  | Vacant u16
  | Spawned u16
  | Returned "unit result"

fun exporter_piece ::
  "(bool \<Rightarrow> unit result) \<Rightarrow> exporter_stage \<Rightarrow> metrics_process \<Rightarrow> exporter_stage \<times> metrics_process" where
  "exporter_piece install (Called None) m = (Returned (Inr ()), m)"
| "exporter_piece install (Called (Some port)) m =
     (case runtime m of
        Some p \<Rightarrow> (Returned (if p = port then Inr () else Inl (already_initialized p)), m)
      | None \<Rightarrow> (Vacant port, m))"
| "exporter_piece install (Vacant port) m =
     (case with_context ''Failed to install Prometheus recorder'' (install (recorder m)) of
        Inl e \<Rightarrow> (Returned (Inl e), m)
      | Inr _ \<Rightarrow> (Spawned port, spawn_exporter port m))"
| "exporter_piece install (Spawned port) m =
     (case runtime m of
        Some _ \<Rightarrow> (Returned (Inl initialized_concurrently), m)
      | None \<Rightarrow> (Returned (Inr ()), m\<lparr>runtime := Some port\<rparr>))"
| "exporter_piece install (Returned r) m = (Returned r, m)"

definition init_metrics_exporter ::
  "(bool \<Rightarrow> unit result) \<Rightarrow> u16 option \<Rightarrow> (metrics_process, unit) io" where
  "init_metrics_exporter install port m =
     (case port of
        None \<Rightarrow> (Inr (), m)
      | Some port \<Rightarrow>
     (case runtime m of
        Some p \<Rightarrow> if p = port then (Inr (), m) else (Inl (already_initialized p), m)
      | None \<Rightarrow>
     (case with_context ''Failed to install Prometheus recorder'' (install (recorder m)) of
        Inl e \<Rightarrow> (Inl e, m)
      | Inr _ \<Rightarrow> (Inr (), (spawn_exporter port m)\<lparr>runtime := Some port\<rparr>))))"

text \<open>
  What the spawned tasks do. \<open>render\<close> and \<open>run_upkeep\<close> are the methods of the Prometheus handle, on
  its recorded metrics \<open>'r\<close>; \<open>bind\<close> and \<open>serve_app\<close> are tokio's listener and axum's server, which
  returns only with an error.
\<close>

definition render_metrics :: "('r \<Rightarrow> string) \<Rightarrow> 'r \<Rightarrow> metrics_process \<Rightarrow> string option" where
  "render_metrics render rec m = map_option (\<lambda>_. render rec) (runtime m)"

definition metrics_router :: "('r \<Rightarrow> string) \<Rightarrow> 'r \<Rightarrow> string \<Rightarrow> string \<Rightarrow> nat \<times> string" where
  "metrics_router render rec verb path =
     (if path \<noteq> ''/metrics'' then (404, [])
      else if verb = ''GET'' then (200, render rec)
      else if verb = ''HEAD'' then (200, [])
      else (405, []))"

datatype server_log = BindFailed string string | ServerFailed string

definition metrics_server ::
  "(string \<Rightarrow> 'l result) \<Rightarrow> ('l \<Rightarrow> (string \<Rightarrow> string \<Rightarrow> nat \<times> string) \<Rightarrow> unit result) \<Rightarrow> ('r \<Rightarrow> string) \<Rightarrow> 'r
     \<Rightarrow> u16 \<Rightarrow> server_log list" where
  "metrics_server bind serve_app render rec port =
     (let addr = ''0.0.0.0:'' @ decimal (unat port) in
      case bind addr of
        Inr listener \<Rightarrow>
          (case serve_app listener (metrics_router render rec) of
             Inl e \<Rightarrow> [ServerFailed e]
           | Inr _ \<Rightarrow> [])
      | Inl e \<Rightarrow> [BindFailed addr e])"

definition METRICS_UPKEEP_INTERVAL :: nat where
  "METRICS_UPKEEP_INTERVAL = 5"

text \<open>The upkeep loop after so many seconds: it sleeps first.\<close>

definition metrics_upkeep :: "('r \<Rightarrow> 'r) \<Rightarrow> nat \<Rightarrow> 'r \<Rightarrow> 'r" where
  "metrics_upkeep run_upkeep secs = (run_upkeep ^^ (secs div METRICS_UPKEEP_INTERVAL))"

lemma initialized_is_scraped:
  assumes "init_metrics_exporter install (Some port) m = (Inr (), m')"
  shows "metrics_on m' \<and> render_metrics render rec m' = Some (snd (metrics_router render rec ''GET'' ''/metrics''))"
  using assms
  by (auto simp: init_metrics_exporter_def metrics_on_def render_metrics_def metrics_router_def
      split: option.splits sum.splits if_splits)

lemma exporter_pieces:
  "((\<lambda>(g, m). exporter_piece install g m) ^^ 3) (Called port, m)
     = (case init_metrics_exporter install port m of (r, m') \<Rightarrow> (Returned r, m'))"
  by (auto simp: numeral_eq_Suc init_metrics_exporter_def spawn_exporter_def split: option.splits sum.splits)

text \<open>Callers in parallel: the schedule names whose turn it is.\<close>

fun exporter_turn ::
  "(bool \<Rightarrow> unit result) \<Rightarrow> nat \<Rightarrow> exporter_stage list \<times> metrics_process
     \<Rightarrow> exporter_stage list \<times> metrics_process" where
  "exporter_turn install i (gs, m) =
     (if i < length gs then (case exporter_piece install (gs ! i) m of (g, m') \<Rightarrow> (gs[i := g], m'))
      else (gs, m))"

text \<open>What the metrics library documents: there is one recorder per process.\<close>

definition installs_once :: "(bool \<Rightarrow> unit result) \<Rightarrow> bool" where
  "installs_once install \<longleftrightarrow> (\<forall>r. install True \<noteq> Inr r)"

fun stage_from :: "metrics_process \<Rightarrow> u16 option \<Rightarrow> exporter_stage \<Rightarrow> bool" where
  "stage_from m call (Called port) = (port = call)"
| "stage_from m call (Vacant port) = (call = Some port)"
| "stage_from m call (Spawned port) = (call = Some port \<and> servers m = [port] \<and> runtime m = None)"
| "stage_from m call (Returned (Inr _)) = (call = None \<or> runtime m = call)"
| "stage_from m call (Returned (Inl e)) = (e \<noteq> initialized_concurrently)"

fun spawned :: "exporter_stage \<Rightarrow> bool" where
  "spawned (Spawned _) = True"
| "spawned _ = False"

definition exporter_ok :: "u16 option list \<Rightarrow> exporter_stage list \<times> metrics_process \<Rightarrow> bool" where
  "exporter_ok calls gm \<longleftrightarrow>
     (let (gs, m) = gm in
      length gs = length calls \<and> (\<forall>i < length gs. stage_from m (calls ! i) (gs ! i))
      \<and> (\<forall>i < length gs. \<forall>j < length gs. spawned (gs ! i) \<and> spawned (gs ! j) \<longrightarrow> i = j)
      \<and> length (servers m) \<le> 1 \<and> upkeeps m = length (servers m) \<and> recorder m = (servers m \<noteq> [])
      \<and> (\<forall>p. runtime m = Some p \<longrightarrow> servers m = [p]))"

lemma exporter_messages:
  "already_initialized p \<noteq> initialized_concurrently"
  "with_context ''Failed to install Prometheus recorder'' r \<noteq> Inl initialized_concurrently"
  by (auto simp: already_initialized_def initialized_concurrently_def with_context_def split: sum.splits)

text \<open>The stages of the other callers survive a turn that changes the process.\<close>

lemma stage_from_spawn:
  assumes "stage_from m call g" and "servers m = []"
  shows "stage_from (spawn_exporter port m) call g"
  using assms by (cases "(m, call, g)" rule: stage_from.cases) (auto simp: spawn_exporter_def)

lemma stage_from_publish:
  assumes "stage_from m call g" and "runtime m = None" and "\<not> spawned g"
  shows "stage_from (m\<lparr>runtime := Some port\<rparr>) call g"
  using assms by (cases "(m, call, g)" rule: stage_from.cases) auto

lemma exporter_ok_turn:
  assumes "installs_once install" and "exporter_ok calls (gs, m)"
  shows "exporter_ok calls (exporter_turn install i (gs, m))"
proof (cases "i < length gs")
  case i: True
  have from_i: "stage_from m (calls ! i) (gs ! i)" using assms(2) i by (simp add: exporter_ok_def)
  have others: "exporter_ok calls (gs[i := g], m)" if "stage_from m (calls ! i) g" "\<not> spawned g" for g
    using assms(2) that i by (auto simp: exporter_ok_def nth_list_update)
  show ?thesis
  proof (cases "(install, gs ! i, m)" rule: exporter_piece.cases)
    case (3 _ port _)
    then have g: "gs ! i = Vacant port" by simp
    show ?thesis
    proof (cases "with_context ''Failed to install Prometheus recorder'' (install (recorder m))")
      case (Inl e)
      then have "e \<noteq> initialized_concurrently" using exporter_messages(2) by blast
      with Inl g i from_i show ?thesis using others [of "Returned (Inl e)"] by simp
    next
      case (Inr u)
      then have "\<not> recorder m" using assms(1) by (auto simp: installs_once_def with_context_def split: sum.splits)
      then have none: "servers m = []" using assms(2) by (simp add: exporter_ok_def)
      then have "\<not> spawned (gs ! j)" if "j < length gs" for j
        using assms(2) that by (cases "gs ! j") (auto simp: exporter_ok_def)
      moreover have "stage_from (spawn_exporter port m) (calls ! j) (gs ! j)" if "j < length gs" for j
        using assms(2) that none stage_from_spawn by (simp add: exporter_ok_def)
      ultimately show ?thesis
        using Inr g i from_i assms(2) none
        by (auto simp: exporter_ok_def nth_list_update spawn_exporter_def)
    qed
  next
    case (4 _ port _)
    then have g: "gs ! i = Spawned port" by simp
    with from_i have m: "runtime m = None" "servers m = [port]" "calls ! i = Some port" by auto
    have "\<not> spawned (gs ! j)" if "j < length gs" "j \<noteq> i" for j
      using assms(2) i g that by (auto simp: exporter_ok_def)
    then have "stage_from (m\<lparr>runtime := Some port\<rparr>) (calls ! j) (gs ! j)" if "j < length gs" "j \<noteq> i" for j
      using assms(2) that m(1) stage_from_publish by (simp add: exporter_ok_def)
    with g i m assms(2) show ?thesis
      by (auto simp: exporter_ok_def nth_list_update)
  next
    case (1 _ _)
    then show ?thesis using i from_i others [of "Returned (Inr ())"] by simp
  next
    case (2 _ port _)
    then have g: "gs ! i = Called (Some port)" by simp
    with from_i have "calls ! i = Some port" by simp
    with g show ?thesis
      using i others [of "Vacant port"] others [of "Returned (Inr ())"] exporter_messages(1)
        others [of "Returned (Inl (already_initialized p))" for p]
      by (auto split: option.splits)
  next
    case (5 _ r _)
    then have "gs[i := Returned r] = gs" using i by (metis list_update_id prod.inject)
    with 5 show ?thesis using i assms(2) by simp
  qed
qed (use assms(2) in simp)

lemma exporter_ok_run:
  assumes "installs_once install"
  shows "exporter_ok calls gm \<Longrightarrow> exporter_ok calls (fold (exporter_turn install) turns gm)"
proof (induction turns arbitrary: gm)
  case (Cons i turns)
  obtain gs m where "gm = (gs, m)" by fastforce
  with Cons exporter_ok_turn [OF assms] show ?case by simp
qed simp

lemma exporter_ok_new: "exporter_ok calls (map Called calls, new_process)"
  by (simp add: exporter_ok_def new_process_def)

text \<open>C39: the exporter starts once. However many threads call \<^verbatim>\<open>init_metrics_exporter\<close>, with whatever
  ports, and however they interleave: at most one server and one upkeep loop are spawned; a
  caller that is told all is well has its metrics served on the port it asked for; and none is
  ever told that the exporter was \<^verbatim>\<open>initialized concurrently\<close>, as the recorder can be installed
  only once.\<close>

theorem exporter_starts_once:
  assumes "installs_once install"
    and "fold (exporter_turn install) turns (map Called calls, new_process) = (gs, m)"
  shows "length (servers m) \<le> 1 \<and> upkeeps m = length (servers m)
    \<and> (\<forall>p. runtime m = Some p \<longrightarrow> servers m = [p])
    \<and> (\<forall>i < length calls. \<forall>port. gs ! i = Returned (Inr ()) \<and> calls ! i = Some port \<longrightarrow> servers m = [port])
    \<and> Returned (Inl initialized_concurrently) \<notin> set gs"
proof -
  have ok: "exporter_ok calls (gs, m)"
    using exporter_ok_run [OF assms(1) exporter_ok_new, of calls turns] assms(2) by simp
  have "servers m = [port]" if "i < length calls" "gs ! i = Returned (Inr ())" "calls ! i = Some port" for i port
  proof -
    have "stage_from m (calls ! i) (gs ! i)" using ok that(1) by (simp add: exporter_ok_def)
    with that(2,3) have "runtime m = Some port" by simp
    with ok show ?thesis by (simp add: exporter_ok_def)
  qed
  moreover have "gs ! i \<noteq> Returned (Inl initialized_concurrently)" if "i < length gs" for i
  proof -
    have "stage_from m (calls ! i) (gs ! i)" using ok that by (simp add: exporter_ok_def)
    then show ?thesis by auto
  qed
  ultimately show ?thesis using ok by (auto simp: exporter_ok_def in_set_conv_nth)
qed

definition one_recorder :: "bool \<Rightarrow> unit result" where
  "one_recorder present = (if present then Inl ''recorder already set'' else Inr ())"

text \<open>Two threads pass the first check together; a third comes later.\<close>

theorem exporter_starts_once_witness:
  "let (gs, m) = fold (exporter_turn one_recorder) [0, 1, 1, 0, 1, 2]
       (map Called [Some 9000, Some 9001, Some 9001], new_process)
   in gs = [Returned (Inl ''Failed to install Prometheus recorder''), Returned (Inr ()), Returned (Inr ())]
      \<and> servers m = [9001]"
proof -
  let ?run = "fold (exporter_turn one_recorder) [0, 1, 1, 0, 1, 2]
       (map Called [Some 9000, Some 9001, Some 9001], new_process)"
  obtain gs m where gm: "?run = (gs, m)" by fastforce
  have "fst ?run = [Returned (Inl ''Failed to install Prometheus recorder''), Returned (Inr ()), Returned (Inr ())]"
    by code_simp
  then have gs: "gs = [Returned (Inl ''Failed to install Prometheus recorder''), Returned (Inr ()), Returned (Inr ())]"
    by (simp only: gm fst_conv)
  have "installs_once one_recorder" by (simp add: installs_once_def one_recorder_def)
  from exporter_starts_once [OF this gm]
  have "\<forall>i < length [Some 9000, Some 9001, Some (9001 :: u16)]. \<forall>port.
      gs ! i = Returned (Inr ()) \<and> [Some 9000, Some 9001, Some 9001] ! i = Some port \<longrightarrow> servers m = [port]"
    by blast
  from this [rule_format, of 1 9001] have "servers m = [9001]" by (simp add: gs)
  then show ?thesis unfolding gm by (simp add: gs)
qed

section \<open>Starting up\<close>

text \<open>
  The libraries and the system under the program: what \<open>Address\<close>, \<open>Client\<close>, \<open>Retry_Store\<close> and
  \<open>Backend\<close> take as parameters, the parent of a path, whether an HTTP client can be built and
  a port bound.
\<close>

record ('key, 'mnemonic, 'path) host =
  hashes :: crypto
  calendar :: chrono
  from_slice :: "bytes \<Rightarrow> 'key result"
  account_id :: "string \<Rightarrow> 'key \<Rightarrow> string result"
  endpoint_new :: "string \<Rightarrow> unit result"
  tx_build :: "string \<Rightarrow> string option \<Rightarrow> string \<Rightarrow> unit result"
  parse_ascii :: "string \<Rightarrow> string option"
  http_builder :: "unit result"
  path_parent :: "string \<Rightarrow> string option"
  create_dir_all :: "string \<Rightarrow> unit result"
  open_retry_db :: "string \<Rightarrow> retry_store result"
  open_backend_db :: "string \<Rightarrow> backend_storage result"
  bind_port :: "u16 \<Rightarrow> unit result"
  install_recorder :: "bool \<Rightarrow> unit result"
  parse_mnemonic :: "string \<Rightarrow> 'mnemonic result"
  to_seed :: "'mnemonic \<Rightarrow> string \<Rightarrow> bytes"
  parse_path :: "string \<Rightarrow> 'path result"
  derive_from_path :: "bytes \<Rightarrow> 'path \<Rightarrow> bytes result"
  hex_encode :: "bytes \<Rightarrow> string"

definition start_relayer :: "('key, 'mnemonic, 'path) host \<Rightarrow> relayer_config \<Rightarrow> relayer_state result" where
  "start_relayer h conf =
     relayer_new (calendar h) conf
       (case client_new (hashes h) (from_slice h) (account_id h) (endpoint_new h) (tx_build h) (parse_ascii h)
               (celestia_grpc conf) (private_key_hex conf) of
          Inl e \<Rightarrow> Inl e
        | Inr client \<Rightarrow>
            (case with_context ''Failed to build HTTP client'' (http_builder h) of
               Inl e \<Rightarrow> Inl e
             | Inr _ \<Rightarrow> Inr client))
       (retry_store_new (create_dir_all h) (open_retry_db h) (path_parent h (retry_state_db_path conf))
          (retry_state_db_path conf))"

record backend_config =
  backend_port :: u16
  db_path :: string
  backend_metrics_port :: "u16 option"

definition start_backend :: "('key, 'mnemonic, 'path) host \<Rightarrow> backend_config \<Rightarrow> backend_state result" where
  "start_backend h conf =
     backend_state_new
       (backend_storage_new (create_dir_all h) (open_backend_db h) (path_parent h (db_path conf)) (db_path conf))
       (backend_metrics_port conf \<noteq> None)"

text \<open>\<^verbatim>\<open>Backend::serve\<close> until it listens; its background refresh is \<open>BackendRefreshed\<close> in \<open>World\<close>.\<close>

definition backend_listens ::
  "('key, 'mnemonic, 'path) host \<Rightarrow> int \<Rightarrow> u16 \<Rightarrow> (backend_state, unit) io" where
  "backend_listens h now port =
     bind_io (\<lambda>s. if metrics_enabled s then refresh_metrics (calendar h) now s else (Inr (), s))
       (\<lambda>_ s. (bind_port h port, s))"

datatype command =
    RelayerCommand relayer_config
  | BackendCommand backend_config
  | DeriveAddress u32 string string "string option" "string option"
  | DerivePrivateKey string

text \<open>What the process goes on with: the relayer's run loop, the backend's server, or a line printed.\<close>

datatype outcome =
    Relaying relayer_state
  | Serving backend_state
  | Printed string

definition run_command ::
  "('key, 'mnemonic, 'path) host \<Rightarrow> int \<Rightarrow> command \<Rightarrow> (metrics_process, outcome) io" where
  "run_command h now cmd m =
     (case cmd of
        RelayerCommand conf \<Rightarrow>
          bind_io (init_metrics_exporter (install_recorder h) (metrics_port conf))
            (\<lambda>_ m. (map_sum id Relaying (start_relayer h conf), m)) m
      | BackendCommand conf \<Rightarrow>
          bind_io (init_metrics_exporter (install_recorder h) (backend_metrics_port conf))
            (\<lambda>_ m.
              case start_backend h conf of
                Inl e \<Rightarrow> (Inl e, m)
              | Inr s \<Rightarrow>
                  (case backend_listens h now (backend_port conf) s of
                     (Inl e, _) \<Rightarrow> (Inl e, m)
                   | (Inr _, s') \<Rightarrow> (Inr (Serving s'), m))) m
      | DeriveAddress dest dest_recip token hook meta \<Rightarrow>
          (map_sum id Printed (derive_forwarding_address (hashes h) dest dest_recip token hook meta), m)
      | DerivePrivateKey mnemonic \<Rightarrow>
          (map_sum id Printed
             (derive_private_key_from_mnemonic (parse_mnemonic h) (to_seed h) (parse_path h)
                (derive_from_path h) (hex_encode h) mnemonic), m))"

lemma run_relayer_command:
  assumes "run_command h now (RelayerCommand conf) m = (Inr out, m')"
  obtains r where "out = Relaying r" "start_relayer h conf = Inr r"
  using assms by (auto simp: run_command_def bind_io_def map_sum_def split: prod.splits sum.splits)

lemma run_backend_command:
  assumes "run_command h now (BackendCommand conf) m = (Inr out, m')"
  obtains s s' where "out = Serving s'" "start_backend h conf = Inr s"
    "backend_listens h now (backend_port conf) s = (Inr (), s')"
  using assms by (auto simp: run_command_def bind_io_def split: prod.splits sum.splits)

lemma start_relayer_cases:
  assumes "start_relayer h conf = Inr r"
  obtains client where "client_new (hashes h) (from_slice h) (account_id h) (endpoint_new h) (tx_build h)
      (parse_ascii h) (celestia_grpc conf) (private_key_hex conf) = Inr client"
    "celestia r = client" "config r = conf" "live r = []"
  using assms by (auto simp: start_relayer_def relayer_new_def Let_def split: sum.splits prod.splits)

lemma client_new_empty: "client_new cr fs ai en tb pa urls key = Inr c \<Longrightarrow> submissions c = []"
  by (auto simp: client_new_def split: sum.splits prod.splits if_splits)

text \<open>What a row of a database file is once the columns it may lack have been added.\<close>

definition read_row :: "string list \<Rightarrow> forwarding_request \<Rightarrow> forwarding_request" where
  "read_row cols r = fold null_column (filter (\<lambda>c. c \<notin> set cols) [''custom_hook_id'', ''custom_hook_metadata'']) r"

definition file_columns :: "backend_tables \<Rightarrow> string list" where
  "file_columns t = (case schema t of None \<Rightarrow> request_columns | Some cols \<Rightarrow> cols)"

definition file_ok :: "crypto \<Rightarrow> backend_tables \<Rightarrow> bool" where
  "file_ok cr t \<longleftrightarrow> tbl_wf forward_addr (forwarding_requests t)
     \<and> list_all (row_valid cr \<circ> read_row (file_columns t)) (forwarding_requests t)"

lemma migrate_column_fault [backend_simps]: "sql_fault (snd (migrate_column column c)) = sql_fault c"
proof -
  obtain r c' where rc: "sql_run (add_column column) c = (r, c')" by fastforce
  then have "sql_fault c' = sql_fault c"
    by (auto simp: sql_run_def Let_def split: option.splits sum.splits)
  with rc show ?thesis by (cases r) (simp_all add: migrate_column_def split: unit.split)
qed

lemma migrate_column_rows:
  assumes "sql_healthy c" and "schema (tables c) = Some cols" and "migrate_column column c = (r, c')"
  shows "sql_healthy c' \<and> schema (tables c') = Some (if column \<in> set cols then cols else cols @ [column])
    \<and> forwarding_requests (tables c')
      = map (if column \<in> set cols then id else null_column column) (forwarding_requests (tables c))"
proof (cases "column \<in> set cols")
  case True
  with migrate_column_present [OF assms(2) True] migrate_column_fault [of column c] assms show ?thesis
    by (simp add: sql_healthy_def)
next
  case False
  with migrate_column_absent [OF assms(1,2) False] assms show ?thesis by (auto simp: sql_healthy_def)
qed

lemma read_row_keeps: "forward_addr (read_row cols r) = forward_addr r"
  by (auto simp: read_row_def null_column_def)

lemma backend_storage_init_rows:
  assumes "sql_healthy c" and "backend_storage_init c = (Inr (), c')"
  shows "forwarding_requests (tables c') = map (read_row (file_columns (tables c))) (forwarding_requests (tables c))"
proof -
  let ?cols = "file_columns (tables c)"
  obtain r1 c1 where 1: "context_io ''Failed to create forwarding_requests table''
      (sql_exec create_requests_table) c = (r1, c1)" by fastforce
  with assms(1) have c1: "sql_healthy c1" "schema (tables c1) = Some ?cols"
    "forwarding_requests (tables c1) = forwarding_requests (tables c)"
    by (auto simp: context_io_def sql_exec_healthy sql_healthy_def create_requests_table_def
        file_columns_def split: option.splits)
  obtain r2 c2 where 2: "migrate_column ''custom_hook_id'' c1 = (r2, c2)" by fastforce
  obtain r3 c3 where 3: "migrate_column ''custom_hook_metadata'' c2 = (r3, c3)" by fastforce
  note m2 = migrate_column_rows [OF c1(1,2) 2]
  note m3 = migrate_column_rows [OF conjunct1 [OF m2] conjunct1 [OF conjunct2 [OF m2]] 3]
  from assms(2) 1 2 3 have "c' = c3"
    by (auto simp: backend_storage_init_def bind_io_def return_io_def split: sum.splits)
  with m2 m3 c1(3) show ?thesis by (auto simp: read_row_def split: if_splits)
qed

lemma start_backend_cases:
  assumes "start_backend h conf = Inr s"
  obtains c c' where "open_backend_db h (db_path conf) = Inr c" "backend_storage_init c = (Inr (), c')"
    "tables (storage s) = tables c'"
  using assms storage_list_tables
  by (auto simp: start_backend_def backend_state_new_def backend_storage_new_def split: sum.splits prod.splits)
    (metis snd_conv)+

lemma backend_listens_tables:
  "backend_listens h now port s = (r, s') \<Longrightarrow> tables (storage s') = tables (storage s)"
  by (auto simp: backend_listens_def bind_io_def split: prod.splits sum.splits if_splits)
    (metis refresh_metrics_tables snd_conv)+

section \<open>What a start establishes\<close>

lemma started_backend:
  assumes "run_command h now (BackendCommand conf) m = (Inr (Serving b), m')"
    and "open_backend_db h (db_path conf) = Inr c" and "sql_healthy c" and "file_ok cr (tables c)"
  shows "registry_ok cr b"
proof -
  obtain s c' where s: "start_backend h conf = Inr s" "backend_listens h now (backend_port conf) s = (Inr (), b)"
    and c': "backend_storage_init c = (Inr (), c')" "tables (storage s) = tables c'"
    using run_backend_command [OF assms(1)] start_backend_cases assms(2)
    by (metis outcome.inject(2) sum.inject(2))
  have "rows b = map (read_row (file_columns (tables c))) (forwarding_requests (tables c))"
    using backend_listens_tables [OF s(2)] c' backend_storage_init_rows [OF assms(3) c'(1)] by simp
  with assms(4) show ?thesis
    by (simp add: registry_ok_def file_ok_def comp_def read_row_keeps list.pred_map)
qed

lemma started_relayer:
  assumes "run_command h now (RelayerCommand conf) m = (Inr (Relaying r), m')"
  obtains client where "client_new (hashes h) (from_slice h) (account_id h) (endpoint_new h) (tx_build h)
      (parse_ascii h) (celestia_grpc conf) (private_key_hex conf) = Inr client"
    "celestia r = client" "config r = conf" "live r = []" "submissions client = []"
  using run_relayer_command [OF assms] start_relayer_cases client_new_empty
  by (metis outcome.inject(1))

text \<open>C12: the type of a running system. Start the relayer and, on a database whose rows are valid
  once the columns they lack are read as NULL, the backend: then in every state any
  interleaving reaches, the registry, the live list, the list a tick is about to swap in, the
  request each worker holds and every message submitted are well-formed over the derivation
  of addresses, the endpoint pool is not empty with its rotation inside it, and the
  configuration is the one given; each endpoint of the pool started with its own token on
  both its channels.\<close>

theorem started_programs_are_well_formed:
  assumes "run_command h now (RelayerCommand conf) m = (Inr (Relaying r), m')"
    and "run_command h' now' (BackendCommand bconf) mb = (Inr (Serving b), mb')"
    and "open_backend_db h' (db_path bconf) = Inr c" and "sql_healthy c" and "file_ok cr (tables c)"
    and "\<forall>s v. parse_ascii h s = Some v \<longrightarrow> v = s"
    and "run (world_step cr ch) (run_relayer r b) acts s"
  shows "world_ok cr conf s
    \<and> (\<forall>ep \<in> set (endpoints (celestia r)). ge_channel_token ep = ge_tx_token ep)
    \<and> (\<exists>specs. parse_endpoint_specs (celestia_grpc conf) = Inr specs
        \<and> map ge_tx_token (endpoints (celestia r)) = map (map_option as_str \<circ> ep_token) specs)"
proof -
  obtain client where client: "client_new (hashes h) (from_slice h) (account_id h) (endpoint_new h) (tx_build h)
      (parse_ascii h) (celestia_grpc conf) (private_key_hex conf) = Inr client"
    "celestia r = client" "config r = conf" "live r = []" "submissions client = []"
    using started_relayer [OF assms(1)] .
  note tokens = client_new_tokens [OF client(1) assms(6)]
  then have "world_ok cr (config r) (run_relayer r b)"
    using client started_backend [OF assms(2-5)] by (intro world_ok_init) simp_all
  from world_ok_run [OF assms(7) this] client tokens show ?thesis by auto
qed

text \<open>the command line and the backend agree. The address \<^verbatim>\<open>derive-address\<close> prints is the one
  \<^verbatim>\<open>GET /forwarding-address\<close> answers for the same parameters, and a backend with a working
  database takes a registration of it: 201 and a new row when it is not registered, else 200
  and the row it has; no other row changes.\<close>

theorem printed_address_registers:
  assumes "run_command h now (DeriveAddress domain recip token hook meta) m = (Inr (Printed a), m')"
    and "sql_healthy (storage s)"
    and "req = \<lparr>c_forward_addr = a, c_dest_domain = domain, c_dest_recipient = recip, c_token_id = token,
      c_custom_hook_id = hook, c_custom_hook_metadata = meta\<rparr>"
    and "serve (hashes h) ch t t' (PostForwardingRequests req) s = ((code, body), s')"
  shows "get_forwarding_address (hashes h) \<lparr>q_dest_domain = domain, q_dest_recipient = recip,
        q_token_id = token, q_custom_hook_id = hook, q_custom_hook_metadata = meta\<rparr> = (200, AddressBody a)
    \<and> code = (if reg s a = None then 201 else 200)
    \<and> reg s' = (reg s)(a \<mapsto> (case reg s a of None \<Rightarrow> request_of req (to_rfc3339 ch t) | Some r \<Rightarrow> r))"
proof -
  have d: "derive_forwarding_address (hashes h) domain recip token hook meta = Inr a"
    using assms(1) by (auto simp: run_command_def map_sum_def split: sum.splits)
  from assms(4) have eq: "create_request (hashes h) ch t t' req s = ((code, body), s')" by simp
  have "code \<noteq> 500" using create_request_healthy [OF assms(2) eq] .
  with eq have "code = (if reg s a = None then 201 else 200)"
    using d assms(3) by (cases rule: create_request_cases) (auto simp: derive_created_def)
  moreover have "reg s' = answered (to_rfc3339 ch t) (PostForwardingRequests req) code (reg s)"
    using serve_reg [of "hashes h" ch t t' "PostForwardingRequests req" s] assms(4) by simp
  ultimately show ?thesis
    using d assms(3) by (auto simp: get_forwarding_address_def fun_eq_iff split: option.splits)
qed

section \<open>Examples\<close>

definition example_host :: "(bytes, string, unit) host" where
  "example_host = \<lparr>hashes = example_crypto, calendar = tally_chrono,
     from_slice = (\<lambda>k. Inr k), account_id = (\<lambda>p k. Inr ''celestia1me''),
     endpoint_new = (\<lambda>u. Inr ()), tx_build = (\<lambda>u t k. Inr ()), parse_ascii = Some,
     http_builder = Inr (), path_parent = (\<lambda>p. Some ''storage''), create_dir_all = (\<lambda>p. Inr ()),
     open_retry_db = (\<lambda>p. Inr example_store), open_backend_db = (\<lambda>p. Inr old_database),
     bind_port = (\<lambda>p. Inr ()), install_recorder = one_recorder,
     parse_mnemonic = (\<lambda>w. Inr w), to_seed = (\<lambda>w p. bytes_of_string w), parse_path = (\<lambda>p. Inr ()),
     derive_from_path = (\<lambda>s p. Inr s), hex_encode = (\<lambda>b. ''00'')\<rparr>"

definition example_backend_config :: backend_config where
  "example_backend_config = \<lparr>backend_port = 8080, db_path = ''storage/backend.db'',
     backend_metrics_port = Some 9000\<rparr>"

lemma example_starts:
  "\<exists>r. run_command example_host 3 (RelayerCommand (example_config\<lparr>metrics_port := Some 9001\<rparr>)) new_process
     = (Inr (Relaying r), \<lparr>runtime = Some 9001, recorder = True, servers = [9001], upkeeps = 1\<rparr>)"
  "\<exists>b. run_command example_host 3 (BackendCommand example_backend_config) new_process
     = (Inr (Serving b), \<lparr>runtime = Some 9000, recorder = True, servers = [9000], upkeeps = 1\<rparr>)"
proof -
  have "case run_command example_host 3 (RelayerCommand (example_config\<lparr>metrics_port := Some 9001\<rparr>)) new_process of
      (Inr (Relaying _), m) \<Rightarrow> m = \<lparr>runtime = Some 9001, recorder = True, servers = [9001], upkeeps = 1\<rparr>
    | _ \<Rightarrow> False"
    by code_simp
  then show "\<exists>r. run_command example_host 3 (RelayerCommand (example_config\<lparr>metrics_port := Some 9001\<rparr>)) new_process
     = (Inr (Relaying r), \<lparr>runtime = Some 9001, recorder = True, servers = [9001], upkeeps = 1\<rparr>)"
    by (auto split: prod.splits sum.splits outcome.splits)
  have "case run_command example_host 3 (BackendCommand example_backend_config) new_process of
      (Inr (Serving _), m) \<Rightarrow> m = \<lparr>runtime = Some 9000, recorder = True, servers = [9000], upkeeps = 1\<rparr>
    | _ \<Rightarrow> False"
    by code_simp
  then show "\<exists>b. run_command example_host 3 (BackendCommand example_backend_config) new_process
     = (Inr (Serving b), \<lparr>runtime = Some 9000, recorder = True, servers = [9000], upkeeps = 1\<rparr>)"
    by (auto split: prod.splits sum.splits outcome.splits)
qed

lemma old_database_ok: "sql_healthy old_database" "file_ok example_crypto (tables old_database)"
  using example_post_derives
  by (simp_all add: old_database_def sql_healthy_def file_ok_def file_columns_def read_row_def
      request_columns_def null_column_def row_valid_def request_of_def example_post_def derive_created_def)

text \<open>A database from before the hook columns, a registration that is already in it.\<close>

theorem started_programs_are_well_formed_witness:
  "\<exists>r b s. fst (run_command example_host 3 (BackendCommand example_backend_config) new_process) = Inr (Serving b)
     \<and> run (world_step example_crypto tally_chrono) (run_relayer r b)
         [ClientCall 4 4 (PostForwardingRequests example_post), BackendRefreshed 5] s
     \<and> world_ok example_crypto (example_config\<lparr>metrics_port := Some 9001\<rparr>) s"
proof -
  obtain r m where r: "run_command example_host 3
      (RelayerCommand (example_config\<lparr>metrics_port := Some 9001\<rparr>)) new_process = (Inr (Relaying r), m)"
    using example_starts(1) by blast
  obtain b mb where b: "run_command example_host 3 (BackendCommand example_backend_config) new_process
      = (Inr (Serving b), mb)"
    using example_starts(2) by blast
  have c: "open_backend_db example_host (db_path example_backend_config) = Inr old_database"
    by (simp add: example_host_def)
  have "case run_command example_host 3 (BackendCommand example_backend_config) new_process of
      (Inr (Serving b), _) \<Rightarrow>
        metrics_enabled (snd (serve example_crypto tally_chrono 4 4 (PostForwardingRequests example_post) b))
    | _ \<Rightarrow> False"
    by code_simp
  with b have "metrics_enabled (snd (serve example_crypto tally_chrono 4 4 (PostForwardingRequests example_post) b))"
    by simp
  then obtain s where s: "run (world_step example_crypto tally_chrono) (run_relayer r b)
      [ClientCall 4 4 (PostForwardingRequests example_post), BackendRefreshed 5] s"
    by (auto simp: run_world_run run_relayer_def)
  have "\<forall>s v. parse_ascii example_host s = Some v \<longrightarrow> v = s" by (simp add: example_host_def)
  from started_programs_are_well_formed [OF r b c old_database_ok this s] b s show ?thesis by auto
qed

definition idle_backend :: backend_state where
  "idle_backend = \<lparr>storage = \<lparr>tables = \<lparr>schema = Some request_columns, forwarding_requests = []\<rparr>,
       sql_fault = (\<lambda>_. None), sql_count = 0\<rparr>, metrics_enabled = True, metrics_log = []\<rparr>"

theorem printed_address_registers_witness:
  "run_command example_host 3 (DeriveAddress 7 example_recipient example_token None None) new_process
     = (Inr (Printed (c_forward_addr example_post)), new_process)
   \<and> reg (snd (serve (hashes example_host) tally_chrono 1 2 (PostForwardingRequests example_post) idle_backend))
     = [c_forward_addr example_post \<mapsto> request_of example_post ''|'']"
proof -
  have post: "example_post = \<lparr>c_forward_addr = c_forward_addr example_post, c_dest_domain = 7,
      c_dest_recipient = example_recipient, c_token_id = example_token, c_custom_hook_id = None,
      c_custom_hook_metadata = None\<rparr>"
    by (simp add: example_post_def)
  have d: "derive_forwarding_address example_crypto 7 example_recipient example_token None None
      = Inr (c_forward_addr example_post)"
    using example_post_derives by (simp add: derive_created_def example_post_def)
  have out: "run_command example_host 3 (DeriveAddress 7 example_recipient example_token None None) new_process
     = (Inr (Printed (c_forward_addr example_post)), new_process)"
    by (simp add: run_command_def example_host_def d)
  obtain code body s' where eq: "serve (hashes example_host) tally_chrono 1 2
      (PostForwardingRequests example_post) idle_backend = ((code, body), s')"
    by (metis prod.exhaust)
  have "sql_healthy (storage idle_backend)" by (simp add: idle_backend_def sql_healthy_def)
  note registers = printed_address_registers [OF out this post eq]
  have "reg idle_backend = (\<lambda>a. None)" by (simp add: reg_def idle_backend_def fun_eq_iff)
  moreover have "to_rfc3339 tally_chrono 1 = ''|''" by (simp add: tally_chrono_def)
  ultimately have "reg s' = [c_forward_addr example_post \<mapsto> request_of example_post ''|'']"
    using registers by simp
  with out show ?thesis unfolding eq by simp
qed

end
