(* ===== verification/Standards.thy ===== *)
theory Standards
  imports Address
begin

text \<open>
  SHA-256 (FIPS 180-4) and bech32 (BIP 173), the two public standards that \<^verbatim>\<open>src/lib.rs\<close> calls from
  libraries, as executable functions: an instance of the record \<open>crypto\<close> on which derivations
  can be computed. The rest of the development does not depend on them.
\<close>

unbundle bit_operations_syntax

section \<open>SHA-256\<close>

text \<open>
  The round constants and the initial state are the fractional parts of the cube roots of
  the first 64 primes and of the square roots of the first 8, to 32 bits. The tables hold the
  roots, times \<open>2 ^ 32\<close> and rounded down.
\<close>

definition cube_roots :: "(int \<times> int) list" where
  "cube_roots =
   [(2, 5411319704), (3, 6194414737), (5, 7344290767), (7, 8215976869), (11, 9551921755),
    (13, 10098905585), (17, 11043570340), (19, 11460697813), (23, 12214315672), (29, 13195500289),
    (31, 13492127166), (37, 14311783875), (41, 14809980276), (43, 15046980094), (47, 15499789991),
    (53, 16133124468), (59, 16720292289), (61, 16907126662), (67, 17444216262), (71, 17784676812),
    (73, 17950125167), (79, 18429019306), (83, 18734950876), (89, 19175934170), (97, 19734090066),
    (101, 20001703533), (103, 20132865992), (107, 20390182855), (109, 20516441075),
    (113, 20764397895), (127, 21588763473), (131, 21813078375), (137, 22141143685),
    (139, 22248366392), (149, 22769593852), (151, 22871018771), (157, 23170020180),
    (163, 23461497531), (167, 23651862830), (173, 23931792517), (179, 24205322401),
    (181, 24295138891), (191, 24734567280), (193, 24820601251), (197, 24990902297),
    (199, 25075189284), (211, 25569408389), (223, 26045227120), (227, 26200031510),
    (229, 26276752392), (233, 26428864332), (239, 26653801653), (241, 26727943347),
    (251, 27092625994), (257, 27306805839), (263, 27517677555), (269, 27725365998),
    (271, 27793908591), (277, 27997534228), (281, 28131656200), (283, 28198240250),
    (293, 28526537963), (307, 28973835255), (311, 29099129074)]"

definition square_roots :: "(int \<times> int) list" where
  "square_roots =
   [(2, 6074000999), (3, 7439101573), (5, 9603838834), (7, 11363415354), (11, 14244795007),
    (13, 15485724812), (17, 17708603819), (19, 18721328409)]"

lemma roots_exact:
  "list_all (\<lambda>(p, r). r ^ 3 \<le> p * 2 ^ 96 \<and> p * 2 ^ 96 < (r + 1) ^ 3) cube_roots"
  "list_all (\<lambda>(p, r). r ^ 2 \<le> p * 2 ^ 64 \<and> p * 2 ^ 64 < (r + 1) ^ 2) square_roots"
  by code_simp+

text \<open>Words of 32 bits are integers here: they are evaluated by the thousand.\<close>

definition wrap32 :: "int \<Rightarrow> int" where
  "wrap32 x = take_bit 32 x"

definition rotr32 :: "nat \<Rightarrow> int \<Rightarrow> int" where
  "rotr32 n x = drop_bit n x OR push_bit (32 - n) (take_bit n x)"

definition big_sigma0 :: "int \<Rightarrow> int" where
  "big_sigma0 x = rotr32 2 x XOR rotr32 13 x XOR rotr32 22 x"

definition big_sigma1 :: "int \<Rightarrow> int" where
  "big_sigma1 x = rotr32 6 x XOR rotr32 11 x XOR rotr32 25 x"

definition small_sigma0 :: "int \<Rightarrow> int" where
  "small_sigma0 x = rotr32 7 x XOR rotr32 18 x XOR drop_bit 3 x"

definition small_sigma1 :: "int \<Rightarrow> int" where
  "small_sigma1 x = rotr32 17 x XOR rotr32 19 x XOR drop_bit 10 x"

definition choice :: "int \<Rightarrow> int \<Rightarrow> int \<Rightarrow> int" where
  "choice e f g = g XOR (e AND (f XOR g))"

definition majority :: "int \<Rightarrow> int \<Rightarrow> int \<Rightarrow> int" where
  "majority a b c = (a AND b) OR (c AND (a OR b))"

text \<open>The schedule slides over the last 16 words; the words come out in order.\<close>

fun schedule :: "nat \<Rightarrow> int list \<Rightarrow> int list" where
  "schedule (Suc n) [a, b, c, d, e, f, g, h, i, j, k, l, m, n', p, q] =
     a # schedule n [b, c, d, e, f, g, h, i, j, k, l, m, n', p, q,
       wrap32 (small_sigma1 p + j + small_sigma0 b + a)]"
| "schedule _ ws = ws"

fun rounds :: "(int \<times> int) list \<Rightarrow> int \<Rightarrow> int \<Rightarrow> int \<Rightarrow> int \<Rightarrow> int \<Rightarrow> int \<Rightarrow> int \<Rightarrow> int \<Rightarrow> int list"
  and round_step :: "int \<Rightarrow> int \<Rightarrow> (int \<times> int) list \<Rightarrow> int \<Rightarrow> int \<Rightarrow> int \<Rightarrow> int \<Rightarrow> int \<Rightarrow> int \<Rightarrow> int \<Rightarrow> int list" where
  "rounds [] a b c d e f g h = [a, b, c, d, e, f, g, h]"
| "rounds ((k, w) # kws) a b c d e f g h =
     round_step (h + big_sigma1 e + choice e f g + wrap32 k + w) (big_sigma0 a + majority a b c) kws a b c d e f g"
| "round_step t1 t2 kws a b c d e f g = rounds kws (wrap32 (t1 + t2)) a b c (wrap32 (d + t1)) e f g"

fun compress :: "int list \<Rightarrow> int list \<Rightarrow> int list" where
  "compress ws [a, b, c, d, e, f, g, h] =
     map2 (\<lambda>x y. wrap32 (x + y)) [a, b, c, d, e, f, g, h]
       (rounds (zip (map snd cube_roots) (schedule 48 ws)) a b c d e f g h)"
| "compress ws _ = []"

fun words_of_bytes :: "bytes \<Rightarrow> int list" where
  "words_of_bytes (a # b # c # d # bs) =
     (uint a * 2 ^ 24 + uint b * 2 ^ 16 + uint c * 2 ^ 8 + uint d) # words_of_bytes bs"
| "words_of_bytes _ = []"

fun compress_all :: "int list \<Rightarrow> int list \<Rightarrow> int list" where
  "compress_all (a # b # c # d # e # f # g # h # i # j # k # l # m # n # p # q # ws) st =
     compress_all ws (compress [a, b, c, d, e, f, g, h, i, j, k, l, m, n, p, q] st)"
| "compress_all _ st = st"

definition bytes_of_word :: "int \<Rightarrow> bytes" where
  "bytes_of_word x = map (\<lambda>n. word_of_int (take_bit 8 (drop_bit n x))) [24, 16, 8, 0]"

definition pad_message :: "bytes \<Rightarrow> bytes" where
  "pad_message bs =
     (let bits = int (8 * length bs)
      in bs @ [0x80] @ replicate ((119 - length bs mod 64) mod 64) 0
           @ bytes_of_word (bits div 2 ^ 32) @ bytes_of_word (bits mod 2 ^ 32))"

definition sha256_hash :: "bytes \<Rightarrow> bytes" where
  "sha256_hash bs =
     concat (map bytes_of_word
       (compress_all (words_of_bytes (pad_message bs)) (map (wrap32 \<circ> snd) square_roots)))"

section \<open>Bech32\<close>

text \<open>The bits of the bytes, most significant first, in groups of five, the last filled with zeros.\<close>

definition bits_of_byte :: "u8 \<Rightarrow> bool list" where
  "bits_of_byte b = map (bit b) [7, 6, 5, 4, 3, 2, 1, 0]"

fun five_bits :: "bool list \<Rightarrow> nat list" where
  "five_bits (a # b # c # d # e # bs) =
     (16 * of_bool a + 8 * of_bool b + 4 * of_bool c + 2 * of_bool d + of_bool e) # five_bits bs"
| "five_bits [] = []"
| "five_bits [a] = [16 * of_bool a]"
| "five_bits [a, b] = [16 * of_bool a + 8 * of_bool b]"
| "five_bits [a, b, c] = [16 * of_bool a + 8 * of_bool b + 4 * of_bool c]"
| "five_bits [a, b, c, d] = [16 * of_bool a + 8 * of_bool b + 4 * of_bool c + 2 * of_bool d]"

text \<open>The checksum: a BCH code over the groups.\<close>

definition polymod_step :: "int \<Rightarrow> int \<Rightarrow> int" where
  "polymod_step chk v =
     (let top = drop_bit 25 chk; c = push_bit 5 (take_bit 25 chk) XOR v in
      fold (\<lambda>(n, gen) c. if bit top n then c XOR gen else c)
        [(0, 0x3b6a57b2), (1, 0x26508e6d), (2, 0x1ea119fa), (3, 0x3d4233dd), (4, 0x2a1462b3)] c)"

definition polymod :: "int list \<Rightarrow> int" where
  "polymod vs = fold (\<lambda>v chk. polymod_step chk v) vs 1"

definition expand_prefix :: "string \<Rightarrow> int list" where
  "expand_prefix hrp = map (\<lambda>c. drop_bit 5 (of_char c)) hrp @ [0] @ map (\<lambda>c. take_bit 5 (of_char c)) hrp"

definition checksum :: "string \<Rightarrow> nat list \<Rightarrow> nat list" where
  "checksum hrp data =
     (let p = polymod (expand_prefix hrp @ map int data @ replicate 6 0) XOR 1
      in map (\<lambda>n. nat (take_bit 5 (drop_bit n p))) [25, 20, 15, 10, 5, 0])"

definition bech32_text :: "string \<Rightarrow> bytes \<Rightarrow> string result" where
  "bech32_text hrp bs =
     (let data = five_bits (concat (map bits_of_byte bs))
      in Inr (hrp @ ''1'' @ map (\<lambda>v. ''qpzry9x8gf2tvdw0s3jn54khce6mua7l'' ! v) (data @ checksum hrp data)))"

definition standard_crypto :: crypto where
  "standard_crypto = \<lparr>hex_decode = example_hex, sha256 = sha256_hash, bech32_encode = bech32_text\<rparr>"

end
