(* ===== verification/Wire.thy ===== *)
theory Wire
  imports Client "HOL-Library.Monad_Syntax"
begin

text \<open>
  The protobuf messages the relayer exchanges with a node: \<^verbatim>\<open>src/proto/celestia.forwarding.v1.rs\<close>
  and \<^verbatim>\<open>src/proto/cosmos.base.v1beta1.rs\<close>. The sources declare the fields with their tags and
  types; how such fields are laid out in bytes is the Protocol Buffers encoding, given here as
  executable functions, so that what the declarations mean can be computed. Strings are
  sequences of bytes. Every message is an instance of the locale \<open>message_codec\<close>.
\<close>

section \<open>The wire format\<close>

text \<open>The value of a field as it is on the wire. Groups, long obsolete, are refused.\<close>

datatype wire = Number nat | Fixed bytes | Chunk bytes

type_synonym wire_field = "nat \<times> wire"

fun varint :: "nat \<Rightarrow> bytes" where
  "varint n = (if n < 128 then [of_nat n] else of_nat (128 + n mod 128) # varint (n div 128))"

declare varint.simps [simp del]

fun get_varint :: "nat \<Rightarrow> bytes \<Rightarrow> (nat \<times> bytes) option" where
  "get_varint 0 bs = None"
| "get_varint (Suc k) [] = None"
| "get_varint (Suc k) (b # bs) =
     (if unat b < 128 then Some (unat b, bs)
      else map_option (\<lambda>(n, rest). (unat b - 128 + 128 * n, rest)) (get_varint k bs))"

definition MAX_VARINT_BYTES :: nat where
  "MAX_VARINT_BYTES = 10"

fun render_field :: "wire_field \<Rightarrow> bytes" where
  "render_field (t, Number n) = varint (8 * t) @ varint n"
| "render_field (t, Fixed bs) = varint (8 * t + (if length bs = 8 then 1 else 5)) @ bs"
| "render_field (t, Chunk bs) = varint (8 * t + 2) @ varint (length bs) @ bs"

definition render :: "wire_field list \<Rightarrow> bytes" where
  "render fs = concat (map render_field fs)"

definition split_bytes :: "nat \<Rightarrow> bytes \<Rightarrow> (bytes \<times> bytes) option" where
  "split_bytes n bs = (if n \<le> length bs then Some (take n bs, drop n bs) else None)"

definition tagged :: "nat \<Rightarrow> ('a \<Rightarrow> wire) \<Rightarrow> ('a \<times> bytes) option \<Rightarrow> (wire_field \<times> bytes) option" where
  "tagged t f = map_option (\<lambda>(v, rest). ((t, f v), rest))"

definition get_field :: "bytes \<Rightarrow> (wire_field \<times> bytes) option" where
  "get_field bs =
     (case get_varint MAX_VARINT_BYTES bs of
        None \<Rightarrow> None
      | Some (k, rest) \<Rightarrow>
          if k mod 8 = 0 then tagged (k div 8) Number (get_varint MAX_VARINT_BYTES rest)
          else if k mod 8 = 1 then tagged (k div 8) Fixed (split_bytes 8 rest)
          else if k mod 8 = 5 then tagged (k div 8) Fixed (split_bytes 4 rest)
          else if k mod 8 = 2 then
               (case get_varint MAX_VARINT_BYTES rest of
                  None \<Rightarrow> None
                | Some (n, rest') \<Rightarrow> tagged (k div 8) Chunk (split_bytes n rest'))
          else None)"

text \<open>Every field takes at least one byte, so as many rounds as bytes are enough.\<close>

fun parse_fields :: "nat \<Rightarrow> bytes \<Rightarrow> wire_field list option" where
  "parse_fields k [] = Some []"
| "parse_fields 0 (b # bs) = None"
| "parse_fields (Suc k) (b # bs) =
     (case get_field (b # bs) of
        None \<Rightarrow> None
      | Some (f, rest) \<Rightarrow> map_option ((#) f) (parse_fields k rest))"

definition parse :: "bytes \<Rightarrow> wire_field list option" where
  "parse bs = parse_fields (length bs) bs"

definition wire_ok :: "wire_field \<Rightarrow> bool" where
  "wire_ok f \<longleftrightarrow> fst f < 2 ^ 29
     \<and> (case snd f of Number n \<Rightarrow> n < 2 ^ 64 | Fixed bs \<Rightarrow> length bs \<in> {4, 8} | Chunk bs \<Rightarrow> length bs < 2 ^ 64)"

lemma unat_of_nat_u8: "n < 256 \<Longrightarrow> unat (of_nat n :: u8) = n"
  by (simp add: unat_of_nat take_bit_nat_eq_self)

lemma key_parts:
  "8 * t mod 8 = 0" "8 * t div 8 = t" "(8 * t + 1) mod 8 = 1" "(8 * t + 1) div 8 = t"
  "(8 * t + 5) mod 8 = 5" "(8 * t + 5) div 8 = t" "(8 * t + 2) mod 8 = 2" "(8 * t + 2) div 8 = t"
  for t :: nat
  by presburger+

lemma varint_nonempty [simp]: "varint n \<noteq> []"
  by (subst varint.simps) simp

lemma get_varint_varint:
  "n < 128 ^ k \<Longrightarrow> k > 0 \<Longrightarrow> get_varint k (varint n @ rest) = Some (n, rest)"
proof (induction k arbitrary: n)
  case (Suc k)
  show ?case
  proof (cases "n < 128")
    case True
    then show ?thesis by (subst varint.simps) (simp add: unat_of_nat)
  next
    case False
    from Suc.prems False have "n div 128 < 128 ^ k" "k > 0"
      by (auto simp: less_mult_imp_div_less mult.commute intro: Suc_leI gr0I)
    then have "get_varint k (varint (n div 128) @ rest) = Some (n div 128, rest)"
      by (rule Suc.IH)
    moreover have "n mod 128 < 128" by simp
    then have "128 + n mod 128 < 256" by linarith
    note unat_of_nat_u8 [OF this]
    ultimately show ?thesis
      using False by (subst varint.simps) (simp del: of_nat_add)
  qed
qed simp

lemma get_varint_u64: "n < 2 ^ 64 \<Longrightarrow> get_varint MAX_VARINT_BYTES (varint n @ rest) = Some (n, rest)"
  by (rule get_varint_varint) (simp_all add: MAX_VARINT_BYTES_def)

lemma split_bytes_append: "n = length bs \<Longrightarrow> split_bytes n (bs @ rest) = Some (bs, rest)"
  by (simp add: split_bytes_def)

lemma get_field_render: "wire_ok f \<Longrightarrow> get_field (render_field f @ rest) = Some (f, rest)"
  by (cases f rule: render_field.cases)
    (auto simp: get_field_def wire_ok_def get_varint_u64 split_bytes_append tagged_def key_parts
      simp del: add_2_eq_Suc add_2_eq_Suc' One_nat_def)

lemma render_field_nonempty [simp]: "render_field f \<noteq> []"
  by (cases f rule: render_field.cases) auto

lemma parse_fields_render:
  "list_all wire_ok fs \<Longrightarrow> length (render fs) \<le> k \<Longrightarrow> parse_fields k (render fs) = Some fs"
proof (induction fs arbitrary: k)
  case Nil
  then show ?case by (simp add: render_def)
next
  case (Cons f fs)
  let ?bs = "render_field f @ render fs"
  have r: "render (f # fs) = ?bs" by (simp add: render_def)
  have "render_field f \<noteq> []" by simp
  then obtain b bs where b: "?bs = b # bs" by (cases ?bs) auto
  from Cons.prems b r obtain k' where k: "k = Suc k'" by (cases k) auto
  have "0 < length (render_field f)" by simp
  moreover from Cons.prems(2) r k have "length (render_field f) + length (render fs) \<le> Suc k'" by simp
  ultimately have "length (render fs) \<le> k'" by linarith
  with Cons have "parse_fields k' (render fs) = Some fs" by simp
  moreover from Cons.prems have "get_field (b # bs) = Some (f, render fs)"
    using b get_field_render [of f "render fs"] by simp
  ultimately show ?case by (simp add: r b k)
qed

lemma parse_render: "list_all wire_ok fs \<Longrightarrow> parse (render fs) = Some fs"
  by (simp add: parse_def parse_fields_render)

lemma render_append [simp]: "render (fs @ gs) = render fs @ render gs" "render [] = []"
  by (simp_all add: render_def)

lemma chunk_le_render: "(t, Chunk bs) \<in> set fs \<Longrightarrow> length bs \<le> length (render fs)"
  by (induction fs) (auto simp: render_def)

text \<open>Twenty bytes are enough for the tag and the length, or the number, of a field.\<close>

definition content :: "wire_field \<Rightarrow> nat" where
  "content f = (case snd f of Number _ \<Rightarrow> 0 | Fixed bs \<Rightarrow> length bs | Chunk bs \<Rightarrow> length bs)"

lemma length_varint: "n < 128 ^ k \<Longrightarrow> k > 0 \<Longrightarrow> length (varint n) \<le> k"
proof (induction k arbitrary: n)
  case (Suc k)
  show ?case
  proof (cases "n < 128")
    case True
    then show ?thesis by (subst varint.simps) simp
  next
    case False
    from Suc.prems False have "n div 128 < 128 ^ k" "k > 0"
      by (auto simp: less_mult_imp_div_less mult.commute intro: Suc_leI gr0I)
    then have "length (varint (n div 128)) \<le> k" by (rule Suc.IH)
    with False show ?thesis by (subst varint.simps) simp
  qed
qed simp

lemma length_varint_u64: "n < 2 ^ 64 \<Longrightarrow> length (varint n) \<le> 10"
  by (rule length_varint) simp_all

lemma length_render_field: "wire_ok f \<Longrightarrow> length (render_field f) \<le> 20 + content f"
proof (cases f rule: render_field.cases)
  case (1 t n)
  then show "wire_ok f \<Longrightarrow> ?thesis"
    using length_varint_u64 [of "8 * t"] length_varint_u64 [of n] by (simp add: wire_ok_def content_def)
next
  case (2 t bs)
  then show "wire_ok f \<Longrightarrow> ?thesis"
    using length_varint_u64 [of "8 * t + 1"] length_varint_u64 [of "8 * t + 5"]
    by (auto simp: wire_ok_def content_def)
next
  case (3 t bs)
  then show "wire_ok f \<Longrightarrow> ?thesis"
    using length_varint_u64 [of "8 * t + 2"] length_varint_u64 [of "length bs"]
    by (simp add: wire_ok_def content_def)
qed

lemma length_render: "list_all wire_ok fs \<Longrightarrow> length (render fs) \<le> sum_list (map (\<lambda>f. 20 + content f) fs)"
proof (induction fs)
  case (Cons f fs)
  then have "length (render_field f) \<le> 20 + content f" "length (render fs) \<le> sum_list (map (\<lambda>f. 20 + content f) fs)"
    by (simp_all add: length_render_field)
  then show ?case by (simp add: render_def)
qed (simp add: render_def)

section \<open>Fields of a message\<close>

text \<open>
  What prost derives from \<^verbatim>\<open>string\<close>, \<^verbatim>\<open>uint32\<close> and \<^verbatim>\<open>message, optional\<close>: a field with the default
  value is left out; of repeated occurrences the last counts, embedded messages are merged by
  decoding their concatenation; fields with other tags are skipped.
\<close>

definition text_field :: "nat \<Rightarrow> string \<Rightarrow> wire_field list" where
  "text_field t s = (if s = [] then [] else [(t, Chunk (bytes_of_string s))])"

definition number_field :: "nat \<Rightarrow> u32 \<Rightarrow> wire_field list" where
  "number_field t n = (if n = 0 then [] else [(t, Number (unat n))])"

definition message_field :: "nat \<Rightarrow> bytes option \<Rightarrow> wire_field list" where
  "message_field t m = (case m of None \<Rightarrow> [] | Some bs \<Rightarrow> [(t, Chunk bs)])"

definition at_tag :: "nat \<Rightarrow> wire_field list \<Rightarrow> wire list" where
  "at_tag t fs = map snd (filter (\<lambda>f. fst f = t) fs)"

definition string_of_bytes :: "bytes \<Rightarrow> string" where
  "string_of_bytes bs = map (\<lambda>b. char_of (unat b)) bs"

fun chunks :: "wire list \<Rightarrow> bytes list option" where
  "chunks [] = Some []"
| "chunks (Chunk bs # ws) = map_option ((#) bs) (chunks ws)"
| "chunks (_ # ws) = None"

fun numbers :: "wire list \<Rightarrow> nat list option" where
  "numbers [] = Some []"
| "numbers (Number n # ws) = map_option ((#) n) (numbers ws)"
| "numbers (_ # ws) = None"

definition text_at :: "nat \<Rightarrow> wire_field list \<Rightarrow> string option" where
  "text_at t fs = map_option (\<lambda>bs. if bs = [] then [] else string_of_bytes (last bs)) (chunks (at_tag t fs))"

definition number_at :: "nat \<Rightarrow> wire_field list \<Rightarrow> u32 option" where
  "number_at t fs = map_option (\<lambda>ns. if ns = [] then 0 else of_nat (last ns)) (numbers (at_tag t fs))"

definition message_at :: "(bytes \<Rightarrow> 'm option) \<Rightarrow> nat \<Rightarrow> wire_field list \<Rightarrow> 'm option option" where
  "message_at decode t fs =
     (case chunks (at_tag t fs) of
        None \<Rightarrow> None
      | Some [] \<Rightarrow> Some None
      | Some bss \<Rightarrow> map_option Some (decode (concat bss)))"

lemma string_of_bytes_of_string [simp]: "string_of_bytes (bytes_of_string s) = s"
proof -
  have "char_of (unat (of_char c :: u8)) = c" for c
  proof -
    have "unat (of_nat (of_char c) :: u8) = of_char c" by (rule unat_of_nat_u8) simp
    then have "unat (of_char c :: u8) = of_char c" by (simp only: of_nat_of_char)
    then show ?thesis by simp
  qed
  then show ?thesis by (simp add: string_of_bytes_def bytes_of_string_def comp_def)
qed


lemma at_tag_append [simp]: "at_tag t (fs @ gs) = at_tag t fs @ at_tag t gs" "at_tag t [] = []"
  by (simp_all add: at_tag_def)

lemma at_tag_field [simp]:
  "at_tag t (text_field t' s) = (if t = t' \<and> s \<noteq> [] then [Chunk (bytes_of_string s)] else [])"
  "at_tag t (number_field t' n) = (if t = t' \<and> n \<noteq> 0 then [Number (unat n)] else [])"
  "at_tag t (message_field t' m) = (if t = t' then (case m of None \<Rightarrow> [] | Some bs \<Rightarrow> [Chunk bs]) else [])"
  by (auto simp: at_tag_def text_field_def number_field_def message_field_def split: option.splits)

lemma at_tag_above: "\<forall>f \<in> set fs. n < fst f \<Longrightarrow> t \<le> n \<Longrightarrow> at_tag t fs = []"
  by (auto simp: at_tag_def filter_empty_conv)

definition framed :: "wire_field \<Rightarrow> bool" where
  "framed f \<longleftrightarrow> fst f < 2 ^ 29
     \<and> (case snd f of Number n \<Rightarrow> n < 2 ^ 64 | Fixed bs \<Rightarrow> length bs \<in> {4, 8} | Chunk _ \<Rightarrow> True)"

lemma framed_field [simp]:
  "t < 2 ^ 29 \<Longrightarrow> list_all framed (text_field t s)"
  "t < 2 ^ 29 \<Longrightarrow> list_all framed (number_field t n)"
  "t < 2 ^ 29 \<Longrightarrow> list_all framed (message_field t m)"
proof -
  have "unat n < 2 ^ 64" using unsigned_less [of n, where 'a = nat] by simp
  then show "t < 2 ^ 29 \<Longrightarrow> list_all framed (number_field t n)"
    by (simp add: number_field_def framed_def)
qed (auto simp: text_field_def message_field_def framed_def split: option.splits)

lemma wire_ok_framed:
  assumes "list_all framed fs" and "length (render fs) < 2 ^ 64"
  shows "list_all wire_ok fs"
proof -
  have "wire_ok f" if "f \<in> set fs" for f
  proof (cases f)
    case (Pair t w)
    have "framed f" using assms(1) that by (simp add: list_all_iff)
    moreover have "length bs < 2 ^ 64" if "w = Chunk bs" for bs
      using chunk_le_render [of t bs fs] \<open>f \<in> set fs\<close> assms(2) Pair that by simp
    ultimately show ?thesis
      by (auto simp: framed_def wire_ok_def Pair split: wire.splits)
  qed
  then show ?thesis by (simp add: list_all_iff)
qed

text \<open>
  A codec of messages whose tags are at most \<open>highest\<close>: a message is read back from its encoding,
  also when fields with higher tags, of a later version of the message, follow.
\<close>

definition newer_fields :: "nat \<Rightarrow> wire_field list \<Rightarrow> bool" where
  "newer_fields highest fs \<longleftrightarrow> list_all wire_ok fs \<and> (\<forall>f \<in> set fs. highest < fst f)"

locale message_codec =
  fixes encode :: "'m \<Rightarrow> bytes"
    and decode :: "bytes \<Rightarrow> 'm option"
    and highest :: nat
  assumes decode_newer:
    "length (encode m) < 2 ^ 64 \<Longrightarrow> newer_fields highest fs \<Longrightarrow> decode (encode m @ render fs) = Some m"
begin

lemma decode_encode: "length (encode m) < 2 ^ 64 \<Longrightarrow> decode (encode m) = Some m"
  using decode_newer [of m "[]"] by (simp add: newer_fields_def)

lemma encode_inject:
  "length (encode m) < 2 ^ 64 \<Longrightarrow> encode m = encode m' \<Longrightarrow> m = m'"
  by (metis decode_encode option.inject)

end

lemma decode_render:
  assumes "list_all framed fs" and "length (render fs) < 2 ^ 64" and "newer_fields highest gs"
    and "of_fields (fs @ gs) = Some m"
  shows "Option.bind (parse (render fs @ render gs)) of_fields = Some m"
proof -
  have "list_all wire_ok (fs @ gs)"
    using wire_ok_framed [OF assms(1,2)] assms(3) by (simp add: newer_fields_def)
  then have "parse (render (fs @ gs)) = Some (fs @ gs)" by (rule parse_render)
  then show ?thesis by (simp add: assms(4))
qed

section \<open>The messages\<close>

definition coin_fields :: "coin \<Rightarrow> wire_field list" where
  "coin_fields c = text_field 1 (coin_denom c) @ text_field 2 (coin_amount c)"

definition coin_of_fields :: "wire_field list \<Rightarrow> coin option" where
  "coin_of_fields fs = do {
     d \<leftarrow> text_at 1 fs;
     a \<leftarrow> text_at 2 fs;
     Some \<lparr>coin_denom = d, coin_amount = a\<rparr> }"

definition encode_coin :: "coin \<Rightarrow> bytes" where
  "encode_coin c = render (coin_fields c)"

definition decode_coin :: "bytes \<Rightarrow> coin option" where
  "decode_coin bs = Option.bind (parse bs) coin_of_fields"

record derive_request =
  dr_dest_domain :: u32
  dr_dest_recipient :: string
  dr_token_id :: string

definition derive_request_fields :: "derive_request \<Rightarrow> wire_field list" where
  "derive_request_fields m =
     number_field 1 (dr_dest_domain m) @ text_field 2 (dr_dest_recipient m) @ text_field 3 (dr_token_id m)"

definition derive_request_of_fields :: "wire_field list \<Rightarrow> derive_request option" where
  "derive_request_of_fields fs = do {
     d \<leftarrow> number_at 1 fs;
     r \<leftarrow> text_at 2 fs;
     t \<leftarrow> text_at 3 fs;
     Some \<lparr>dr_dest_domain = d, dr_dest_recipient = r, dr_token_id = t\<rparr> }"

definition encode_derive_request :: "derive_request \<Rightarrow> bytes" where
  "encode_derive_request m = render (derive_request_fields m)"

definition decode_derive_request :: "bytes \<Rightarrow> derive_request option" where
  "decode_derive_request bs = Option.bind (parse bs) derive_request_of_fields"

record derive_response =
  ds_address :: string

definition encode_derive_response :: "derive_response \<Rightarrow> bytes" where
  "encode_derive_response m = render (text_field 1 (ds_address m))"

definition derive_response_of_fields :: "wire_field list \<Rightarrow> derive_response option" where
  "derive_response_of_fields fs = do { a \<leftarrow> text_at 1 fs; Some \<lparr>ds_address = a\<rparr> }"

definition decode_derive_response :: "bytes \<Rightarrow> derive_response option" where
  "decode_derive_response bs = Option.bind (parse bs) derive_response_of_fields"

definition quote_request_fields :: "quote_request \<Rightarrow> wire_field list" where
  "quote_request_fields m =
     number_field 1 (qr_dest_domain m) @ text_field 2 (qr_token_id m)
     @ text_field 3 (qr_custom_hook_id m) @ text_field 4 (qr_custom_hook_metadata m)"

definition quote_request_of_fields :: "wire_field list \<Rightarrow> quote_request option" where
  "quote_request_of_fields fs = do {
     d \<leftarrow> number_at 1 fs;
     t \<leftarrow> text_at 2 fs;
     h \<leftarrow> text_at 3 fs;
     m \<leftarrow> text_at 4 fs;
     Some \<lparr>qr_dest_domain = d, qr_token_id = t, qr_custom_hook_id = h, qr_custom_hook_metadata = m\<rparr> }"

definition encode_quote_request :: "quote_request \<Rightarrow> bytes" where
  "encode_quote_request m = render (quote_request_fields m)"

definition decode_quote_request :: "bytes \<Rightarrow> quote_request option" where
  "decode_quote_request bs = Option.bind (parse bs) quote_request_of_fields"

record quote_response =
  qs_fee :: "coin option"

definition encode_quote_response :: "quote_response \<Rightarrow> bytes" where
  "encode_quote_response m = render (message_field 1 (map_option encode_coin (qs_fee m)))"

definition quote_response_of_fields :: "wire_field list \<Rightarrow> quote_response option" where
  "quote_response_of_fields fs = do { f \<leftarrow> message_at decode_coin 1 fs; Some \<lparr>qs_fee = f\<rparr> }"

definition decode_quote_response :: "bytes \<Rightarrow> quote_response option" where
  "decode_quote_response bs = Option.bind (parse bs) quote_response_of_fields"

definition msg_forward_fields :: "msg_forward \<Rightarrow> wire_field list" where
  "msg_forward_fields m =
     text_field 1 (mf_signer m) @ text_field 2 (mf_forward_addr m) @ number_field 3 (mf_dest_domain m)
     @ text_field 4 (mf_dest_recipient m) @ text_field 5 (mf_token_id m)
     @ message_field 6 (map_option encode_coin (mf_max_igp_fee m))
     @ text_field 7 (mf_custom_hook_id m) @ text_field 8 (mf_custom_hook_metadata m)"

definition msg_forward_of_fields :: "wire_field list \<Rightarrow> msg_forward option" where
  "msg_forward_of_fields fs = do {
     s \<leftarrow> text_at 1 fs;
     a \<leftarrow> text_at 2 fs;
     d \<leftarrow> number_at 3 fs;
     r \<leftarrow> text_at 4 fs;
     t \<leftarrow> text_at 5 fs;
     f \<leftarrow> message_at decode_coin 6 fs;
     h \<leftarrow> text_at 7 fs;
     m \<leftarrow> text_at 8 fs;
     Some \<lparr>mf_signer = s, mf_forward_addr = a, mf_dest_domain = d, mf_dest_recipient = r, mf_token_id = t,
       mf_max_igp_fee = f, mf_custom_hook_id = h, mf_custom_hook_metadata = m\<rparr> }"

definition encode_msg_forward :: "msg_forward \<Rightarrow> bytes" where
  "encode_msg_forward m = render (msg_forward_fields m)"

definition decode_msg_forward :: "bytes \<Rightarrow> msg_forward option" where
  "decode_msg_forward bs = Option.bind (parse bs) msg_forward_of_fields"

record forward_response =
  fr_denom :: string
  fr_amount :: string
  fr_message_id :: string

definition forward_response_fields :: "forward_response \<Rightarrow> wire_field list" where
  "forward_response_fields m =
     text_field 1 (fr_denom m) @ text_field 2 (fr_amount m) @ text_field 3 (fr_message_id m)"

definition forward_response_of_fields :: "wire_field list \<Rightarrow> forward_response option" where
  "forward_response_of_fields fs = do {
     d \<leftarrow> text_at 1 fs;
     a \<leftarrow> text_at 2 fs;
     i \<leftarrow> text_at 3 fs;
     Some \<lparr>fr_denom = d, fr_amount = a, fr_message_id = i\<rparr> }"

definition encode_forward_response :: "forward_response \<Rightarrow> bytes" where
  "encode_forward_response m = render (forward_response_fields m)"

definition decode_forward_response :: "bytes \<Rightarrow> forward_response option" where
  "decode_forward_response bs = Option.bind (parse bs) forward_response_of_fields"

record event_token_forwarded =
  et_forward_addr :: string
  et_token_id :: string
  et_denom :: string
  et_amount :: string
  et_message_id :: string

definition event_fields :: "event_token_forwarded \<Rightarrow> wire_field list" where
  "event_fields m =
     text_field 1 (et_forward_addr m) @ text_field 2 (et_token_id m) @ text_field 3 (et_denom m)
     @ text_field 4 (et_amount m) @ text_field 5 (et_message_id m)"

definition event_of_fields :: "wire_field list \<Rightarrow> event_token_forwarded option" where
  "event_of_fields fs = do {
     f \<leftarrow> text_at 1 fs;
     t \<leftarrow> text_at 2 fs;
     d \<leftarrow> text_at 3 fs;
     a \<leftarrow> text_at 4 fs;
     i \<leftarrow> text_at 5 fs;
     Some \<lparr>et_forward_addr = f, et_token_id = t, et_denom = d, et_amount = a, et_message_id = i\<rparr> }"

definition encode_event :: "event_token_forwarded \<Rightarrow> bytes" where
  "encode_event m = render (event_fields m)"

definition decode_event :: "bytes \<Rightarrow> event_token_forwarded option" where
  "decode_event bs = Option.bind (parse bs) event_of_fields"

section \<open>Reading back\<close>

lemma string_of_bytes_Nil [simp]: "bytes_of_string s = [] \<longleftrightarrow> s = []"
  by (simp add: bytes_of_string_def)

lemma of_nat_unat_u32 [simp]: "of_nat (unat n) = (n :: u32)"
  by simp

lemmas reading = text_at_def number_at_def message_at_def at_tag_above

interpretation coin: message_codec encode_coin decode_coin 2
proof
  fix m fs assume "length (encode_coin m) < 2 ^ 64" "newer_fields 2 fs"
  then show "decode_coin (encode_coin m @ render fs) = Some m"
    unfolding encode_coin_def decode_coin_def
    by (intro decode_render) (auto simp: coin_fields_def coin_of_fields_def newer_fields_def reading)
qed

interpretation derive_request: message_codec encode_derive_request decode_derive_request 3
proof
  fix m fs assume "length (encode_derive_request m) < 2 ^ 64" "newer_fields 3 fs"
  then show "decode_derive_request (encode_derive_request m @ render fs) = Some m"
    unfolding encode_derive_request_def decode_derive_request_def
    by (intro decode_render)
      (auto simp: derive_request_fields_def derive_request_of_fields_def newer_fields_def reading)
qed

interpretation derive_response: message_codec encode_derive_response decode_derive_response 1
proof
  fix m fs assume "length (encode_derive_response m) < 2 ^ 64" "newer_fields 1 fs"
  then show "decode_derive_response (encode_derive_response m @ render fs) = Some m"
    unfolding encode_derive_response_def decode_derive_response_def
    by (intro decode_render) (auto simp: derive_response_of_fields_def newer_fields_def reading)
qed

interpretation quote_request: message_codec encode_quote_request decode_quote_request 4
proof
  fix m fs assume "length (encode_quote_request m) < 2 ^ 64" "newer_fields 4 fs"
  then show "decode_quote_request (encode_quote_request m @ render fs) = Some m"
    unfolding encode_quote_request_def decode_quote_request_def
    by (intro decode_render) (auto simp: quote_request_fields_def quote_request_of_fields_def newer_fields_def reading)
qed

interpretation forward_response: message_codec encode_forward_response decode_forward_response 3
proof
  fix m fs assume "length (encode_forward_response m) < 2 ^ 64" "newer_fields 3 fs"
  then show "decode_forward_response (encode_forward_response m @ render fs) = Some m"
    unfolding encode_forward_response_def decode_forward_response_def
    by (intro decode_render) (auto simp: forward_response_fields_def forward_response_of_fields_def newer_fields_def reading)
qed

interpretation event: message_codec encode_event decode_event 5
proof
  fix m fs assume "length (encode_event m) < 2 ^ 64" "newer_fields 5 fs"
  then show "decode_event (encode_event m @ render fs) = Some m"
    unfolding encode_event_def decode_event_def
    by (intro decode_render) (auto simp: event_fields_def event_of_fields_def newer_fields_def reading)
qed

text \<open>The embedded coin is shorter than the message around it.\<close>

lemma embedded_coin:
  assumes "(t, Chunk (encode_coin c)) \<in> set fs" and "length (render fs) < 2 ^ 64"
  shows "decode_coin (encode_coin c) = Some c"
  using chunk_le_render [OF assms(1)] assms(2) by (intro coin.decode_encode) simp

interpretation quote_response: message_codec encode_quote_response decode_quote_response 1
proof
  fix m fs assume len: "length (encode_quote_response m) < 2 ^ 64" and newer: "newer_fields 1 fs"
  let ?fs = "message_field 1 (map_option encode_coin (qs_fee m))"
  have coin: "decode_coin (encode_coin c) = Some c" if "qs_fee m = Some c" for c
    using len that by (intro embedded_coin [of 1 c ?fs]) (auto simp: encode_quote_response_def message_field_def)
  have "quote_response_of_fields (?fs @ fs) = Some m"
    using newer coin by (cases "qs_fee m")
      (auto simp: quote_response_of_fields_def newer_fields_def reading)
  with len newer show "decode_quote_response (encode_quote_response m @ render fs) = Some m"
    unfolding encode_quote_response_def decode_quote_response_def by (intro decode_render) auto
qed

interpretation msg_forward: message_codec encode_msg_forward decode_msg_forward 8
proof
  fix m fs assume len: "length (encode_msg_forward m) < 2 ^ 64" and newer: "newer_fields 8 fs"
  have coin: "decode_coin (encode_coin c) = Some c" if "mf_max_igp_fee m = Some c" for c
    using len that by (intro embedded_coin [of 6 c "msg_forward_fields m"])
      (auto simp: encode_msg_forward_def msg_forward_fields_def message_field_def)
  have "msg_forward_of_fields (msg_forward_fields m @ fs) = Some m"
    using newer coin by (cases "mf_max_igp_fee m")
      (auto simp: msg_forward_of_fields_def msg_forward_fields_def newer_fields_def reading)
  moreover have "list_all framed (msg_forward_fields m)" by (simp add: msg_forward_fields_def)
  ultimately show "decode_msg_forward (encode_msg_forward m @ render fs) = Some m"
    using len newer unfolding encode_msg_forward_def decode_msg_forward_def by (intro decode_render)
qed


definition example_message :: msg_forward where
  "example_message = \<lparr>mf_signer = ''celestia1signer'', mf_forward_addr = ''celestia1a'', mf_dest_domain = 300,
     mf_dest_recipient = ''0x01'', mf_token_id = ''0x02'',
     mf_max_igp_fee = Some \<lparr>coin_denom = ''utia'', coin_amount = ''1100''\<rparr>,
     mf_custom_hook_id = [], mf_custom_hook_metadata = ''0xab''\<rparr>"

lemma length_example_message: "length (encode_msg_forward example_message) \<le> 400"
proof -
  let ?c = "\<lparr>coin_denom = ''utia'', coin_amount = ''1100''\<rparr>"
  have coin: "length (encode_coin ?c) \<le> 60"
    using length_render [of "coin_fields ?c"]
    by (simp add: encode_coin_def coin_fields_def text_field_def wire_ok_def content_def bytes_of_string_def)
  show ?thesis
    using length_render [of "msg_forward_fields example_message"] coin
    by (simp add: encode_msg_forward_def msg_forward_fields_def example_message_def text_field_def
        number_field_def message_field_def wire_ok_def content_def bytes_of_string_def)
qed


text \<open>\<^verbatim>\<open>prost::Name\<close> of the message: the type URL under which a transaction carries it.\<close>

definition MSG_FORWARD_NAME :: string where
  "MSG_FORWARD_NAME = ''MsgForward''"

definition MSG_FORWARD_PACKAGE :: string where
  "MSG_FORWARD_PACKAGE = ''celestia.forwarding.v1''"

definition forward_any :: "msg_forward \<Rightarrow> string \<times> bytes" where
  "forward_any m = (''/'' @ MSG_FORWARD_PACKAGE @ ''.'' @ MSG_FORWARD_NAME, encode_msg_forward m)"

lemma forward_any_unpacks:
  assumes "length (encode_msg_forward m) < 2 ^ 64"
  shows "fst (forward_any m) = ''/celestia.forwarding.v1.MsgForward'' \<and> decode_msg_forward (snd (forward_any m)) = Some m"
  using assms by (simp add: forward_any_def MSG_FORWARD_NAME_def MSG_FORWARD_PACKAGE_def msg_forward.decode_encode)

text \<open>A message without a hook has the encoding it had before the hook fields were there.\<close>

lemma hookless_quote_unchanged:
  "qr_custom_hook_id q = [] \<Longrightarrow> qr_custom_hook_metadata q = [] \<Longrightarrow>
     encode_quote_request q = render (number_field 1 (qr_dest_domain q) @ text_field 2 (qr_token_id q))"
  by (simp add: encode_quote_request_def quote_request_fields_def text_field_def)

end
