(* ===== verification/Grpc.thy ===== *)
theory Grpc
  imports Wire
begin

text \<open>
  The gRPC stubs, \<^verbatim>\<open>src/proto/celestia.forwarding.v1.tonic.rs\<close>: the two generated clients and the
  two generated servers, method by method, over parameters for tonic itself; and the relayer's
  fee query over them. A handler is a function from the request it is given to its reply.
\<close>

section \<open>Requests, replies, codecs\<close>

record tonic_status =
  st_code :: nat
  st_message :: string

definition CODE_UNKNOWN :: nat where
  "CODE_UNKNOWN = 2"

definition CODE_UNIMPLEMENTED :: nat where
  "CODE_UNIMPLEMENTED = 12"

text \<open>\<open>tr_method\<close> is the extension \<^verbatim>\<open>GrpcMethod\<close>: service and method.\<close>

record 'm tonic_request =
  tr_metadata :: "(string, string) hmap"
  tr_method :: "(string \<times> string) option"
  tr_message :: 'm

record 'm tonic_response =
  ts_metadata :: "(string, string) hmap"
  ts_message :: 'm

type_synonym 'm reply = "tonic_status + 'm tonic_response"

definition map_request :: "('m \<Rightarrow> 'n) \<Rightarrow> 'm tonic_request \<Rightarrow> 'n tonic_request" where
  "map_request f r =
     \<lparr>tr_metadata = tr_metadata r, tr_method = tr_method r, tr_message = f (tr_message r)\<rparr>"

text \<open>The messages of one method, encoded by \<^verbatim>\<open>ProstCodec\<close>.\<close>

record ('req, 'resp) method_codec =
  cd_encode_req :: "'req \<Rightarrow> bytes"
  cd_decode_req :: "bytes \<Rightarrow> 'req option"
  cd_encode_resp :: "'resp \<Rightarrow> bytes"
  cd_decode_resp :: "bytes \<Rightarrow> 'resp option"

text \<open>A message that cannot be decoded is an error whose status is tonic's.\<close>

definition decode_reply :: "tonic_status \<Rightarrow> ('req, 'resp) method_codec \<Rightarrow> bytes reply \<Rightarrow> 'resp reply" where
  "decode_reply undecodable cd r =
     (case r of
        Inl st \<Rightarrow> Inl st
      | Inr resp \<Rightarrow>
          (case cd_decode_resp cd (ts_message resp) of
             None \<Rightarrow> Inl undecodable
           | Some m \<Rightarrow> Inr \<lparr>ts_metadata = ts_metadata resp, ts_message = m\<rparr>))"

definition serve_message ::
  "tonic_status \<Rightarrow> ('req, 'resp) method_codec \<Rightarrow> ('req tonic_request \<Rightarrow> 'resp reply) \<Rightarrow> bytes tonic_request \<Rightarrow> bytes reply" where
  "serve_message undecodable cd h req =
     (case cd_decode_req cd (tr_message req) of
        None \<Rightarrow> Inl undecodable
      | Some m \<Rightarrow>
          (case h (map_request (\<lambda>_. m) req) of
             Inl st \<Rightarrow> Inl st
           | Inr resp \<Rightarrow> Inr \<lparr>ts_metadata = ts_metadata resp, ts_message = cd_encode_resp cd (ts_message resp)\<rparr>))"

section \<open>Client stubs\<close>

text \<open>
  tonic's side of a client: \<open>'t\<close> are its channels, \<open>'g\<close> its \<^verbatim>\<open>Grpc\<close> values, \<open>'e\<close> the compression
  encodings. \<open>grpc_unary\<close> sends an encoded request to a path and returns the encoded reply.
\<close>

record ('t, 'g, 'e) tonic_client =
  grpc_new :: "'t \<Rightarrow> 'g"
  grpc_with_origin :: "'t \<Rightarrow> string \<Rightarrow> 'g"
  grpc_send_compressed :: "'e \<Rightarrow> 'g \<Rightarrow> 'g"
  grpc_accept_compressed :: "'e \<Rightarrow> 'g \<Rightarrow> 'g"
  grpc_max_decoding :: "nat \<Rightarrow> 'g \<Rightarrow> 'g"
  grpc_max_encoding :: "nat \<Rightarrow> 'g \<Rightarrow> 'g"
  grpc_undecodable :: tonic_status
  grpc_ready :: "'g \<Rightarrow> unit result \<times> 'g"
  grpc_unary :: "string \<Rightarrow> bytes tonic_request \<Rightarrow> 'g \<Rightarrow> bytes reply \<times> 'g"

record 'g query_client =
  qc_inner :: 'g

record 'g msg_client =
  mc_inner :: 'g

definition query_client_new :: "('t, 'g, 'e) tonic_client \<Rightarrow> 't \<Rightarrow> 'g query_client" where
  "query_client_new tn inner = \<lparr>qc_inner = grpc_new tn inner\<rparr>"

definition query_client_connect ::
  "('t, 'g, 'e) tonic_client \<Rightarrow> ('d \<Rightarrow> 'p result) \<Rightarrow> ('p \<Rightarrow> 't result) \<Rightarrow> 'd \<Rightarrow> 'g query_client result" where
  "query_client_connect tn endpoint_new connect dst =
     (case endpoint_new dst of
        Inl e \<Rightarrow> Inl e
      | Inr endpoint \<Rightarrow> map_sum id (query_client_new tn) (connect endpoint))"

definition query_client_with_origin :: "('t, 'g, 'e) tonic_client \<Rightarrow> 't \<Rightarrow> string \<Rightarrow> 'g query_client" where
  "query_client_with_origin tn inner origin = \<lparr>qc_inner = grpc_with_origin tn inner origin\<rparr>"

definition query_client_with_interceptor ::
  "('u, 'g, 'e) tonic_client \<Rightarrow> ('t \<Rightarrow> 'i \<Rightarrow> 'u) \<Rightarrow> 't \<Rightarrow> 'i \<Rightarrow> 'g query_client" where
  "query_client_with_interceptor tn intercepted inner interceptor =
     query_client_new tn (intercepted inner interceptor)"

definition query_client_send_compressed :: "('t, 'g, 'e) tonic_client \<Rightarrow> 'e \<Rightarrow> 'g query_client \<Rightarrow> 'g query_client" where
  "query_client_send_compressed tn encoding c = c\<lparr>qc_inner := grpc_send_compressed tn encoding (qc_inner c)\<rparr>"

definition query_client_accept_compressed :: "('t, 'g, 'e) tonic_client \<Rightarrow> 'e \<Rightarrow> 'g query_client \<Rightarrow> 'g query_client" where
  "query_client_accept_compressed tn encoding c = c\<lparr>qc_inner := grpc_accept_compressed tn encoding (qc_inner c)\<rparr>"

definition query_client_max_decoding :: "('t, 'g, 'e) tonic_client \<Rightarrow> nat \<Rightarrow> 'g query_client \<Rightarrow> 'g query_client" where
  "query_client_max_decoding tn limit c = c\<lparr>qc_inner := grpc_max_decoding tn limit (qc_inner c)\<rparr>"

definition query_client_max_encoding :: "('t, 'g, 'e) tonic_client \<Rightarrow> nat \<Rightarrow> 'g query_client \<Rightarrow> 'g query_client" where
  "query_client_max_encoding tn limit c = c\<lparr>qc_inner := grpc_max_encoding tn limit (qc_inner c)\<rparr>"

definition msg_client_new :: "('t, 'g, 'e) tonic_client \<Rightarrow> 't \<Rightarrow> 'g msg_client" where
  "msg_client_new tn inner = \<lparr>mc_inner = grpc_new tn inner\<rparr>"

definition msg_client_connect ::
  "('t, 'g, 'e) tonic_client \<Rightarrow> ('d \<Rightarrow> 'p result) \<Rightarrow> ('p \<Rightarrow> 't result) \<Rightarrow> 'd \<Rightarrow> 'g msg_client result" where
  "msg_client_connect tn endpoint_new connect dst =
     (case endpoint_new dst of
        Inl e \<Rightarrow> Inl e
      | Inr endpoint \<Rightarrow> map_sum id (msg_client_new tn) (connect endpoint))"

definition msg_client_with_origin :: "('t, 'g, 'e) tonic_client \<Rightarrow> 't \<Rightarrow> string \<Rightarrow> 'g msg_client" where
  "msg_client_with_origin tn inner origin = \<lparr>mc_inner = grpc_with_origin tn inner origin\<rparr>"

definition msg_client_with_interceptor ::
  "('u, 'g, 'e) tonic_client \<Rightarrow> ('t \<Rightarrow> 'i \<Rightarrow> 'u) \<Rightarrow> 't \<Rightarrow> 'i \<Rightarrow> 'g msg_client" where
  "msg_client_with_interceptor tn intercepted inner interceptor =
     msg_client_new tn (intercepted inner interceptor)"

definition msg_client_send_compressed :: "('t, 'g, 'e) tonic_client \<Rightarrow> 'e \<Rightarrow> 'g msg_client \<Rightarrow> 'g msg_client" where
  "msg_client_send_compressed tn encoding c = c\<lparr>mc_inner := grpc_send_compressed tn encoding (mc_inner c)\<rparr>"

definition msg_client_accept_compressed :: "('t, 'g, 'e) tonic_client \<Rightarrow> 'e \<Rightarrow> 'g msg_client \<Rightarrow> 'g msg_client" where
  "msg_client_accept_compressed tn encoding c = c\<lparr>mc_inner := grpc_accept_compressed tn encoding (mc_inner c)\<rparr>"

definition msg_client_max_decoding :: "('t, 'g, 'e) tonic_client \<Rightarrow> nat \<Rightarrow> 'g msg_client \<Rightarrow> 'g msg_client" where
  "msg_client_max_decoding tn limit c = c\<lparr>mc_inner := grpc_max_decoding tn limit (mc_inner c)\<rparr>"

definition msg_client_max_encoding :: "('t, 'g, 'e) tonic_client \<Rightarrow> nat \<Rightarrow> 'g msg_client \<Rightarrow> 'g msg_client" where
  "msg_client_max_encoding tn limit c = c\<lparr>mc_inner := grpc_max_encoding tn limit (mc_inner c)\<rparr>"

text \<open>The body that the three generated methods share.\<close>

definition unary_stub ::
  "('t, 'g, 'e) tonic_client \<Rightarrow> ('req, 'resp) method_codec \<Rightarrow> string \<Rightarrow> string \<times> string
     \<Rightarrow> 'req tonic_request \<Rightarrow> 'g \<Rightarrow> 'resp reply \<times> 'g" where
  "unary_stub tn cd path grpc_method request g =
     (case grpc_ready tn g of
        (Inl e, g1) \<Rightarrow> (Inl \<lparr>st_code = CODE_UNKNOWN, st_message = ''Service was not ready: '' @ e\<rparr>, g1)
      | (Inr _, g1) \<Rightarrow>
          let req = request\<lparr>tr_method := Some grpc_method\<rparr>;
              (r, g2) = grpc_unary tn path (map_request (cd_encode_req cd) req) g1
          in (decode_reply (grpc_undecodable tn) cd r, g2))"

definition derive_codec :: "(derive_request, derive_response) method_codec" where
  "derive_codec = \<lparr>cd_encode_req = encode_derive_request, cd_decode_req = decode_derive_request,
     cd_encode_resp = encode_derive_response, cd_decode_resp = decode_derive_response\<rparr>"

definition quote_codec :: "(quote_request, quote_response) method_codec" where
  "quote_codec = \<lparr>cd_encode_req = encode_quote_request, cd_decode_req = decode_quote_request,
     cd_encode_resp = encode_quote_response, cd_decode_resp = decode_quote_response\<rparr>"

definition forward_codec :: "(msg_forward, forward_response) method_codec" where
  "forward_codec = \<lparr>cd_encode_req = encode_msg_forward, cd_decode_req = decode_msg_forward,
     cd_encode_resp = encode_forward_response, cd_decode_resp = decode_forward_response\<rparr>"

definition client_derive_forwarding_address ::
  "('t, 'g, 'e) tonic_client \<Rightarrow> derive_request tonic_request \<Rightarrow> 'g query_client
     \<Rightarrow> derive_response reply \<times> 'g query_client" where
  "client_derive_forwarding_address tn request c =
     (let (r, g) = unary_stub tn derive_codec ''/celestia.forwarding.v1.Query/DeriveForwardingAddress''
            (''celestia.forwarding.v1.Query'', ''DeriveForwardingAddress'') request (qc_inner c)
      in (r, c\<lparr>qc_inner := g\<rparr>))"

definition client_quote_forwarding_fee ::
  "('t, 'g, 'e) tonic_client \<Rightarrow> quote_request tonic_request \<Rightarrow> 'g query_client
     \<Rightarrow> quote_response reply \<times> 'g query_client" where
  "client_quote_forwarding_fee tn request c =
     (let (r, g) = unary_stub tn quote_codec ''/celestia.forwarding.v1.Query/QuoteForwardingFee''
            (''celestia.forwarding.v1.Query'', ''QuoteForwardingFee'') request (qc_inner c)
      in (r, c\<lparr>qc_inner := g\<rparr>))"

definition client_forward ::
  "('t, 'g, 'e) tonic_client \<Rightarrow> msg_forward tonic_request \<Rightarrow> 'g msg_client
     \<Rightarrow> forward_response reply \<times> 'g msg_client" where
  "client_forward tn request c =
     (let (r, g) = unary_stub tn forward_codec ''/celestia.forwarding.v1.Msg/Forward''
            (''celestia.forwarding.v1.Msg'', ''Forward'') request (mc_inner c)
      in (r, c\<lparr>mc_inner := g\<rparr>))"

section \<open>Server stubs\<close>

record http_request =
  hq_path :: string
  hq_headers :: "(string, string) hmap"
  hq_body :: bytes

record http_response =
  hs_status :: nat
  hs_headers :: "(string \<times> string) list"
  hs_body :: bytes

text \<open>
  tonic's side of a server: sets of compression encodings, and a unary call of a method under
  a configuration: accepted and sent encodings, limits for decoding and encoding.
\<close>

record ('e, 'c) tonic_server =
  server_undecodable :: tonic_status
  encodings_default :: 'c
  encodings_enable :: "'e \<Rightarrow> 'c \<Rightarrow> 'c"
  server_unary :: "'c \<Rightarrow> 'c \<Rightarrow> nat option \<Rightarrow> nat option \<Rightarrow> (bytes tonic_request \<Rightarrow> bytes reply)
     \<Rightarrow> http_request \<Rightarrow> http_response"

text \<open>The traits \<^verbatim>\<open>Query\<close> and \<^verbatim>\<open>Msg\<close>.\<close>

record query_service =
  h_derive :: "derive_request tonic_request \<Rightarrow> derive_response reply"
  h_quote :: "quote_request tonic_request \<Rightarrow> quote_response reply"

record msg_service =
  h_forward :: "msg_forward tonic_request \<Rightarrow> forward_response reply"

record 'c query_server =
  qsv_inner :: query_service
  qsv_accept :: 'c
  qsv_send :: 'c
  qsv_max_decoding :: "nat option"
  qsv_max_encoding :: "nat option"

record 'c msg_server =
  msv_inner :: msg_service
  msv_accept :: 'c
  msv_send :: 'c
  msv_max_decoding :: "nat option"
  msv_max_encoding :: "nat option"

definition query_server_from_arc :: "('e, 'c) tonic_server \<Rightarrow> query_service \<Rightarrow> 'c query_server" where
  "query_server_from_arc ts inner =
     \<lparr>qsv_inner = inner, qsv_accept = encodings_default ts, qsv_send = encodings_default ts,
      qsv_max_decoding = None, qsv_max_encoding = None\<rparr>"

definition query_server_new :: "('e, 'c) tonic_server \<Rightarrow> query_service \<Rightarrow> 'c query_server" where
  "query_server_new ts inner = query_server_from_arc ts inner"

definition query_server_with_interceptor ::
  "('e, 'c) tonic_server \<Rightarrow> ('c query_server \<Rightarrow> 'i \<Rightarrow> 's) \<Rightarrow> query_service \<Rightarrow> 'i \<Rightarrow> 's" where
  "query_server_with_interceptor ts intercepted inner interceptor = intercepted (query_server_new ts inner) interceptor"

definition query_server_accept_compressed :: "('e, 'c) tonic_server \<Rightarrow> 'e \<Rightarrow> 'c query_server \<Rightarrow> 'c query_server" where
  "query_server_accept_compressed ts encoding s = s\<lparr>qsv_accept := encodings_enable ts encoding (qsv_accept s)\<rparr>"

definition query_server_send_compressed :: "('e, 'c) tonic_server \<Rightarrow> 'e \<Rightarrow> 'c query_server \<Rightarrow> 'c query_server" where
  "query_server_send_compressed ts encoding s = s\<lparr>qsv_send := encodings_enable ts encoding (qsv_send s)\<rparr>"

definition query_server_max_decoding :: "nat \<Rightarrow> 'c query_server \<Rightarrow> 'c query_server" where
  "query_server_max_decoding limit s = s\<lparr>qsv_max_decoding := Some limit\<rparr>"

definition query_server_max_encoding :: "nat \<Rightarrow> 'c query_server \<Rightarrow> 'c query_server" where
  "query_server_max_encoding limit s = s\<lparr>qsv_max_encoding := Some limit\<rparr>"

definition unimplemented_response :: http_response where
  "unimplemented_response =
     \<lparr>hs_status = 200,
      hs_headers = [(''grpc-status'', decimal CODE_UNIMPLEMENTED), (''content-type'', ''application/grpc'')],
      hs_body = []\<rparr>"

definition query_call :: "('e, 'c) tonic_server \<Rightarrow> 'c query_server \<Rightarrow> http_request \<Rightarrow> http_response" where
  "query_call ts s req =
     (let unary = (\<lambda>h. server_unary ts (qsv_accept s) (qsv_send s) (qsv_max_decoding s) (qsv_max_encoding s) h req) in
      if hq_path req = ''/celestia.forwarding.v1.Query/DeriveForwardingAddress'' then
        unary (serve_message (server_undecodable ts) derive_codec (h_derive (qsv_inner s)))
      else if hq_path req = ''/celestia.forwarding.v1.Query/QuoteForwardingFee'' then
        unary (serve_message (server_undecodable ts) quote_codec (h_quote (qsv_inner s)))
      else unimplemented_response)"

definition query_server_clone :: "'c query_server \<Rightarrow> 'c query_server" where
  "query_server_clone s =
     \<lparr>qsv_inner = qsv_inner s, qsv_accept = qsv_accept s, qsv_send = qsv_send s,
      qsv_max_decoding = qsv_max_decoding s, qsv_max_encoding = qsv_max_encoding s\<rparr>"

definition msg_server_from_arc :: "('e, 'c) tonic_server \<Rightarrow> msg_service \<Rightarrow> 'c msg_server" where
  "msg_server_from_arc ts inner =
     \<lparr>msv_inner = inner, msv_accept = encodings_default ts, msv_send = encodings_default ts,
      msv_max_decoding = None, msv_max_encoding = None\<rparr>"

definition msg_server_new :: "('e, 'c) tonic_server \<Rightarrow> msg_service \<Rightarrow> 'c msg_server" where
  "msg_server_new ts inner = msg_server_from_arc ts inner"

definition msg_server_with_interceptor ::
  "('e, 'c) tonic_server \<Rightarrow> ('c msg_server \<Rightarrow> 'i \<Rightarrow> 's) \<Rightarrow> msg_service \<Rightarrow> 'i \<Rightarrow> 's" where
  "msg_server_with_interceptor ts intercepted inner interceptor = intercepted (msg_server_new ts inner) interceptor"

definition msg_server_accept_compressed :: "('e, 'c) tonic_server \<Rightarrow> 'e \<Rightarrow> 'c msg_server \<Rightarrow> 'c msg_server" where
  "msg_server_accept_compressed ts encoding s = s\<lparr>msv_accept := encodings_enable ts encoding (msv_accept s)\<rparr>"

definition msg_server_send_compressed :: "('e, 'c) tonic_server \<Rightarrow> 'e \<Rightarrow> 'c msg_server \<Rightarrow> 'c msg_server" where
  "msg_server_send_compressed ts encoding s = s\<lparr>msv_send := encodings_enable ts encoding (msv_send s)\<rparr>"

definition msg_server_max_decoding :: "nat \<Rightarrow> 'c msg_server \<Rightarrow> 'c msg_server" where
  "msg_server_max_decoding limit s = s\<lparr>msv_max_decoding := Some limit\<rparr>"

definition msg_server_max_encoding :: "nat \<Rightarrow> 'c msg_server \<Rightarrow> 'c msg_server" where
  "msg_server_max_encoding limit s = s\<lparr>msv_max_encoding := Some limit\<rparr>"

definition msg_call :: "('e, 'c) tonic_server \<Rightarrow> 'c msg_server \<Rightarrow> http_request \<Rightarrow> http_response" where
  "msg_call ts s req =
     (if hq_path req = ''/celestia.forwarding.v1.Msg/Forward'' then
        server_unary ts (msv_accept s) (msv_send s) (msv_max_decoding s) (msv_max_encoding s)
          (serve_message (server_undecodable ts) forward_codec (h_forward (msv_inner s))) req
      else unimplemented_response)"

definition msg_server_clone :: "'c msg_server \<Rightarrow> 'c msg_server" where
  "msg_server_clone s =
     \<lparr>msv_inner = msv_inner s, msv_accept = msv_accept s, msv_send = msv_send s,
      msv_max_decoding = msv_max_decoding s, msv_max_encoding = msv_max_encoding s\<rparr>"

section \<open>A client and a server\<close>

text \<open>
  What tonic promises of the connection between them. \<open>post\<close> is the HTTP request made of a path
  and a request, \<open>arrives\<close> the request made of it on the other side, with the same message,
  \<open>read\<close> the reply made of a response. A message of at most 4 MB gets through a server without
  limits of its own.
\<close>

record tonic_link =
  post :: "string \<Rightarrow> bytes tonic_request \<Rightarrow> http_request"
  arrives :: "bytes tonic_request \<Rightarrow> bytes tonic_request"
  read :: "http_response \<Rightarrow> bytes reply"

definition DEFAULT_LIMIT :: nat where
  "DEFAULT_LIMIT = 4 * 1024 * 1024"

definition answer :: "'m reply \<Rightarrow> tonic_status + 'm" where
  "answer r = map_sum id ts_message r"

definition link_ok :: "('e, 'c) tonic_server \<Rightarrow> tonic_link \<Rightarrow> bool" where
  "link_ok ts l \<longleftrightarrow>
     (\<forall>path req. hq_path (post l path req) = path)
     \<and> (\<forall>req. tr_message (arrives l req) = tr_message req)
     \<and> (\<forall>a s h path req.
          length (tr_message req) \<le> DEFAULT_LIMIT
          \<and> (\<forall>m. answer (h (arrives l req)) = Inr m \<longrightarrow> length m \<le> DEFAULT_LIMIT)
          \<longrightarrow> answer (read l (server_unary ts a s None None h (post l path req))) = answer (h (arrives l req)))
     \<and> (\<exists>m. read l unimplemented_response = Inl \<lparr>st_code = CODE_UNIMPLEMENTED, st_message = m\<rparr>)"

definition dials ::
  "('t, 'g, 'e) tonic_client \<Rightarrow> tonic_link \<Rightarrow> (http_request \<Rightarrow> http_response) \<Rightarrow> 'g \<Rightarrow> bool" where
  "dials tn l serve g \<longleftrightarrow>
     grpc_ready tn g = (Inr (), g)
     \<and> (\<forall>path req. fst (grpc_unary tn path req g) = read l (serve (post l path req)))"

text \<open>The request as the handler sees it.\<close>

definition delivered :: "tonic_link \<Rightarrow> ('req \<Rightarrow> bytes) \<Rightarrow> string \<times> string \<Rightarrow> 'req tonic_request \<Rightarrow> 'req tonic_request" where
  "delivered l enc grpc_method req =
     map_request (\<lambda>_. tr_message req) (arrives l (map_request enc (req\<lparr>tr_method := Some grpc_method\<rparr>)))"

lemma tr_message_delivered [simp]: "tr_message (delivered l enc gm req) = tr_message req"
  by (simp add: delivered_def map_request_def)

definition small :: "('m \<Rightarrow> bytes) \<Rightarrow> 'm \<Rightarrow> bool" where
  "small enc m \<longleftrightarrow> length (enc m) \<le> DEFAULT_LIMIT"

lemma small_u64: "small enc m \<Longrightarrow> length (enc m) < 2 ^ 64"
  by (simp add: small_def DEFAULT_LIMIT_def)

locale unary_codec =
  fixes cd :: "('req, 'resp) method_codec"
  assumes request_back: "length (cd_encode_req cd m) < 2 ^ 64 \<Longrightarrow> cd_decode_req cd (cd_encode_req cd m) = Some m"
    and response_back: "length (cd_encode_resp cd r) < 2 ^ 64 \<Longrightarrow> cd_decode_resp cd (cd_encode_resp cd r) = Some r"
begin

lemma stub_over_server:
  assumes "link_ok ts l" and "dials tn l serve g"
    and serve: "\<And>req. serve (post l path req) = server_unary ts a s None None (serve_message u cd h) (post l path req)"
    and req: "small (cd_encode_req cd) (tr_message request)"
    and resp: "\<And>m. answer (h (delivered l (cd_encode_req cd) gm request)) = Inr m \<Longrightarrow> small (cd_encode_resp cd) m"
  shows "answer (fst (unary_stub tn cd path gm request g)) = answer (h (delivered l (cd_encode_req cd) gm request))"
proof -
  let ?req = "map_request (cd_encode_req cd) (request\<lparr>tr_method := Some gm\<rparr>)"
  let ?d = "delivered l (cd_encode_req cd) gm request"
  have d: "map_request (\<lambda>_. tr_message request) (arrives l ?req) = ?d"
    by (simp add: delivered_def)
  have msg: "tr_message (arrives l ?req) = cd_encode_req cd (tr_message request)"
    using assms(1) by (simp add: link_ok_def map_request_def)
  have h: "serve_message u cd h (arrives l ?req) =
      (case h ?d of Inl st \<Rightarrow> Inl st
       | Inr r \<Rightarrow> Inr \<lparr>ts_metadata = ts_metadata r, ts_message = cd_encode_resp cd (ts_message r)\<rparr>)"
    by (simp add: serve_message_def msg request_back [OF small_u64 [OF req]] d)
  have "answer (read l (serve (post l path ?req))) = answer (serve_message u cd h (arrives l ?req))"
  proof -
    have "length (tr_message ?req) \<le> DEFAULT_LIMIT" using req by (simp add: small_def map_request_def)
    moreover have "length m \<le> DEFAULT_LIMIT" if "answer (serve_message u cd h (arrives l ?req)) = Inr m" for m
      using that resp by (auto simp: h answer_def small_def split: sum.splits)
    ultimately show ?thesis using assms(1) by (simp add: link_ok_def serve)
  qed
  then have "answer (decode_reply (grpc_undecodable tn) cd (read l (serve (post l path ?req)))) = answer (h ?d)"
    using resp small_u64 [of "cd_encode_resp cd"]
    by (auto simp: h answer_def decode_reply_def response_back split: sum.splits)
  then show ?thesis
    using assms(2) by (simp add: unary_stub_def dials_def split_beta Let_def)
qed

end

interpretation derive: unary_codec derive_codec
  by unfold_locales (simp_all add: derive_codec_def derive_request.decode_encode derive_response.decode_encode)

interpretation quote: unary_codec quote_codec
  by unfold_locales (simp_all add: quote_codec_def quote_request.decode_encode quote_response.decode_encode)

interpretation forward: unary_codec forward_codec
  by unfold_locales (simp_all add: forward_codec_def msg_forward.decode_encode forward_response.decode_encode)


definition derive_method :: "string \<times> string" where
  "derive_method = (''celestia.forwarding.v1.Query'', ''DeriveForwardingAddress'')"

definition quote_method :: "string \<times> string" where
  "quote_method = (''celestia.forwarding.v1.Query'', ''QuoteForwardingFee'')"

definition forward_method :: "string \<times> string" where
  "forward_method = (''celestia.forwarding.v1.Msg'', ''Forward'')"

lemma post_path: "link_ok ts l \<Longrightarrow> hq_path (post l path req) = path"
  by (simp add: link_ok_def)

text \<open>a call of a stub is a call of the method of that name. Over a connection that keeps what
  tonic promises, to a server without limits of its own and with any compression, each of the
  three generated client methods answers what the handler of the same name answers to the
  same message, errors included, for messages within the default limit of 4 MB.\<close>

theorem stubs_reach_handlers:
  assumes "link_ok ts l"
    and "dials tn l (query_call ts s) (qc_inner c)" and "dials tn l (msg_call ts s') (mc_inner c')"
    and "qsv_max_decoding s = None" and "qsv_max_encoding s = None"
    and "msv_max_decoding s' = None" and "msv_max_encoding s' = None"
    and "small encode_derive_request (tr_message d)" and "small encode_quote_request (tr_message q)"
    and "small encode_msg_forward (tr_message f)"
    and "\<And>m. answer (h_derive (qsv_inner s) (delivered l encode_derive_request derive_method d)) = Inr m \<Longrightarrow> small encode_derive_response m"
    and "\<And>m. answer (h_quote (qsv_inner s) (delivered l encode_quote_request quote_method q)) = Inr m \<Longrightarrow> small encode_quote_response m"
    and "\<And>m. answer (h_forward (msv_inner s') (delivered l encode_msg_forward forward_method f)) = Inr m \<Longrightarrow> small encode_forward_response m"
  shows "answer (fst (client_derive_forwarding_address tn d c))
      = answer (h_derive (qsv_inner s) (delivered l encode_derive_request derive_method d))
    \<and> answer (fst (client_quote_forwarding_fee tn q c))
      = answer (h_quote (qsv_inner s) (delivered l encode_quote_request quote_method q))
    \<and> answer (fst (client_forward tn f c'))
      = answer (h_forward (msv_inner s') (delivered l encode_msg_forward forward_method f))"
proof (intro conjI)
  note path = post_path [OF assms(1)]
  show "answer (fst (client_derive_forwarding_address tn d c))
      = answer (h_derive (qsv_inner s) (delivered l encode_derive_request derive_method d))"
    using derive.stub_over_server [OF assms(1,2), of _ "qsv_accept s" "qsv_send s"
        "server_undecodable ts" "h_derive (qsv_inner s)" d derive_method] assms(4,5,8,11)
    by (simp add: query_call_def path client_derive_forwarding_address_def split_beta derive_codec_def derive_method_def Let_def)
  show "answer (fst (client_quote_forwarding_fee tn q c))
      = answer (h_quote (qsv_inner s) (delivered l encode_quote_request quote_method q))"
    using quote.stub_over_server [OF assms(1,2), of "''/celestia.forwarding.v1.Query/QuoteForwardingFee''"
        "qsv_accept s" "qsv_send s" "server_undecodable ts" "h_quote (qsv_inner s)" q quote_method] assms(4,5,9,12)
    by (simp add: query_call_def path client_quote_forwarding_fee_def split_beta quote_codec_def quote_method_def Let_def)
  show "answer (fst (client_forward tn f c'))
      = answer (h_forward (msv_inner s') (delivered l encode_msg_forward forward_method f))"
    using forward.stub_over_server [OF assms(1,3), of "''/celestia.forwarding.v1.Msg/Forward''"
        "msv_accept s'" "msv_send s'" "server_undecodable ts" "h_forward (msv_inner s')" f forward_method] assms(6,7,10,13)
    by (simp add: msg_call_def path client_forward_def split_beta forward_codec_def forward_method_def Let_def)
qed

section \<open>An example connection\<close>

text \<open>A connection in memory: a status travels as the HTTP status, above 200.\<close>

definition loopback :: tonic_link where
  "loopback =
     \<lparr>post = (\<lambda>path req. \<lparr>hq_path = path, hq_headers = tr_metadata req, hq_body = tr_message req\<rparr>),
      arrives = (\<lambda>req. \<lparr>tr_metadata = tr_metadata req, tr_method = None, tr_message = tr_message req\<rparr>),
      read = (\<lambda>resp.
        if hs_status resp = 200 then
          (if map_of (hs_headers resp) ''grpc-status'' = Some ''12''
           then Inl \<lparr>st_code = CODE_UNIMPLEMENTED, st_message = []\<rparr>
           else Inr \<lparr>ts_metadata = hs_headers resp, ts_message = hs_body resp\<rparr>)
        else Inl \<lparr>st_code = hs_status resp - 201, st_message = snd (hd (hs_headers resp))\<rparr>)\<rparr>"

definition loopback_server :: "(unit, unit) tonic_server" where
  "loopback_server =
     \<lparr>server_undecodable = \<lparr>st_code = 13, st_message = ''failed to decode Protobuf message''\<rparr>,
      encodings_default = (), encodings_enable = (\<lambda>_ _. ()),
      server_unary = (\<lambda>_ _ _ _ h req.
        case h \<lparr>tr_metadata = hq_headers req, tr_method = None, tr_message = hq_body req\<rparr> of
          Inl st \<Rightarrow> \<lparr>hs_status = 201 + st_code st, hs_headers = [(''grpc-message'', st_message st)], hs_body = []\<rparr>
        | Inr r \<Rightarrow> \<lparr>hs_status = 200, hs_headers = [(''grpc-status'', ''0'')], hs_body = ts_message r\<rparr>)\<rparr>"

definition loopback_client ::
  "(http_request \<Rightarrow> http_response, http_request \<Rightarrow> http_response, unit) tonic_client" where
  "loopback_client =
     \<lparr>grpc_new = id, grpc_with_origin = (\<lambda>t _. t), grpc_send_compressed = (\<lambda>_ g. g),
      grpc_accept_compressed = (\<lambda>_ g. g), grpc_max_decoding = (\<lambda>_ g. g), grpc_max_encoding = (\<lambda>_ g. g),
      grpc_undecodable = \<lparr>st_code = 13, st_message = ''failed to decode Protobuf message''\<rparr>,
      grpc_ready = (\<lambda>g. (Inr (), g)),
      grpc_unary = (\<lambda>path req g. (read loopback (g (post loopback path req)), g))\<rparr>"

lemma decimal_12: "decimal CODE_UNIMPLEMENTED = ''12''"
  by code_simp

lemma loopback_ok: "link_ok loopback_server loopback"
  by (auto simp: link_ok_def loopback_def loopback_server_def answer_def unimplemented_response_def decimal_12
      split: sum.splits)

lemma loopback_dials: "dials loopback_client loopback serve serve"
  by (simp add: dials_def loopback_client_def)

definition example_query :: query_service where
  "example_query =
     \<lparr>h_derive = (\<lambda>_. Inr \<lparr>ts_metadata = [], ts_message = \<lparr>ds_address = ''celestia1a''\<rparr>\<rparr>),
      h_quote = (\<lambda>r. Inr \<lparr>ts_metadata = [], ts_message = \<lparr>qs_fee =
        Some \<lparr>coin_denom = ''utia'', coin_amount = qr_token_id (tr_message r)\<rparr>\<rparr>\<rparr>)\<rparr>"

definition example_msg :: msg_service where
  "example_msg = \<lparr>h_forward = (\<lambda>_. Inl \<lparr>st_code = 5, st_message = ''no balance''\<rparr>)\<rparr>"

definition request_of_message :: "'m \<Rightarrow> 'm tonic_request" where
  "request_of_message m = \<lparr>tr_metadata = [], tr_method = None, tr_message = m\<rparr>"

definition example_quote :: quote_request where
  "example_quote =
     \<lparr>qr_dest_domain = 42161, qr_token_id = ''7'', qr_custom_hook_id = [], qr_custom_hook_metadata = []\<rparr>"

lemma small_examples:
  "small encode_quote_request example_quote" "small encode_msg_forward example_message"
  "small encode_derive_request \<lparr>dr_dest_domain = 1, dr_dest_recipient = ''0x01'', dr_token_id = ''0x02''\<rparr>"
  "small encode_derive_response \<lparr>ds_address = ''celestia1a''\<rparr>"
  "small encode_quote_response \<lparr>qs_fee = Some \<lparr>coin_denom = ''utia'', coin_amount = ''7''\<rparr>\<rparr>"
proof -
  let ?d = "\<lparr>dr_dest_domain = 1, dr_dest_recipient = ''0x01'', dr_token_id = ''0x02''\<rparr>"
  let ?c = "\<lparr>coin_denom = ''utia'', coin_amount = ''7''\<rparr>"
  note sizes = wire_ok_def content_def bytes_of_string_def text_field_def number_field_def message_field_def
  have "length (encode_quote_request example_quote) \<le> 100"
    using length_render [of "quote_request_fields example_quote"]
    by (simp add: encode_quote_request_def quote_request_fields_def example_quote_def sizes)
  moreover note length_example_message
  moreover have "length (encode_derive_request ?d) \<le> 100"
    using length_render [of "derive_request_fields ?d"]
    by (simp add: encode_derive_request_def derive_request_fields_def sizes)
  moreover have "length (encode_derive_response \<lparr>ds_address = ''celestia1a''\<rparr>) \<le> 100"
    using length_render [of "text_field 1 ''celestia1a''"] by (simp add: encode_derive_response_def sizes)
  moreover have "length (encode_coin ?c) \<le> 60"
    using length_render [of "coin_fields ?c"] by (simp add: encode_coin_def coin_fields_def sizes)
  then have "length (encode_quote_response \<lparr>qs_fee = Some ?c\<rparr>) \<le> 100"
    using length_render [of "message_field 1 (Some (encode_coin ?c))"]
    by (simp add: encode_quote_response_def sizes)
  ultimately
  show "small encode_quote_request example_quote" "small encode_msg_forward example_message"
    "small encode_derive_request \<lparr>dr_dest_domain = 1, dr_dest_recipient = ''0x01'', dr_token_id = ''0x02''\<rparr>"
    "small encode_derive_response \<lparr>ds_address = ''celestia1a''\<rparr>"
    "small encode_quote_response \<lparr>qs_fee = Some \<lparr>coin_denom = ''utia'', coin_amount = ''7''\<rparr>\<rparr>"
    by (simp_all add: small_def DEFAULT_LIMIT_def)
qed

text \<open>a call to a service that the server does not offer is answered Unimplemented, whatever the
  handlers of the server are: a message to a query server, a query to a message server.\<close>

theorem foreign_service_unimplemented:
  assumes "link_ok ts l"
    and "dials tn l (query_call ts s) (mc_inner c)" and "dials tn l (msg_call ts s') (qc_inner c')"
  shows "(\<exists>m. fst (client_forward tn f c) = Inl \<lparr>st_code = CODE_UNIMPLEMENTED, st_message = m\<rparr>)
    \<and> (\<exists>m. fst (client_quote_forwarding_fee tn q c') = Inl \<lparr>st_code = CODE_UNIMPLEMENTED, st_message = m\<rparr>)
    \<and> (\<exists>m. fst (client_derive_forwarding_address tn d c') = Inl \<lparr>st_code = CODE_UNIMPLEMENTED, st_message = m\<rparr>)"
proof -
  note path = post_path [OF assms(1)]
  obtain m where "read l unimplemented_response = Inl \<lparr>st_code = CODE_UNIMPLEMENTED, st_message = m\<rparr>"
    using assms(1) by (auto simp: link_ok_def)
  then show ?thesis
    using assms(2,3)
    by (simp add: client_forward_def client_quote_forwarding_fee_def client_derive_forwarding_address_def
        unary_stub_def dials_def split_beta Let_def query_call_def msg_call_def path decode_reply_def)
qed

theorem foreign_service_unimplemented_witness:
  "\<exists>m. fst (client_forward loopback_client (request_of_message example_message)
      \<lparr>mc_inner = query_call loopback_server (query_server_new loopback_server example_query)\<rparr>)
   = Inl \<lparr>st_code = CODE_UNIMPLEMENTED, st_message = m\<rparr>"
  using foreign_service_unimplemented [OF loopback_ok, of loopback_client
      "query_server_new loopback_server example_query"
      "\<lparr>mc_inner = query_call loopback_server (query_server_new loopback_server example_query)\<rparr>"
      "msg_server_new loopback_server example_msg"
      "\<lparr>qc_inner = msg_call loopback_server (msg_server_new loopback_server example_msg)\<rparr>"]
  by (simp add: loopback_dials)

theorem stubs_reach_handlers_witness:
  "answer (fst (client_quote_forwarding_fee loopback_client (request_of_message example_quote)
      \<lparr>qc_inner = query_call loopback_server (query_server_new loopback_server example_query)\<rparr>))
   = Inr \<lparr>qs_fee = Some \<lparr>coin_denom = ''utia'', coin_amount = ''7''\<rparr>\<rparr>"
proof -
  let ?s = "query_server_new loopback_server example_query"
  let ?s' = "msg_server_new loopback_server example_msg"
  have "answer (fst (client_quote_forwarding_fee loopback_client (request_of_message example_quote)
      \<lparr>qc_inner = query_call loopback_server ?s\<rparr>))
    = answer (h_quote (qsv_inner ?s)
        (delivered loopback encode_quote_request quote_method (request_of_message example_quote)))"
    by (rule stubs_reach_handlers [OF loopback_ok, of loopback_client ?s _ ?s'
          "\<lparr>mc_inner = msg_call loopback_server ?s'\<rparr>"
          "request_of_message \<lparr>dr_dest_domain = 1, dr_dest_recipient = ''0x01'', dr_token_id = ''0x02''\<rparr>" _
          "request_of_message example_message", THEN conjunct2, THEN conjunct1])
      (use small_examples in \<open>simp_all add: loopback_dials query_server_new_def query_server_from_arc_def
        msg_server_new_def msg_server_from_arc_def request_of_message_def example_query_def example_msg_def
        answer_def example_quote_def\<close>)
  then show ?thesis
    by (simp add: query_server_new_def query_server_from_arc_def example_query_def answer_def
        request_of_message_def example_quote_def)
qed

section \<open>The relayer's fee query\<close>

text \<open>What the client does with an endpoint, over the generated stub.\<close>

definition stub_quote ::
  "('t, 'g, 'e) tonic_client \<Rightarrow> (grpc_endpoint \<Rightarrow> 't) \<Rightarrow> grpc_endpoint \<Rightarrow> quote_request \<Rightarrow> coin option call" where
  "stub_quote tn channel ep q =
     (case fst (client_quote_forwarding_fee tn (request_of_message q) (query_client_new tn (channel ep))) of
        Inl st \<Rightarrow> Refused (st_message st)
      | Inr r \<Rightarrow> Reply (qs_fee (ts_message r)))"

definition node_quote ::
  "tonic_link \<Rightarrow> (grpc_endpoint \<Rightarrow> 'c query_server) \<Rightarrow> grpc_endpoint \<Rightarrow> quote_request \<Rightarrow> coin option call" where
  "node_quote l node ep q =
     (case answer (h_quote (qsv_inner (node ep)) (delivered l encode_quote_request quote_method (request_of_message q))) of
        Inl st \<Rightarrow> Refused (st_message st)
      | Inr m \<Rightarrow> Reply (qs_fee m))"

lemma try_each_cong:
  "(\<And>i. i \<in> set is \<Longrightarrow> op i = op' i) \<Longrightarrow> try_each op is e = try_each op' is e"
  by (induction "is" arbitrary: e) (simp_all split: sum.split)

lemma with_failover_cong:
  assumes "\<And>ep. ep \<in> set (endpoints c) \<Longrightarrow> op ep = op' ep"
  shows "with_failover what op c = with_failover what op' c"
proof -
  let ?is = "rotation (current c) (length (endpoints c))"
  have "try_each (\<lambda>i. op (endpoints c ! i)) ?is None = try_each (\<lambda>i. op' (endpoints c ! i)) ?is None"
    by (rule try_each_cong) (simp add: assms)
  then show ?thesis by (simp add: with_failover_def)
qed

lemma stub_quote_node:
  assumes "link_ok ts l" and "dials tn l (query_call ts s) (grpc_new tn (channel ep))"
    and "qsv_max_decoding s = None" and "qsv_max_encoding s = None"
    and "small encode_quote_request q"
    and "\<And>m. answer (h_quote (qsv_inner s) (delivered l encode_quote_request quote_method (request_of_message q))) = Inr m
           \<Longrightarrow> small encode_quote_response m"
  shows "stub_quote tn channel ep q = node_quote l (\<lambda>_. s) ep q"
proof -
  have "answer (fst (client_quote_forwarding_fee tn (request_of_message q) (query_client_new tn (channel ep))))
    = answer (h_quote (qsv_inner s) (delivered l encode_quote_request quote_method (request_of_message q)))"
    using quote.stub_over_server [OF assms(1,2), of "''/celestia.forwarding.v1.Query/QuoteForwardingFee''"
        "qsv_accept s" "qsv_send s" "server_undecodable ts" "h_quote (qsv_inner s)" "request_of_message q" quote_method]
      assms(3-6) post_path [OF assms(1)]
    by (simp add: query_call_def client_quote_forwarding_fee_def query_client_new_def split_beta quote_codec_def
        quote_method_def Let_def request_of_message_def)
  then show ?thesis
    by (auto simp: stub_quote_def node_quote_def answer_def split: sum.splits)
qed

text \<open>C36: the fee the relayer works with is the fee the nodes quote. With every endpoint of the pool
  connected to a node over the generated stubs, the fee query, with its failover and its
  preferred endpoint, goes as if it asked the nodes' own handlers.\<close>

theorem fee_query_asks_nodes:
  assumes "link_ok ts l"
    and "\<forall>ep \<in> set (endpoints c). dials tn l (query_call ts (node ep)) (grpc_new tn (channel ep))
           \<and> qsv_max_decoding (node ep) = None \<and> qsv_max_encoding (node ep) = None"
    and "small encode_quote_request (quote_request_of domain token hook)"
    and "\<forall>ep \<in> set (endpoints c). \<forall>m. answer (h_quote (qsv_inner (node ep))
             (delivered l encode_quote_request quote_method
                (request_of_message (quote_request_of domain token hook)))) = Inr m
           \<longrightarrow> small encode_quote_response m"
  shows "query_igp_fee (env\<lparr>quote_forwarding_fee := stub_quote tn channel\<rparr>) domain token hook c
    = query_igp_fee (env\<lparr>quote_forwarding_fee := node_quote l node\<rparr>) domain token hook c"
proof -
  let ?q = "quote_request_of domain token hook"
  have "stub_quote tn channel ep ?q = node_quote l node ep ?q" if "ep \<in> set (endpoints c)" for ep
    using stub_quote_node [OF assms(1), of tn "node ep" channel ep ?q] assms(2-4) that
    by (auto simp: node_quote_def)
  then have "with_failover what (\<lambda>ep. f (stub_quote tn channel ep ?q)) c
      = with_failover what (\<lambda>ep. f (node_quote l node ep ?q)) c" for what and f :: "_ \<Rightarrow> string result"
    by (intro with_failover_cong) simp
  from this [of _ "\<lambda>r. map_sum id quoted_amount (call_result ''IGP fee query timed out''
      ''Failed to query IGP fee via forwarding gRPC query'' r)"]
  show ?thesis by (simp add: query_igp_fee_def)
qed

theorem fee_query_asks_nodes_witness:
  "fst (query_igp_fee (example_grpc\<lparr>quote_forwarding_fee := stub_quote loopback_client
        (\<lambda>_. query_call loopback_server (query_server_new loopback_server example_query))\<rparr>)
      42161 ''7'' \<lparr>hook_id = None, metadata = None\<rparr> example_client) = Inr ''7''"
proof -
  let ?s = "query_server_new loopback_server example_query"
  have q: "quote_request_of 42161 ''7'' \<lparr>hook_id = None, metadata = None\<rparr> = example_quote"
    by (simp add: quote_request_of_def unwrap_or_default_def example_quote_def)
  have h: "h_quote example_query r = Inr \<lparr>ts_metadata = [], ts_message = \<lparr>qs_fee =
      Some \<lparr>coin_denom = ''utia'', coin_amount = qr_token_id (tr_message r)\<rparr>\<rparr>\<rparr>" for r
    by (simp add: example_query_def)
  have n: "grpc_new loopback_client t = t" for t
    by (simp add: loopback_client_def)
  have s: "qsv_inner ?s = example_query" "qsv_max_decoding ?s = None" "qsv_max_encoding ?s = None"
    by (simp_all add: query_server_new_def query_server_from_arc_def)
  have "query_igp_fee (example_grpc\<lparr>quote_forwarding_fee := stub_quote loopback_client (\<lambda>_. query_call loopback_server ?s)\<rparr>)
      42161 ''7'' \<lparr>hook_id = None, metadata = None\<rparr> example_client
    = query_igp_fee (example_grpc\<lparr>quote_forwarding_fee := node_quote loopback (\<lambda>_. ?s)\<rparr>)
      42161 ''7'' \<lparr>hook_id = None, metadata = None\<rparr> example_client"
    by (rule fee_query_asks_nodes [OF loopback_ok])
      (use small_examples in \<open>simp_all add: loopback_dials n s h q answer_def request_of_message_def
        example_quote_def [THEN arg_cong [of _ _ qr_token_id]]\<close>)
  then show ?thesis
    by (simp add: query_igp_fee_def with_failover_def example_client_def rotation_def upt_rec Let_def
        node_quote_def s h q answer_def request_of_message_def example_quote_def
        call_result_def quoted_amount_def)
qed

end
