(* ===== verification/Pool.thy ===== *)
theory Pool
  imports Client
begin

text \<open>
  The endpoint pool under concurrent callers: \<^verbatim>\<open>with_failover\<close> and \<^verbatim>\<open>submit_forward\<close> of
  \<^verbatim>\<open>src/client.rs\<close>, cut at their awaits. The tasks of the relayer share the client behind an
  \<^verbatim>\<open>Arc\<close>, and its preferred endpoint is an atomic; between the awaits of one call any other
  may run. The clauses for the stages a call is not in leave it alone.
\<close>

section \<open>Calls cut at their awaits\<close>

text \<open>
  A query through the pool, with its operation, or a submission. \<open>Trying start i e\<close> awaits the
  endpoint \<open>i\<close> places after \<open>start\<close>, \<open>e\<close> being the last error; \<open>Submitting idx\<close> awaits the
  transaction client of endpoint \<open>idx\<close>.
\<close>

datatype 'a pool_call =
    Query string "grpc_endpoint \<Rightarrow> 'a result"
  | Submission msg_forward "grpc_endpoint \<Rightarrow> 'a result"

datatype 'a call_stage =
    Starting
  | Trying nat nat "string option"
  | Submitting nat
  | Finished "'a result"

fun query_piece ::
  "string \<Rightarrow> (grpc_endpoint \<Rightarrow> 'a result) \<Rightarrow> 'a call_stage \<Rightarrow> celestia_client \<Rightarrow> 'a call_stage \<times> celestia_client" where
  "query_piece what op Starting c =
     (if length (endpoints c) = 0 then (Finished (Inl ''pool has at least one endpoint''), c)
      else (Trying (current c) 0 None, c))"
| "query_piece what op (Trying start i last_err) c =
     (let count = length (endpoints c); idx = (start + i) mod count in
      case op (endpoints c ! idx) of
        Inr value \<Rightarrow>
          (Finished (Inr value),
           if idx \<noteq> start
           then c\<lparr>current := idx, client_log := client_log c @ [grpc_failover_metric]\<rparr>
           else c)
      | Inl e \<Rightarrow>
          if i + 1 < count then (Trying start (i + 1) (Some e), c)
          else (Finished (Inl (what @ '' failed on all gRPC endpoints'')), c))"
| "query_piece what op st c = (st, c)"

fun submit_piece ::
  "msg_forward \<Rightarrow> (grpc_endpoint \<Rightarrow> 'a result) \<Rightarrow> 'a call_stage \<Rightarrow> celestia_client \<Rightarrow> 'a call_stage \<times> celestia_client" where
  "submit_piece msg op Starting c =
     (if length (endpoints c) \<le> current c then (Finished (Inl ''index out of bounds''), c)
      else (Submitting (current c),
            c\<lparr>submissions := submissions c @ [(ge_url (endpoints c ! current c), msg)]\<rparr>))"
| "submit_piece msg op (Submitting idx) c =
     (case op (endpoints c ! idx) of
        Inr tx_hash \<Rightarrow> (Finished (Inr tx_hash), c)
      | Inl e \<Rightarrow>
          (Finished (Inl e),
           if 1 < length (endpoints c)
           then c\<lparr>current := (idx + 1) mod length (endpoints c),
                  client_log := client_log c @ [grpc_failover_metric]\<rparr>
           else c))"
| "submit_piece msg op st c = (st, c)"

fun call_piece :: "'a pool_call \<Rightarrow> 'a call_stage \<Rightarrow> celestia_client \<Rightarrow> 'a call_stage \<times> celestia_client" where
  "call_piece (Query what op) = query_piece what op"
| "call_piece (Submission msg op) = submit_piece msg op"

text \<open>Calls in flight together: each turn runs one piece of one of them.\<close>

definition pool_turn ::
  "'a pool_call list \<Rightarrow> nat \<Rightarrow> 'a call_stage list \<times> celestia_client \<Rightarrow> 'a call_stage list \<times> celestia_client" where
  "pool_turn calls k s =
     (case s of (sts, c) \<Rightarrow>
        if k < length sts
        then (case call_piece (calls ! k) (sts ! k) c of (st, c') \<Rightarrow> (sts[k := st], c'))
        else (sts, c))"

definition pool_run ::
  "'a pool_call list \<Rightarrow> nat list \<Rightarrow> 'a call_stage list \<times> celestia_client \<Rightarrow> 'a call_stage list \<times> celestia_client" where
  "pool_run calls ks s = fold (pool_turn calls) ks s"

definition forward_call ::
  "grpc_env \<Rightarrow> string \<Rightarrow> string \<Rightarrow> u32 \<Rightarrow> string \<Rightarrow> string \<Rightarrow> string \<Rightarrow> hook_binding \<Rightarrow> string pool_call" where
  "forward_call env signer addr domain token_recipient token max_igp_fee hook =
     (let msg = forward_message signer addr domain token_recipient token max_igp_fee hook
      in Submission msg (\<lambda>ep. call_result ''Transaction submission timed out'' ''Failed to submit MsgForward''
           (submit_message env ep msg)))"

section \<open>One call alone\<close>

definition runs_alone :: "'a pool_call \<Rightarrow> nat \<Rightarrow> celestia_client \<Rightarrow> 'a call_stage \<times> celestia_client" where
  "runs_alone k n c = ((\<lambda>(st, c). call_piece k st c) ^^ n) (Starting, c)"

lemma finished_stays: "((\<lambda>(st, c). call_piece k st c) ^^ n) (Finished r, c) = (Finished r, c)"
  by (induction n) (cases k; simp add: funpow_swap1)+

lemma funpow_first: "(f ^^ Suc n) x = (f ^^ n) (f x)"
  by (simp add: funpow_swap1)

lemmas query_finished_stays = finished_stays [of _ "Query what op" for what op, simplified]

lemma drop_rotation:
  "i < n \<Longrightarrow> drop i (rotation start n) = (start + i) mod n # drop (Suc i) (rotation start n)"
  by (simp add: Cons_nth_drop_Suc [symmetric])

lemma trying_alone:
  assumes "i < length (endpoints c)" and "length (endpoints c) - i = n"
  shows "((\<lambda>(st, c). call_piece (Query what op) st c) ^^ n) (Trying start i last_err, c) =
    (case try_each (\<lambda>idx. op (endpoints c ! idx)) (drop i (rotation start (length (endpoints c)))) last_err of
       Inr (idx, v) \<Rightarrow>
         (Finished (Inr v),
          if idx \<noteq> start then c\<lparr>current := idx, client_log := client_log c @ [grpc_failover_metric]\<rparr> else c)
     | Inl _ \<Rightarrow> (Finished (Inl (what @ '' failed on all gRPC endpoints'')), c))"
  using assms
proof (induction n arbitrary: i last_err)
  case (Suc n)
  let ?len = "length (endpoints c)" and ?step = "\<lambda>(st, c). call_piece (Query what op) st c"
  show ?case
  proof (cases "op (endpoints c ! ((start + i) mod ?len))")
    case (Inr v)
    then show ?thesis
      using Suc.prems(1) by (simp add: funpow_first drop_rotation Let_def query_finished_stays del: funpow.simps(2))
  next
    case (Inl e)
    show ?thesis
    proof (cases "i + 1 < ?len")
      case True
      with Suc.IH [of "Suc i" "Some e"] Suc.prems Inl show ?thesis
        by (simp add: funpow_first drop_rotation Let_def del: funpow.simps(2))
    next
      case False
      with Suc.prems Inl show ?thesis
        by (simp add: funpow_first drop_rotation Let_def query_finished_stays del: funpow.simps(2))
    qed
  qed
qed simp

text \<open>the pieces of one call, with nobody else at work, are the call: a query through the pool
  does what the whole of its loop over the endpoints does, and a submission what
  submission does, the answer, the preferred endpoint, the metrics and the trace of
  submitted messages included.\<close>

theorem pool_pieces_refine:
  "runs_alone (Query what op) (Suc (length (endpoints c))) c
      = (case with_failover what op c of (r, c') \<Rightarrow> (Finished r, c'))
   \<and> runs_alone (forward_call env (signer_address c) addr domain token_recipient token max_igp_fee hook) 2 c
      = (case submit_forward env addr domain token_recipient token max_igp_fee hook c of (r, c') \<Rightarrow> (Finished r, c'))"
proof
  show "runs_alone (Query what op) (Suc (length (endpoints c))) c
      = (case with_failover what op c of (r, c') \<Rightarrow> (Finished r, c'))"
  proof (cases "endpoints c")
    case Nil
    then show ?thesis by (simp add: runs_alone_def with_failover_def rotation_def)
  next
    case (Cons ep eps)
    let ?tries = "try_each (\<lambda>idx. op (endpoints c ! idx)) (rotation (current c) (length (endpoints c))) None"
    have "runs_alone (Query what op) (Suc (length (endpoints c))) c
      = ((\<lambda>(st, c). call_piece (Query what op) st c) ^^ length (endpoints c)) (Trying (current c) 0 None, c)"
      unfolding runs_alone_def funpow_first by (simp add: Cons)
    also have "\<dots> = (case ?tries of
       Inr (idx, v) \<Rightarrow> (Finished (Inr v),
          if idx \<noteq> current c then c\<lparr>current := idx, client_log := client_log c @ [grpc_failover_metric]\<rparr> else c)
     | Inl _ \<Rightarrow> (Finished (Inl (what @ '' failed on all gRPC endpoints'')), c))"
      using trying_alone [of 0 c "length (endpoints c)"] by (simp add: Cons)
    also have "\<dots> = (case with_failover what op c of (r, c') \<Rightarrow> (Finished r, c'))"
    proof (cases ?tries)
      case (Inl e)
      moreover have "e \<noteq> None"
        using try_each_Inl [OF Inl] by (metis Cons length_greater_0_conv length_rotation list.distinct(1))
      ultimately show ?thesis by (auto simp: with_failover_def)
    next
      case (Inr q)
      then show ?thesis by (cases q) (simp add: with_failover_def)
    qed
    finally show ?thesis .
  qed
  show "runs_alone (forward_call env (signer_address c) addr domain token_recipient token max_igp_fee hook) 2 c
      = (case submit_forward env addr domain token_recipient token max_igp_fee hook c of (r, c') \<Rightarrow> (Finished r, c'))"
    by (auto simp: runs_alone_def forward_call_def submit_forward_def numeral_2_eq_2 Let_def split: sum.split)
qed

lemma first_answer:
  assumes "client_ok c" and "i < length (endpoints c)"
    and "\<forall>j < i. \<exists>e. op (endpoints c ! ((current c + j) mod length (endpoints c))) = Inl e"
    and "op (endpoints c ! ((current c + i) mod length (endpoints c))) = Inr v"
  shows "fst (with_failover what op c) = Inr v"
proof -
  obtain r c' where eq: "with_failover what op c = (r, c')" by fastforce
  from assms(1) eq show ?thesis
  proof (cases rule: with_failover_cases)
    case (served n w)
    then have "n = i"
      using assms(3,4) by (metis Inl_Inr_False linorder_neqE_nat)
    with served assms(4) eq show ?thesis by simp
  next
    case all_failed
    then have "\<exists>e. op (endpoints c ! ((current c + i) mod length (endpoints c))) = Inl e"
      using assms(2) by (metis gr_implies_not0 length_0_conv list.size(3) mod_less_divisor neq0_conv nth_mem)
    with assms(4) show ?thesis by simp
  qed
qed

lemma no_answer:
  assumes "client_ok c"
    and "\<forall>j < length (endpoints c). \<exists>e. op (endpoints c ! ((current c + j) mod length (endpoints c))) = Inl e"
  shows "fst (with_failover what op c) = Inl (what @ '' failed on all gRPC endpoints'')"
proof -
  obtain r c' where eq: "with_failover what op c = (r, c')" by fastforce
  from assms(1) eq show ?thesis
  proof (cases rule: with_failover_cases)
    case (served n w)
    with assms(2) show ?thesis by (metis Inl_Inr_False)
  qed (simp add: eq)
qed

section \<open>Calls together\<close>

text \<open>What a call in flight has seen so far, on the endpoints \<open>es\<close> of the pool.\<close>

fun stage_ok :: "grpc_endpoint list \<Rightarrow> 'a pool_call \<Rightarrow> 'a call_stage \<Rightarrow> bool" where
  "stage_ok es k Starting \<longleftrightarrow> True"
| "stage_ok es (Query what op) (Trying start i last_err) \<longleftrightarrow>
     start < length es \<and> i < length es
     \<and> (\<forall>j < i. \<exists>e. op (es ! ((start + j) mod length es)) = Inl e)"
| "stage_ok es (Submission msg op) (Submitting idx) \<longleftrightarrow> idx < length es"
| "stage_ok es (Query what op) (Finished r) \<longleftrightarrow>
     (\<exists>start < length es. \<forall>c. endpoints c = es \<and> current c = start \<longrightarrow> r = fst (with_failover what op c))"
| "stage_ok es (Submission msg op) (Finished r) \<longleftrightarrow> (\<exists>idx < length es. r = op (es ! idx))"
| "stage_ok es k st \<longleftrightarrow> False"

lemma call_piece_ok:
  assumes "client_ok c" and "stage_ok (endpoints c) k st" and "call_piece k st c = (st', c')"
  shows "client_ok c' \<and> same_endpoints c c' \<and> stage_ok (endpoints c) k st'"
proof (cases k)
  case (Query what op)
  let ?es = "endpoints c"
  have pos: "0 < length ?es" using assms(1) by (auto simp: client_ok_def)
  show ?thesis
  proof (cases st)
    case (Trying start i last_err)
    let ?idx = "(start + i) mod length ?es"
    from assms(2) have st: "start < length ?es" "i < length ?es"
      "\<forall>j < i. \<exists>e. op (?es ! ((start + j) mod length ?es)) = Inl e"
      by (simp_all add: Query Trying)
    show ?thesis
    proof (cases "op (?es ! ?idx)")
      case (Inr v)
      have "Inr v = fst (with_failover what op d)" if "endpoints d = ?es" "current d = start" for d
        using first_answer [of d i op v what] that st Inr by (simp add: client_ok_def)
      with st(1) have "stage_ok ?es k (Finished (Inr v))" by (auto simp: Query)
      with assms(1,3) st(1) pos show ?thesis
        by (simp add: Query Trying Inr client_ok_def Let_def) auto
    next
      case (Inl e)
      have more: "\<forall>j < Suc i. \<exists>e. op (?es ! ((start + j) mod length ?es)) = Inl e"
        using st(3) Inl by (auto simp: less_Suc_eq)
      show ?thesis
      proof (cases "i + 1 < length ?es")
        case True
        with assms(1,3) st(1) more show ?thesis by (auto simp: Query Trying Inl Let_def)
      next
        case False
        with st(2) have "length ?es = Suc i" by simp
        then have "Inl (what @ '' failed on all gRPC endpoints'') = fst (with_failover what op d)"
          if "endpoints d = ?es" "current d = start" for d
          using no_answer [of d op what] that st more by (simp add: client_ok_def)
        with st(1) have "stage_ok ?es k (Finished (Inl (what @ '' failed on all gRPC endpoints'')))"
          by (auto simp: Query)
        with assms(1,3) False st(1) show ?thesis by (simp add: Query Trying Inl Let_def)
      qed
    qed
  qed (use assms pos in \<open>auto simp: Query client_ok_def split: if_splits\<close>)
next
  case (Submission msg op)
  have pos: "0 < length (endpoints c)" using assms(1) by (auto simp: client_ok_def)
  show ?thesis
  proof (cases st)
    case (Submitting idx)
    with assms(2) have "stage_ok (endpoints c) k (Finished (op (endpoints c ! idx)))"
      by (auto simp: Submission)
    with assms(1,3) pos show ?thesis
      by (cases "op (endpoints c ! idx)") (auto simp: Submission Submitting client_ok_def split: if_splits)
  qed (use assms pos in \<open>auto simp: Submission client_ok_def split: if_splits\<close>)
qed

definition pool_ok :: "'a pool_call list \<Rightarrow> grpc_endpoint list \<Rightarrow> 'a call_stage list \<times> celestia_client \<Rightarrow> bool" where
  "pool_ok calls es s \<longleftrightarrow>
     (case s of (sts, c) \<Rightarrow>
        client_ok c \<and> endpoints c = es \<and> length sts = length calls
        \<and> (\<forall>k < length sts. stage_ok es (calls ! k) (sts ! k)))"

lemma pool_turn_ok: "pool_ok calls es s \<Longrightarrow> pool_ok calls es (pool_turn calls k s)"
  by (auto simp: pool_ok_def pool_turn_def same_endpoints_def nth_list_update
      dest: call_piece_ok split: prod.splits)

lemma pool_run_ok: "pool_ok calls es s \<Longrightarrow> pool_ok calls es (pool_run calls ks s)"
  unfolding pool_run_def by (induction ks arbitrary: s) (simp_all add: pool_turn_ok)

section \<open>Every call ends\<close>

fun stage_left :: "nat \<Rightarrow> 'a call_stage \<Rightarrow> nat" where
  "stage_left n Starting = Suc n"
| "stage_left n (Trying start i e) = n - i"
| "stage_left n (Submitting idx) = 1"
| "stage_left n (Finished r) = 0"

lemma call_piece_left:
  assumes "client_ok c" and "stage_ok (endpoints c) k st" and "call_piece k st c = (st', c')"
  shows "stage_left (length (endpoints c)) st' \<le> stage_left (length (endpoints c)) st - 1"
  using assms
  by (cases k; cases st)
    (auto simp: client_ok_def Let_def Suc_le_eq split: sum.splits if_splits)

lemma pool_run_left:
  assumes "pool_ok calls es (sts, c)" and "j < length sts"
  shows "stage_left (length es) (fst (pool_run calls ks (sts, c)) ! j)
    \<le> stage_left (length es) (sts ! j) - count_list ks j"
  using assms
proof (induction ks arbitrary: sts c)
  case (Cons k ks)
  obtain sts' c' where turn: "pool_turn calls k (sts, c) = (sts', c')" by fastforce
  from pool_turn_ok [OF Cons.prems(1), of k] turn have ok: "pool_ok calls es (sts', c')" by simp
  from Cons.prems turn have len: "j < length sts'"
    by (auto simp: pool_turn_def split: prod.splits if_splits)
  have "stage_left (length es) (sts' ! j) \<le> stage_left (length es) (sts ! j) - (if k = j then 1 else 0)"
    using Cons.prems turn call_piece_left [of c "calls ! j" "sts ! j"]
    by (auto simp: pool_turn_def pool_ok_def nth_list_update split: prod.splits if_splits)
  with Cons.IH [OF ok len] turn show ?case
    by (auto simp: pool_run_def)
qed (simp add: pool_run_def)

section \<open>Messages are handed over once\<close>

fun handed_over :: "'a pool_call \<Rightarrow> 'a call_stage \<Rightarrow> nat" where
  "handed_over (Query what op) st = 0"
| "handed_over (Submission msg op) Starting = 0"
| "handed_over (Submission msg op) st = 1"

lemma call_piece_handed_over:
  assumes "client_ok c" and "stage_ok (endpoints c) k st" and "call_piece k st c = (st', c')"
  shows "length (submissions c') + handed_over k st = length (submissions c) + handed_over k st'"
  using assms
  by (cases k; cases st) (auto simp: client_ok_def Let_def split: sum.splits if_splits)

lemma pool_turn_handed_over:
  assumes "pool_ok calls es (sts, c)" and "pool_turn calls j (sts, c) = (sts', c')"
  shows "length (submissions c') + (\<Sum>k < length calls. handed_over (calls ! k) (sts ! k))
    = length (submissions c) + (\<Sum>k < length calls. handed_over (calls ! k) (sts' ! k))"
proof (cases "j < length sts")
  case True
  let ?f = "\<lambda>sts k. handed_over (calls ! k) (sts ! k)"
  obtain st d where piece: "call_piece (calls ! j) (sts ! j) c = (st, d)" by fastforce
  with assms(2) True have new: "sts' = sts[j := st]" "c' = d" by (simp_all add: pool_turn_def)
  have j: "j \<in> {..<length calls}" using assms(1) True by (simp add: pool_ok_def)
  have "sum (?f sts') ({..<length calls} - {j}) = sum (?f sts) ({..<length calls} - {j})"
    by (rule sum.cong) (auto simp: new)
  moreover have "length (submissions c') + ?f sts j = length (submissions c) + ?f sts' j"
    using call_piece_handed_over [of c "calls ! j" "sts ! j" st d] assms(1) True piece new
    by (simp add: pool_ok_def)
  ultimately show ?thesis
    using sum.remove [OF finite_lessThan j, of "?f sts"] sum.remove [OF finite_lessThan j, of "?f sts'"]
    by simp
qed (use assms in \<open>simp add: pool_turn_def\<close>)

lemma pool_run_handed_over:
  assumes "pool_ok calls es (sts, c)" and "pool_run calls ks (sts, c) = (sts', c')"
  shows "length (submissions c') + (\<Sum>k < length calls. handed_over (calls ! k) (sts ! k))
    = length (submissions c) + (\<Sum>k < length calls. handed_over (calls ! k) (sts' ! k))"
  using assms
proof (induction ks arbitrary: sts c)
  case (Cons j ks)
  obtain sts1 c1 where turn: "pool_turn calls j (sts, c) = (sts1, c1)" by fastforce
  from pool_turn_ok [OF Cons.prems(1), of j] turn have "pool_ok calls es (sts1, c1)" by simp
  with Cons.IH [of sts1 c1] Cons.prems(2) turn pool_turn_handed_over [OF Cons.prems(1) turn] show ?case
    by (simp add: pool_run_def)
qed (simp add: pool_run_def)

lemma handed_over_Starting [simp]: "handed_over k Starting = 0"
  by (cases k) simp_all

text \<open>C33: however queries and submissions of concurrent tasks interleave on the shared preferred
  endpoint, a call that has run as many pieces as there are endpoints, and one more, has
  finished: a query with exactly the answer it gives alone from some endpoint of the pool, a
  submission with the answer of the one endpoint it used. Every submission that has started has
  handed its message over once, and the preferred endpoint stays in the pool.\<close>

theorem concurrent_calls_answer:
  assumes "client_ok c" and "pool_run calls ks (replicate (length calls) Starting, c) = (sts, c')"
    and "j < length calls" and "length (endpoints c) < count_list ks j"
  shows "client_ok c' \<and> endpoints c' = endpoints c
    \<and> length (submissions c') = length (submissions c) + (\<Sum>k < length calls. handed_over (calls ! k) (sts ! k))
    \<and> (\<exists>r. sts ! j = Finished r \<and> (\<exists>start < length (endpoints c). case calls ! j of
         Query what op \<Rightarrow> r = fst (with_failover what op (c\<lparr>current := start\<rparr>))
       | Submission msg op \<Rightarrow> r = op (endpoints c ! start)))"
proof -
  have init: "pool_ok calls (endpoints c) (replicate (length calls) Starting, c)"
    using assms(1) by (simp add: pool_ok_def)
  from pool_run_ok [OF init, of ks] assms(2) have ok: "pool_ok calls (endpoints c) (sts, c')" by simp
  from pool_run_left [OF init, of j ks] assms(2-4)
  have "stage_left (length (endpoints c)) (sts ! j) = 0" by simp
  moreover from ok assms(3) have st: "stage_ok (endpoints c) (calls ! j) (sts ! j)" by (simp add: pool_ok_def)
  ultimately obtain r where r: "sts ! j = Finished r"
    by (cases "sts ! j"; cases "calls ! j") auto
  from st r have "\<exists>start < length (endpoints c). case calls ! j of
         Query what op \<Rightarrow> r = fst (with_failover what op (c\<lparr>current := start\<rparr>))
       | Submission msg op \<Rightarrow> r = op (endpoints c ! start)"
    by (cases "calls ! j") auto
  moreover have "length (submissions c')
      = length (submissions c) + (\<Sum>k < length calls. handed_over (calls ! k) (sts ! k))"
    using pool_run_handed_over [OF init assms(2)] by simp
  ultimately show ?thesis using r ok by (simp add: pool_ok_def)
qed

text \<open>Two queries and a submission, in turns; only the first endpoint works.\<close>

definition example_calls :: "string pool_call list" where
  "example_calls =
     [Query ''a'' (\<lambda>ep. if ge_url ep = ''http://a'' then Inr ''5'' else Inl ''down''),
      Query ''b'' (\<lambda>ep. Inl ''down''),
      forward_call example_grpc ''celestia1me'' ''addr'' 1 ''rec'' ''tok'' ''1utia'' \<lparr>hook_id = None, metadata = None\<rparr>]"

theorem concurrent_calls_answer_witness:
  "\<exists>r. fst (pool_run example_calls [0, 1, 2, 0, 1, 2, 0, 1, 0] (replicate 3 Starting, example_client)) ! 0 = Finished r
     \<and> (\<exists>start < 3. r = fst (with_failover ''a'' (\<lambda>ep. if ge_url ep = ''http://a'' then Inr ''5'' else Inl ''down'')
          (example_client\<lparr>current := start\<rparr>)))"
proof -
  obtain sts c' where run: "pool_run example_calls [0, 1, 2, 0, 1, 2, 0, 1, 0] (replicate 3 Starting, example_client) = (sts, c')"
    by fastforce
  have n: "length example_calls = 3" "length (endpoints example_client) = 3"
    by (simp_all add: example_calls_def example_client_def)
  show ?thesis
    using concurrent_calls_answer [OF example_client_ok, of example_calls "[0, 1, 2, 0, 1, 2, 0, 1, 0]" sts c' 0] run
    by (simp add: n) (simp add: example_calls_def)
qed

end
