(* ===== verification/Json.thy ===== *)
theory Json
  imports World
begin

text \<open>
  The JSON that clients, backend and relayer exchange: what the derived serde implementations of
  the structs of \<^verbatim>\<open>src/lib.rs\<close> write and accept, the bodies of the handlers of
  \<^verbatim>\<open>src/backend.rs\<close> and the relayer's reading of a listing. A value stands for its text,
  which serde\_json prints and parses. Theory \<open>World\<close> hands the bodies over as they are; the
  theorem at the end says that nothing is lost by it.
\<close>

section \<open>JSON values\<close>

text \<open>The text of a number that is not an integer is kept.\<close>

datatype json =
    JNull
  | JBool bool
  | JInt int
  | JFloat string
  | JStr string
  | JArr "json list"
  | JObj "(string \<times> json) list"

definition signed_decimal :: "int \<Rightarrow> string" where
  "signed_decimal n = (if n < 0 then CHR ''-'' # decimal (nat (- n)) else decimal (nat n))"

text \<open>How an error names a value. The position serde\_json adds is cut.\<close>

fun unexpected :: "json \<Rightarrow> string" where
  "unexpected JNull = ''null''"
| "unexpected (JBool b) = ''boolean `'' @ (if b then ''true'' else ''false'') @ ''`''"
| "unexpected (JInt n) = ''integer `'' @ signed_decimal n @ ''`''"
| "unexpected (JFloat s) = ''floating point `'' @ s @ ''`''"
| "unexpected (JStr s) = ''string '' @ debug_string s"
| "unexpected (JArr _) = ''sequence''"
| "unexpected (JObj _) = ''map''"

section \<open>Derived deserialization\<close>

text \<open>The types of spec in the structs of the program.\<close>

datatype field_kind = Text | U32 | OptText

definition invalid_type :: "json \<Rightarrow> string \<Rightarrow> unit result" where
  "invalid_type j expected = Inl (''invalid type: '' @ unexpected j @ '', expected '' @ expected)"

fun check_field :: "field_kind \<Rightarrow> json \<Rightarrow> unit result" where
  "check_field Text (JStr s) = Inr ()"
| "check_field Text j = invalid_type j ''a string''"
| "check_field OptText JNull = Inr ()"
| "check_field OptText (JStr s) = Inr ()"
| "check_field OptText j = invalid_type j ''a string''"
| "check_field U32 (JInt n) =
     (if 0 \<le> n \<and> n < 2 ^ 32 then Inr ()
      else Inl (''invalid value: integer `'' @ signed_decimal n @ ''`, expected u32''))"
| "check_field U32 j = invalid_type j ''u32''"

text \<open>
  An object: the entries in order, an unknown key skipped, a known key taken once. Of the
  spec left out the optional ones are absent, the first other one is an error.
\<close>

fun visit_map ::
  "(string \<times> field_kind) list \<Rightarrow> (string \<times> json) list \<Rightarrow> (string \<times> json) list \<Rightarrow> (string \<times> json) list result" where
  "visit_map spec [] seen = Inr seen"
| "visit_map spec ((k, v) # es) seen =
     (case map_of spec k of
        None \<Rightarrow> visit_map spec es seen
      | Some ft \<Rightarrow>
          if k \<in> fst ` set seen then Inl (''duplicate field `'' @ k @ ''`'')
          else (case check_field ft v of
                  Inl e \<Rightarrow> Inl e
                | Inr _ \<Rightarrow> visit_map spec es ((k, v) # seen)))"

definition missing_field :: "(string \<times> field_kind) list \<Rightarrow> (string \<times> json) list \<Rightarrow> string option" where
  "missing_field spec seen =
     map_option fst (List.find (\<lambda>(k, ft). ft \<noteq> OptText \<and> k \<notin> fst ` set seen) spec)"

text \<open>An array: the spec in the order of the struct.\<close>

fun visit_seq :: "string \<Rightarrow> nat \<Rightarrow> (string \<times> field_kind) list \<Rightarrow> json list \<Rightarrow> (string \<times> json) list result" where
  "visit_seq expected i [] [] = Inr []"
| "visit_seq expected i [] (x # xs) = Inl ''trailing characters''"
| "visit_seq expected i ((k, ft) # spec) [] =
     (if ft = OptText then visit_seq expected (Suc i) spec []
      else Inl (''invalid length '' @ decimal i @ '', expected '' @ expected))"
| "visit_seq expected i ((k, ft) # spec) (x # xs) =
     (case check_field ft x of
        Inl e \<Rightarrow> Inl e
      | Inr _ \<Rightarrow> map_sum id ((#) (k, x)) (visit_seq expected (Suc i) spec xs))"

definition struct_fields :: "string \<Rightarrow> (string \<times> field_kind) list \<Rightarrow> json \<Rightarrow> (string \<times> json) list result" where
  "struct_fields name spec j =
     (let expected = ''struct '' @ name in
      case j of
        JObj es \<Rightarrow>
          (case visit_map spec es [] of
             Inl e \<Rightarrow> Inl e
           | Inr seen \<Rightarrow>
               (case missing_field spec seen of
                  Some k \<Rightarrow> Inl (''missing field `'' @ k @ ''`'')
                | None \<Rightarrow> Inr seen))
      | JArr xs \<Rightarrow>
          visit_seq (expected @ '' with '' @ decimal (length spec) @ '' elements'') 0 spec xs
      | _ \<Rightarrow> map_sum id (\<lambda>_. []) (invalid_type j expected))"

definition text_of :: "(string \<times> json) list \<Rightarrow> string \<Rightarrow> string" where
  "text_of fs k = (case map_of fs k of Some (JStr s) \<Rightarrow> s | _ \<Rightarrow> [])"

definition u32_of :: "(string \<times> json) list \<Rightarrow> string \<Rightarrow> u32" where
  "u32_of fs k = (case map_of fs k of Some (JInt n) \<Rightarrow> of_int n | _ \<Rightarrow> 0)"

definition opt_text_of :: "(string \<times> json) list \<Rightarrow> string \<Rightarrow> string option" where
  "opt_text_of fs k = (case map_of fs k of Some (JStr s) \<Rightarrow> Some s | _ \<Rightarrow> None)"

section \<open>The structs\<close>

definition opt_json :: "string option \<Rightarrow> json" where
  "opt_json s = (case s of None \<Rightarrow> JNull | Some t \<Rightarrow> JStr t)"

definition skip_none :: "string \<Rightarrow> string option \<Rightarrow> (string \<times> json) list" where
  "skip_none k s = (case s of None \<Rightarrow> [] | Some t \<Rightarrow> [(k, JStr t)])"

definition request_fields :: "(string \<times> field_kind) list" where
  "request_fields =
     [(''forward_addr'', Text), (''dest_domain'', U32), (''dest_recipient'', Text), (''token_id'', Text),
      (''custom_hook_id'', OptText), (''custom_hook_metadata'', OptText), (''created_at'', Text)]"

definition request_json :: "forwarding_request \<Rightarrow> json" where
  "request_json r = JObj
     ([(''forward_addr'', JStr (forward_addr r)), (''dest_domain'', JInt (uint (dest_domain r))),
       (''dest_recipient'', JStr (dest_recipient r)), (''token_id'', JStr (token_id r))]
      @ skip_none ''custom_hook_id'' (custom_hook_id r)
      @ skip_none ''custom_hook_metadata'' (custom_hook_metadata r)
      @ [(''created_at'', JStr (created_at r))])"

definition json_request :: "json \<Rightarrow> forwarding_request result" where
  "json_request j =
     map_sum id
       (\<lambda>fs. \<lparr>forward_addr = text_of fs ''forward_addr'', dest_domain = u32_of fs ''dest_domain'',
          dest_recipient = text_of fs ''dest_recipient'', token_id = text_of fs ''token_id'',
          custom_hook_id = opt_text_of fs ''custom_hook_id'',
          custom_hook_metadata = opt_text_of fs ''custom_hook_metadata'',
          created_at = text_of fs ''created_at''\<rparr>)
       (struct_fields ''ForwardingRequest'' request_fields j)"

definition create_fields :: "(string \<times> field_kind) list" where
  "create_fields =
     [(''forward_addr'', Text), (''dest_domain'', U32), (''dest_recipient'', Text), (''token_id'', Text),
      (''custom_hook_id'', OptText), (''custom_hook_metadata'', OptText)]"

definition create_json :: "create_forwarding_request \<Rightarrow> json" where
  "create_json r = JObj
     [(''forward_addr'', JStr (c_forward_addr r)), (''dest_domain'', JInt (uint (c_dest_domain r))),
      (''dest_recipient'', JStr (c_dest_recipient r)), (''token_id'', JStr (c_token_id r)),
      (''custom_hook_id'', opt_json (c_custom_hook_id r)),
      (''custom_hook_metadata'', opt_json (c_custom_hook_metadata r))]"

definition json_create :: "json \<Rightarrow> create_forwarding_request result" where
  "json_create j =
     map_sum id
       (\<lambda>fs. \<lparr>c_forward_addr = text_of fs ''forward_addr'', c_dest_domain = u32_of fs ''dest_domain'',
          c_dest_recipient = text_of fs ''dest_recipient'', c_token_id = text_of fs ''token_id'',
          c_custom_hook_id = opt_text_of fs ''custom_hook_id'',
          c_custom_hook_metadata = opt_text_of fs ''custom_hook_metadata''\<rparr>)
       (struct_fields ''CreateForwardingRequest'' create_fields j)"

lemma u32_back: "0 \<le> uint d" "uint d < 4294967296" "of_int (uint d) = d" for d :: u32
  using unsigned_less [of d, where 'a = int] by simp_all

lemma json_request_json [simp]: "json_request (request_json r) = Inr r"
  by (cases "custom_hook_id r"; cases "custom_hook_metadata r")
    (simp_all add: json_request_def request_json_def struct_fields_def request_fields_def skip_none_def
      missing_field_def text_of_def u32_of_def opt_text_of_def u32_back)

lemma json_create_json [simp]: "json_create (create_json r) = Inr r"
  by (cases "c_custom_hook_id r"; cases "c_custom_hook_metadata r")
    (simp_all add: json_create_def create_json_def struct_fields_def create_fields_def opt_json_def
      missing_field_def text_of_def u32_of_def opt_text_of_def u32_back)

section \<open>Bodies on the wire\<close>

text \<open>The body of a reply as JSON, unless it is empty or plain text.\<close>

fun body_json :: "body \<Rightarrow> json option" where
  "body_json NoBody = None"
| "body_json (TextBody _) = None"
| "body_json (AddressBody a) = Some (JObj [(''address'', JStr a)])"
| "body_json (ErrorBody e) = Some (JObj [(''error'', JStr e)])"
| "body_json (MismatchBody derived got) = Some (JObj
     [(''error'', JStr (''forward_addr does not match derivation from dest_domain/dest_recipient/token_id/'' @
        ''custom_hook_id/custom_hook_metadata'')),
      (''expected'', JStr derived), (''got'', JStr got)])"
| "body_json (RequestBody r) = Some (request_json r)"
| "body_json (RequestsBody rs) = Some (JArr (map request_json rs))"

definition json_listing :: "json \<Rightarrow> forwarding_request list result" where
  "json_listing j =
     (case j of
        JArr xs \<Rightarrow> collect_results (map json_request xs)
      | _ \<Rightarrow> map_sum id (\<lambda>_. []) (invalid_type j ''a sequence''))"

text \<open>The relayer's side of a listing.\<close>

definition fetch_over_json :: "response option \<Rightarrow> forwarding_request list result" where
  "fetch_over_json reply =
     (case reply of
        None \<Rightarrow> Inl ''Failed to fetch forwarding requests from backend''
      | Some (code, body) \<Rightarrow>
          if \<not> is_success code then Inl (''Backend returned error: '' @ decimal code)
          else with_context ''Failed to parse forwarding requests''
                 (case body_json body of
                    Some j \<Rightarrow> json_listing j
                  | None \<Rightarrow> Inl ''expected value''))"

text \<open>
  The backend's side of a creation: the handler runs only on a body that axum's \<^verbatim>\<open>Json\<close> could
  decode, \<open>reject\<close> is its answer to another.
\<close>

definition post_json ::
  "(string \<Rightarrow> response) \<Rightarrow> crypto \<Rightarrow> chrono \<Rightarrow> int \<Rightarrow> int \<Rightarrow> json \<Rightarrow> backend_state \<Rightarrow> response \<times> backend_state" where
  "post_json reject cr ch now now' j s =
     (case json_create j of
        Inl e \<Rightarrow> (reject e, s)
      | Inr create_req \<Rightarrow> serve cr ch now now' (PostForwardingRequests create_req) s)"

lemma collect_results_Inr: "collect_results (map (\<lambda>x. Inr (f x)) xs) = Inr (map f xs)"
  by (induction xs) simp_all

lemma fetch_over_json_eq: "fetch_over_json reply = fetch_forwarding_requests reply"
proof (cases reply)
  case (Some cb)
  obtain code body where cb: "cb = (code, body)" by (cases cb)
  have "json_listing (JArr (map request_json rs)) = Inr rs" for rs
    using collect_results_Inr [of id rs] by (simp add: json_listing_def comp_def)
  then show ?thesis
    by (cases body)
      (auto simp: Some cb fetch_over_json_def fetch_forwarding_requests_def with_context_def json_listing_def
        invalid_type_def request_json_def)
qed (simp add: fetch_over_json_def fetch_forwarding_requests_def)

section \<open>What is accepted\<close>

lemma visit_map_known:
  assumes "distinct (map fst es)" and "fst ` set es \<inter> fst ` set seen = {}"
    and "\<forall>(k, v) \<in> set es. \<forall>ft. map_of spec k = Some ft \<longrightarrow> check_field ft v = Inr ()"
  shows "visit_map spec es seen = Inr (rev (hm_retain (\<lambda>k. map_of spec k \<noteq> None) es) @ seen)"
  using assms
proof (induction es arbitrary: seen)
  case Nil
  then show ?case by (simp add: hm_retain_def)
next
  case (Cons e es)
  obtain k v where e: "e = (k, v)" by (cases e)
  show ?case
  proof (cases "map_of spec k")
    case None
    with Cons show ?thesis by (simp add: e hm_retain_def)
  next
    case (Some ft)
    with Cons.prems have "check_field ft v = Inr ()" "k \<notin> fst ` set seen"
      by (auto simp: e)
    with Some Cons.IH [of "(k, v) # seen"] Cons.prems show ?thesis
      by (auto simp: e hm_retain_def)
  qed
qed

lemma map_of_rev_distinct: "distinct (map fst es) \<Longrightarrow> map_of (rev es) = map_of es"
  by (simp add: map_of_inject_set rev_map [symmetric])

lemma struct_object:
  assumes "distinct (map fst es)"
    and "\<forall>(k, v) \<in> set es. \<forall>ft. map_of spec k = Some ft \<longrightarrow> check_field ft v = Inr ()"
    and "\<forall>(k, ft) \<in> set spec. ft \<noteq> OptText \<longrightarrow> map_of es k \<noteq> None"
  obtains fs where "struct_fields name spec (JObj es) = Inr fs"
    and "\<And>k. k \<in> fst ` set spec \<Longrightarrow> map_of fs k = map_of es k"
proof
  let ?keep = "hm_retain (\<lambda>k. map_of spec k \<noteq> None) es" and ?fs = "rev (hm_retain (\<lambda>k. map_of spec k \<noteq> None) es)"
  have "distinct (map fst ?keep)"
    using assms(1) by (simp add: hm_retain_def distinct_map_filter)
  then have "map_of ?fs = map_of ?keep" by (rule map_of_rev_distinct)
  then show same: "map_of ?fs k = map_of es k" if "k \<in> fst ` set spec" for k
    using that by (simp add: map_of_eq_None_iff)
  have "missing_field spec ?fs = None"
  proof -
    have "k \<in> fst ` set ?fs" if kft: "(k, ft) \<in> set spec" "ft \<noteq> OptText" for k ft
    proof -
      from kft have "k \<in> fst ` set spec" by force
      then have "map_of ?fs k = map_of es k" by (rule same)
      moreover from assms(3) kft have "map_of es k \<noteq> None" by auto
      ultimately have "map_of ?fs k \<noteq> None" by (simp only:) simp
      then show ?thesis by (simp only: map_of_eq_None_iff) simp
    qed
    then show ?thesis by (auto simp: missing_field_def find_None_iff)
  qed
  then show "struct_fields name spec (JObj es) = Inr ?fs"
    using visit_map_known [OF assms(1) _ assms(2), of "[]"] by (simp add: struct_fields_def)
qed

text \<open>What an optional text may be written as.\<close>

definition written :: "string option \<Rightarrow> json option \<Rightarrow> bool" where
  "written s j \<longleftrightarrow> j = Some (opt_json s) \<or> (s = None \<and> j = None)"

text \<open>C34: nothing is lost or misread between the programs. Whatever the backend answers, the relayer
  reads from the JSON of a listing the requests the handler listed, and takes any other
  answer for the error it is. A creation reaches the handler with the fields it was written
  with, in whatever order they come, whatever other fields come with them, and whether a
  hook that is not there is omitted or null.\<close>

theorem requests_cross_json:
  assumes "distinct (map fst es)"
    and "map_of es ''forward_addr'' = Some (JStr (c_forward_addr r))"
    and "map_of es ''dest_domain'' = Some (JInt (uint (c_dest_domain r)))"
    and "map_of es ''dest_recipient'' = Some (JStr (c_dest_recipient r))"
    and "map_of es ''token_id'' = Some (JStr (c_token_id r))"
    and "written (c_custom_hook_id r) (map_of es ''custom_hook_id'')"
    and "written (c_custom_hook_metadata r) (map_of es ''custom_hook_metadata'')"
  shows "fetch_over_json reply = fetch_forwarding_requests reply
    \<and> post_json reject cr ch now now' (JObj es) s = serve cr ch now now' (PostForwardingRequests r) s"
proof -
  have entry: "map_of es k = Some v" if "(k, v) \<in> set es" for k v
    using assms(1) that by simp
  have "\<forall>(k, v) \<in> set es. \<forall>ft. map_of create_fields k = Some ft \<longrightarrow> check_field ft v = Inr ()"
    using assms(2-7)
    by (auto simp: create_fields_def written_def opt_json_def u32_back dest!: entry split: if_splits option.splits)
  moreover have "\<forall>(k, ft) \<in> set create_fields. ft \<noteq> OptText \<longrightarrow> map_of es k \<noteq> None"
    using assms(2-5) by (simp add: create_fields_def)
  ultimately obtain fs where fs: "struct_fields ''CreateForwardingRequest'' create_fields (JObj es) = Inr fs"
    and same: "\<And>k. k \<in> fst ` set create_fields \<Longrightarrow> map_of fs k = map_of es k"
    using struct_object [OF assms(1), of create_fields] by blast
  have keys: "map_of fs k = map_of es k"
    if "k \<in> {''forward_addr'', ''dest_domain'', ''dest_recipient'', ''token_id'', ''custom_hook_id'', ''custom_hook_metadata''}" for k
    using that by (intro same) (auto simp: create_fields_def)
  have hook: "opt_text_of fs ''custom_hook_id'' = c_custom_hook_id r"
    using assms(6) keys [of "''custom_hook_id''"]
    by (cases "c_custom_hook_id r") (auto simp: opt_text_of_def written_def opt_json_def)
  have metadata: "opt_text_of fs ''custom_hook_metadata'' = c_custom_hook_metadata r"
    using assms(7) keys [of "''custom_hook_metadata''"]
    by (cases "c_custom_hook_metadata r") (auto simp: opt_text_of_def written_def opt_json_def)
  have "json_create (JObj es) = Inr r"
    by (simp add: json_create_def fs hook metadata text_of_def u32_of_def keys assms(2-5) u32_back)
  then show ?thesis by (simp add: fetch_over_json_eq post_json_def)
qed

theorem requests_cross_json_witness:
  "fst (post_json (\<lambda>e. (422, TextBody e)) example_crypto tally_chrono 1 2
     (JObj [(''token_id'', JStr (c_token_id example_post)), (''note'', JNull), (''dest_domain'', JInt 7),
        (''dest_recipient'', JStr (c_dest_recipient example_post)), (''custom_hook_id'', JNull),
        (''forward_addr'', JStr (c_forward_addr example_post))]) example_backend)
   = (201, RequestBody (request_of example_post ''|''))"
proof -
  let ?es = "[(''token_id'', JStr (c_token_id example_post)), (''note'', JNull), (''dest_domain'', JInt 7),
        (''dest_recipient'', JStr (c_dest_recipient example_post)), (''custom_hook_id'', JNull),
        (''forward_addr'', JStr (c_forward_addr example_post))]"
  have "post_json (\<lambda>e. (422, TextBody e)) example_crypto tally_chrono 1 2 (JObj ?es) example_backend
      = serve example_crypto tally_chrono 1 2 (PostForwardingRequests example_post) example_backend"
    by (rule requests_cross_json [THEN conjunct2])
      (simp_all add: written_def opt_json_def, simp_all add: example_post_def)
  then show ?thesis
    by (simp add: example_post_created) (simp add: tally_chrono_def)
qed

end
