(* ===== verification/Config.thy ===== *)
theory Config
  imports Program
begin

text \<open>
  The command line and the environment: the arguments \<^verbatim>\<open>src/lib.rs\<close>, \<^verbatim>\<open>src/relayer.rs\<close> and
  \<^verbatim>\<open>src/backend.rs\<close> declare with \<^verbatim>\<open>#[arg(..)]\<close>, the typed configuration made of their values, and
  \<^verbatim>\<open>main\<close>. The \<^verbatim>\<open>clap\<close> library is a parameter.
\<close>

section \<open>The declared arguments\<close>

text \<open>
  A field without \<^verbatim>\<open>Option\<close> and without a default is required. The long name \<^verbatim>\<open>#[arg(long)]\<close> gives an
  argument is the name of its field in kebab case.
\<close>

datatype presence = Required | Default string | Optional

record arg =
  arg_field :: string
  arg_env :: "string option"
  arg_presence :: presence

definition kebab :: "string \<Rightarrow> string" where
  "kebab = map (\<lambda>c. if c = CHR ''_'' then CHR ''-'' else c)"

definition long_name :: "arg \<Rightarrow> string" where
  "long_name a = kebab (arg_field a)"

definition env_arg :: "string \<Rightarrow> string \<Rightarrow> presence \<Rightarrow> arg" where
  "env_arg field var pr = \<lparr>arg_field = field, arg_env = Some var, arg_presence = pr\<rparr>"

definition plain_arg :: "string \<Rightarrow> presence \<Rightarrow> arg" where
  "plain_arg field pr = \<lparr>arg_field = field, arg_env = None, arg_presence = pr\<rparr>"

definition relayer_args :: "arg list" where
  "relayer_args =
     [env_arg ''celestia_grpc'' ''CELESTIA_GRPC'' (Default ''http://localhost:9090''),
      env_arg ''celestia_rpc'' ''CELESTIA_RPC'' (Default ''http://localhost:26657''),
      env_arg ''backend_url'' ''BACKEND_URL'' (Default ''http://localhost:8080''),
      env_arg ''private_key_hex'' ''PRIVATE_KEY_HEX'' Required,
      env_arg ''custom_igp_hook'' ''CUSTOM_IGP_HOOK'' Optional,
      env_arg ''poll_interval'' ''POLL_INTERVAL'' (Default ''6''),
      env_arg ''maintenance_interval'' ''MAINTENANCE_INTERVAL'' (Default ''30''),
      env_arg ''balance_poll_interval'' ''BALANCE_POLL_INTERVAL'' (Default ''3600''),
      env_arg ''forward_concurrency'' ''FORWARD_CONCURRENCY'' (Default ''64''),
      env_arg ''block_scan_start_height'' ''BLOCK_SCAN_START_HEIGHT'' Optional,
      env_arg ''block_confirmation_depth'' ''BLOCK_CONFIRMATION_DEPTH'' (Default ''2''),
      env_arg ''scan_timeout'' ''SCAN_TIMEOUT'' (Default ''1800''),
      env_arg ''igp_fee_buffer'' ''IGP_FEE_BUFFER'' (Default ''1.1''),
      env_arg ''max_request_age_seconds'' ''MAX_REQUEST_AGE_SECONDS'' (Default ''86400''),
      env_arg ''max_address_inactivity_seconds'' ''MAX_ADDRESS_INACTIVITY_SECONDS'' (Default ''604800''),
      env_arg ''retry_state_db_path'' ''RETRY_STATE_DB_PATH'' (Default ''storage/relayer-retry.db''),
      env_arg ''metrics_port'' ''RELAYER_METRICS_PORT'' Optional]"

definition backend_args :: "arg list" where
  "backend_args =
     [env_arg ''port'' ''PORT'' (Default ''8080''),
      env_arg ''db_path'' ''DB_PATH'' (Default ''storage/backend.db''),
      env_arg ''metrics_port'' ''BACKEND_METRICS_PORT'' Optional]"

definition derive_address_args :: "arg list" where
  "derive_address_args =
     [plain_arg ''dest_domain'' Required, plain_arg ''dest_recipient'' Required,
      plain_arg ''token_id'' Required, plain_arg ''custom_hook_id'' Optional,
      plain_arg ''custom_hook_metadata'' Optional]"

definition derive_private_key_args :: "arg list" where
  "derive_private_key_args = [plain_arg ''mnemonic'' Required]"

text \<open>The variants of \<^verbatim>\<open>Command\<close>, a subcommand each, named in kebab case.\<close>

definition subcommands :: "(string \<times> arg list) list" where
  "subcommands = [(''relayer'', relayer_args), (''backend'', backend_args),
     (''derive-address'', derive_address_args), (''derive-private-key'', derive_private_key_args)]"

section \<open>The library\<close>

text \<open>
  What clap does for the program: from the arguments of each subcommand, \<^verbatim>\<open>argv\<close> and the environment it
  makes out the subcommand and the text of each field that has a value, or exits with an error; and it
  reads texts as integers and paths. \<^verbatim>\<open>usize\<close> and \<^verbatim>\<open>f64\<close> it reads with \<^verbatim>\<open>FromStr\<close>.
\<close>

type_synonym environment = "string \<Rightarrow> string option"

type_synonym arg_matches = "string \<Rightarrow> string option"

record clap =
  get_matches :: "(string \<times> arg list) list \<Rightarrow> string list \<Rightarrow> environment \<Rightarrow> (string \<times> arg_matches) result"
  value_u16 :: "string \<Rightarrow> u16 result"
  value_u32 :: "string \<Rightarrow> u32 result"
  value_u64 :: "string \<Rightarrow> u64 result"
  value_path :: "string \<Rightarrow> string result"

text \<open>
  Its documentation: a value on the command line comes before the environment variable, and that
  before the default; a required argument without a value is an error.
\<close>

definition flags :: "(string \<times> string) list \<Rightarrow> string list" where
  "flags given = concat (map (\<lambda>(n, v). [''--'' @ n, v]) given)"

definition from_env :: "environment \<Rightarrow> arg \<Rightarrow> string option" where
  "from_env env a = Option.bind (arg_env a) env"

fun default_of :: "presence \<Rightarrow> string option" where
  "default_of (Default d) = Some d"
| "default_of Required = None"
| "default_of Optional = None"

definition effective :: "(string \<times> string) list \<Rightarrow> environment \<Rightarrow> arg \<Rightarrow> string option" where
  "effective given env a =
     (case map_of given (long_name a) of
        Some v \<Rightarrow> Some v
      | None \<Rightarrow> (case from_env env a of Some v \<Rightarrow> Some v | None \<Rightarrow> default_of (arg_presence a)))"

definition plain_value :: "string \<Rightarrow> bool" where
  "plain_value v \<longleftrightarrow> (case v of [] \<Rightarrow> True | c # _ \<Rightarrow> c \<noteq> CHR ''-'')"

definition well_given :: "arg list \<Rightarrow> (string \<times> string) list \<Rightarrow> bool" where
  "well_given args given \<longleftrightarrow>
     distinct (map fst given) \<and> (\<forall>(n, v) \<in> set given. n \<in> long_name ` set args \<and> plain_value v)"

definition required_given :: "arg list \<Rightarrow> (string \<times> string) list \<Rightarrow> environment \<Rightarrow> bool" where
  "required_given args given env \<longleftrightarrow> (\<forall>a \<in> set args. arg_presence a = Required \<longrightarrow> effective given env a \<noteq> None)"

definition reads_decimal :: "(string \<Rightarrow> 'a::len word result) \<Rightarrow> bool" where
  "reads_decimal p \<longleftrightarrow> (\<forall>n. if n < 2 ^ LENGTH('a) then p (decimal n) = Inr (of_nat n) else \<exists>e. p (decimal n) = Inl e)"

definition clap_documented :: "clap \<Rightarrow> bool" where
  "clap_documented c \<longleftrightarrow>
     (\<forall>prog sub args given env. map_of subcommands sub = Some args \<longrightarrow> well_given args given \<longrightarrow>
        (if required_given args given env
         then \<exists>m. get_matches c subcommands (prog # sub # flags given) env = Inr (sub, m)
           \<and> (\<forall>a \<in> set args. m (arg_field a) = effective given env a)
         else \<exists>e. get_matches c subcommands (prog # sub # flags given) env = Inl e))
     \<and> reads_decimal (value_u16 c) \<and> reads_decimal (value_u32 c) \<and> reads_decimal (value_u64 c)
     \<and> (\<forall>p. p \<noteq> [] \<longrightarrow> value_path c p = Inr p)"

section \<open>Typed configurations\<close>

text \<open>\<^verbatim>\<open>from_str\<close> of the unsigned integers of \<open>w\<close> bits; \<^verbatim>\<open>usize\<close> has 64.\<close>

definition uint_from_str :: "nat \<Rightarrow> string \<Rightarrow> nat result" where
  "uint_from_str w s =
     (let ds = (case s of c # r \<Rightarrow> if c = CHR ''+'' then r else s | [] \<Rightarrow> []) in
      if ds \<noteq> [] \<and> (\<forall>d \<in> set ds. is_digit d)
      then (let n = nat (digits_value ds) in
            if n < 2 ^ w then Inr n else Inl ''number too large to fit in target type'')
      else Inl (if s = [] then ''cannot parse integer from empty string'' else ''invalid digit found in string''))"

abbreviation usize_from_str :: "string \<Rightarrow> nat result" where
  "usize_from_str \<equiv> uint_from_str 64"

definition f64_from_str :: "string \<Rightarrow> f64 result" where
  "f64_from_str s =
     (case f64_parse s of
        Some x \<Rightarrow> Inr x
      | None \<Rightarrow> Inl (if s = [] then ''cannot parse float from empty string'' else ''invalid float literal''))"

definition bind_result :: "'a result \<Rightarrow> ('a \<Rightarrow> 'b result) \<Rightarrow> 'b result" where
  "bind_result r f = (case r of Inl e \<Rightarrow> Inl e | Inr a \<Rightarrow> f a)"

definition given_field :: "arg_matches \<Rightarrow> (string \<Rightarrow> 'a result) \<Rightarrow> string \<Rightarrow> 'a result" where
  "given_field m p f = (case m f of None \<Rightarrow> Inl (''missing argument '' @ f) | Some v \<Rightarrow> p v)"

definition optional_field :: "arg_matches \<Rightarrow> (string \<Rightarrow> 'a result) \<Rightarrow> string \<Rightarrow> 'a option result" where
  "optional_field m p f = (case m f of None \<Rightarrow> Inr None | Some v \<Rightarrow> map_sum id Some (p v))"

definition relayer_from_matches :: "clap \<Rightarrow> arg_matches \<Rightarrow> relayer_config result" where
  "relayer_from_matches c m =
     bind_result (given_field m Inr ''celestia_grpc'') (\<lambda>grpc.
     bind_result (given_field m Inr ''celestia_rpc'') (\<lambda>rpc.
     bind_result (given_field m Inr ''backend_url'') (\<lambda>url.
     bind_result (given_field m Inr ''private_key_hex'') (\<lambda>key.
     bind_result (optional_field m Inr ''custom_igp_hook'') (\<lambda>hook.
     bind_result (given_field m (value_u64 c) ''poll_interval'') (\<lambda>poll.
     bind_result (given_field m (value_u64 c) ''maintenance_interval'') (\<lambda>maint.
     bind_result (given_field m (value_u64 c) ''balance_poll_interval'') (\<lambda>bal.
     bind_result (given_field m usize_from_str ''forward_concurrency'') (\<lambda>conc.
     bind_result (optional_field m (value_u64 c) ''block_scan_start_height'') (\<lambda>start.
     bind_result (given_field m (value_u64 c) ''block_confirmation_depth'') (\<lambda>depth.
     bind_result (given_field m (value_u64 c) ''scan_timeout'') (\<lambda>timeout.
     bind_result (given_field m f64_from_str ''igp_fee_buffer'') (\<lambda>buffer.
     bind_result (given_field m (value_u64 c) ''max_request_age_seconds'') (\<lambda>age.
     bind_result (given_field m (value_u64 c) ''max_address_inactivity_seconds'') (\<lambda>idle.
     bind_result (given_field m (value_path c) ''retry_state_db_path'') (\<lambda>path.
     bind_result (optional_field m (value_u16 c) ''metrics_port'') (\<lambda>mport.
       Inr \<lparr>celestia_grpc = grpc, celestia_rpc = rpc, backend_url = url, private_key_hex = key,
            custom_igp_hook = hook, poll_interval = poll, maintenance_interval = maint,
            balance_poll_interval = bal, forward_concurrency = conc, block_scan_start_height = start,
            block_confirmation_depth = depth, scan_timeout = timeout, igp_fee_buffer = buffer,
            max_request_age_seconds = age, max_address_inactivity_seconds = idle,
            retry_state_db_path = path, metrics_port = mport\<rparr>)))))))))))))))))"

definition backend_from_matches :: "clap \<Rightarrow> arg_matches \<Rightarrow> backend_config result" where
  "backend_from_matches c m =
     bind_result (given_field m (value_u16 c) ''port'') (\<lambda>p.
     bind_result (given_field m (value_path c) ''db_path'') (\<lambda>path.
     bind_result (optional_field m (value_u16 c) ''metrics_port'') (\<lambda>mport.
       Inr \<lparr>backend_port = p, db_path = path, backend_metrics_port = mport\<rparr>)))"

definition command_from_matches :: "clap \<Rightarrow> string \<Rightarrow> arg_matches \<Rightarrow> command result" where
  "command_from_matches c sub m =
     (if sub = ''relayer'' then map_sum id RelayerCommand (relayer_from_matches c m)
      else if sub = ''backend'' then map_sum id BackendCommand (backend_from_matches c m)
      else if sub = ''derive-address'' then
        bind_result (given_field m (value_u32 c) ''dest_domain'') (\<lambda>dest.
        bind_result (given_field m Inr ''dest_recipient'') (\<lambda>recip.
        bind_result (given_field m Inr ''token_id'') (\<lambda>token.
        bind_result (optional_field m Inr ''custom_hook_id'') (\<lambda>hook.
        bind_result (optional_field m Inr ''custom_hook_metadata'') (\<lambda>meta.
          Inr (DeriveAddress dest recip token hook meta))))))
      else if sub = ''derive-private-key'' then
        bind_result (given_field m Inr ''mnemonic'') (\<lambda>words. Inr (DerivePrivateKey words))
      else Inl (''unrecognized subcommand '' @ sub))"

definition parse_cli :: "clap \<Rightarrow> string list \<Rightarrow> environment \<Rightarrow> command result" where
  "parse_cli c argv env =
     bind_result (get_matches c subcommands argv env) (\<lambda>(sub, m). command_from_matches c sub m)"

text \<open>\<^verbatim>\<open>main\<close>: an error of the command line exits before anything is started.\<close>

definition main_program ::
  "clap \<Rightarrow> ('key, 'mnemonic, 'path) host \<Rightarrow> int \<Rightarrow> string list \<Rightarrow> environment \<Rightarrow> (metrics_process, outcome) io" where
  "main_program c h now argv env m =
     (case parse_cli c argv env of Inl e \<Rightarrow> (Inl e, m) | Inr cmd \<Rightarrow> run_command h now cmd m)"

section \<open>Facts about the arguments\<close>

lemma bind_result_simps [simp]:
  "bind_result (Inl e) f = Inl e"
  "bind_result (Inr a) f = f a"
  by (simp_all add: bind_result_def)

lemma bind_result_Inr_iff: "bind_result r f = Inr b \<longleftrightarrow> (\<exists>a. r = Inr a \<and> f a = Inr b)"
  by (cases r) simp_all

lemma bind_result_fails: "\<forall>a. \<exists>e. f a = Inl e \<Longrightarrow> \<exists>e. bind_result r f = Inl e"
  by (cases r) simp_all

lemma given_field_Some [simp]: "m f = Some v \<Longrightarrow> given_field m p f = p v"
  by (simp add: given_field_def)

lemma optional_field_simps [simp]:
  "m f = None \<Longrightarrow> optional_field m p f = Inr None"
  "m f = Some v \<Longrightarrow> optional_field m p f = map_sum id Some (p v)"
  by (simp_all add: optional_field_def)

lemma reads_decimal_word:
  assumes "reads_decimal p"
  shows "p (decimal (unat x)) = Inr x"
  using assms [unfolded reads_decimal_def, rule_format, of "unat x"] by simp

lemma reads_decimal_large:
  fixes p :: "string \<Rightarrow> 'a::len word result"
  assumes "reads_decimal p" and "2 ^ LENGTH('a) \<le> n"
  shows "\<exists>e. p (decimal n) = Inl e"
  using assms(1) [unfolded reads_decimal_def, rule_format, of n] assms(2) by (simp split: if_splits)

lemma hd_decimal: "\<exists>c r. decimal n = c # r \<and> is_digit c"
  using decimal_digits [of n] decimal_nonempty [of n] by (cases "decimal n") auto

lemma plain_value_decimal [simp]: "plain_value (decimal n)"
  using hd_decimal [of n] by (auto simp: plain_value_def is_digit_def)

lemma uint_from_str_decimal:
  "uint_from_str w (decimal n)
     = (if n < 2 ^ w then Inr n else Inl ''number too large to fit in target type'')"
proof -
  obtain c r where d: "decimal n = c # r" "is_digit c" using hd_decimal by blast
  then have "c \<noteq> CHR ''+''" by (auto simp: is_digit_def)
  with d decimal_digits [of n] digits_value_decimal [of n] show ?thesis
    by (simp add: uint_from_str_def)
qed

lemma distinct_long_names:
  "map_of subcommands sub = Some args \<Longrightarrow> distinct (map long_name args)"
proof -
  have "list_all (\<lambda>(n, args). distinct (map long_name args)) subcommands" by code_simp
  moreover assume "map_of subcommands sub = Some args"
  ultimately show ?thesis by (auto simp: list_all_iff dest!: map_of_SomeD)
qed

section \<open>Writing a command out\<close>

lemma digit_chars:
  "digit_char 0 = CHR ''0''" "digit_char (Suc 0) = CHR ''1''" "digit_char 1 = CHR ''1''"
  "digit_char 2 = CHR ''2''" "digit_char 3 = CHR ''3''" "digit_char 4 = CHR ''4''" "digit_char 5 = CHR ''5''"
  "digit_char 6 = CHR ''6''" "digit_char 7 = CHR ''7''" "digit_char 8 = CHR ''8''" "digit_char 9 = CHR ''9''"
  by code_simp+

lemmas decimal_numeral = decimal.simps digit_chars

text \<open>
  The text of every argument of a command, \<open>None\<close> where it is left out. \<open>fee\<close> is a text of the fee
  buffer, as a number has many.
\<close>

definition word_text :: "'a::len word \<Rightarrow> string" where
  "word_text x = decimal (unat x)"

lemma reads_word_text: "reads_decimal p \<Longrightarrow> p (word_text x) = Inr x"
  by (simp add: word_text_def reads_decimal_word)

lemma optional_text: "m f = opt \<Longrightarrow> optional_field m Inr f = Inr opt"
  by (cases opt) simp_all

lemma optional_word:
  "reads_decimal p \<Longrightarrow> m f = map_option word_text opt \<Longrightarrow> optional_field m p f = Inr opt"
  by (cases opt) (simp_all add: reads_word_text)

fun settings :: "string \<Rightarrow> command \<Rightarrow> (string \<times> string option) list" where
  "settings fee (RelayerCommand conf) =
     [(''celestia_grpc'', Some (celestia_grpc conf)),
      (''celestia_rpc'', Some (celestia_rpc conf)),
      (''backend_url'', Some (backend_url conf)),
      (''private_key_hex'', Some (private_key_hex conf)),
      (''custom_igp_hook'', custom_igp_hook conf),
      (''poll_interval'', Some (word_text (poll_interval conf))),
      (''maintenance_interval'', Some (word_text (maintenance_interval conf))),
      (''balance_poll_interval'', Some (word_text (balance_poll_interval conf))),
      (''forward_concurrency'', Some (decimal (forward_concurrency conf))),
      (''block_scan_start_height'', map_option word_text (block_scan_start_height conf)),
      (''block_confirmation_depth'', Some (word_text (block_confirmation_depth conf))),
      (''scan_timeout'', Some (word_text (scan_timeout conf))),
      (''igp_fee_buffer'', Some fee),
      (''max_request_age_seconds'', Some (word_text (max_request_age_seconds conf))),
      (''max_address_inactivity_seconds'', Some (word_text (max_address_inactivity_seconds conf))),
      (''retry_state_db_path'', Some (retry_state_db_path conf)),
      (''metrics_port'', map_option word_text (metrics_port conf))]"
| "settings fee (BackendCommand conf) =
     [(''port'', Some (word_text (backend_port conf))),
      (''db_path'', Some (db_path conf)),
      (''metrics_port'', map_option word_text (backend_metrics_port conf))]"
| "settings fee (DeriveAddress dest recip token hook meta) =
     [(''dest_domain'', Some (word_text dest)), (''dest_recipient'', Some recip), (''token_id'', Some token),
      (''custom_hook_id'', hook), (''custom_hook_metadata'', meta)]"
| "settings fee (DerivePrivateKey words) = [(''mnemonic'', Some words)]"

fun command_name :: "command \<Rightarrow> string" where
  "command_name (RelayerCommand _) = ''relayer''"
| "command_name (BackendCommand _) = ''backend''"
| "command_name (DeriveAddress _ _ _ _ _) = ''derive-address''"
| "command_name (DerivePrivateKey _) = ''derive-private-key''"

fun command_args :: "command \<Rightarrow> arg list" where
  "command_args (RelayerCommand _) = relayer_args"
| "command_args (BackendCommand _) = backend_args"
| "command_args (DeriveAddress _ _ _ _ _) = derive_address_args"
| "command_args (DerivePrivateKey _) = derive_private_key_args"

fun writable :: "string \<Rightarrow> command \<Rightarrow> bool" where
  "writable fee (RelayerCommand conf) \<longleftrightarrow>
     f64_parse fee = Some (igp_fee_buffer conf) \<and> forward_concurrency conf < 2 ^ 64 \<and> retry_state_db_path conf \<noteq> []"
| "writable fee (BackendCommand conf) \<longleftrightarrow> db_path conf \<noteq> []"
| "writable fee _ \<longleftrightarrow> True"

text \<open>
  The fields of \<open>S\<close> are given on the command line, the others in the environment, or nowhere if they
  have their default. The environment may also set a field of \<open>S\<close>, to anything.
\<close>

definition on_line :: "string set \<Rightarrow> (string \<times> string option) list \<Rightarrow> (string \<times> string) list" where
  "on_line S st = [(kebab f, the v). (f, v) \<leftarrow> st, f \<in> S \<and> v \<noteq> None]"

definition supplied :: "string set \<Rightarrow> environment \<Rightarrow> arg \<Rightarrow> string option \<Rightarrow> bool" where
  "supplied S env a v \<longleftrightarrow>
     (case v of
        Some t \<Rightarrow> if arg_field a \<in> S then plain_value t
                  else from_env env a = Some t \<or> from_env env a = None \<and> arg_presence a = Default t
      | None \<Rightarrow> from_env env a = None \<and> arg_presence a = Optional)"

definition arg_texts :: "string \<Rightarrow> command \<Rightarrow> (arg \<times> string option) list" where
  "arg_texts fee cmd = zip (command_args cmd) (map snd (settings fee cmd))"

definition command_line :: "string \<Rightarrow> string set \<Rightarrow> string \<Rightarrow> command \<Rightarrow> string list" where
  "command_line prog S fee cmd = prog # command_name cmd # flags (on_line S (settings fee cmd))"

lemma subcommand_args: "map_of subcommands (command_name cmd) = Some (command_args cmd)"
  by (cases cmd) (simp_all add: subcommands_def)

lemma settings_fields: "map fst (settings fee cmd) = map arg_field (command_args cmd)"
  by (cases cmd) (simp_all add: relayer_args_def backend_args_def derive_address_args_def
      derive_private_key_args_def env_arg_def plain_arg_def)

lemma zip_keys: "map fst st = map g xs \<Longrightarrow> map (\<lambda>(x, v). (g x, v)) (zip xs (map snd st)) = st"
proof (induction st arbitrary: xs)
  case (Cons p st)
  then obtain x xs' where "xs = x # xs'" by (cases xs) auto
  with Cons show ?case by (cases p) simp
qed simp

lemma arg_texts_settings:
  "settings fee cmd = map (\<lambda>(a, v). (arg_field a, v)) (arg_texts fee cmd)"
  "map fst (arg_texts fee cmd) = command_args cmd"
  using zip_keys [OF settings_fields] map_eq_imp_length_eq [OF settings_fields]
  by (simp_all add: arg_texts_def)

lemma long_names_settings: "map (kebab \<circ> fst) (settings fee cmd) = map long_name (command_args cmd)"
proof -
  have "map (kebab \<circ> fst) (settings fee cmd) = map kebab (map fst (settings fee cmd))" by simp
  also have "\<dots> = map long_name (command_args cmd)" by (simp add: settings_fields long_name_def)
  finally show ?thesis .
qed

lemma on_line_simps [simp]:
  "on_line S [] = []"
  "on_line S ((f, v) # st) = (if f \<in> S \<and> v \<noteq> None then [(kebab f, the v)] else []) @ on_line S st"
  by (simp_all add: on_line_def)

lemma on_line_keys: "k \<notin> set (map (kebab \<circ> fst) st) \<Longrightarrow> k \<notin> set (map fst (on_line S st))"
  by (induction st) auto

lemma on_line_lookup:
  "distinct (map (kebab \<circ> fst) st) \<Longrightarrow> (f, v) \<in> set st
     \<Longrightarrow> map_of (on_line S st) (kebab f) = (if f \<in> S then v else None)"
proof (induction st)
  case (Cons x st)
  obtain g w where x: "x = (g, w)" by fastforce
  with Cons.prems(1) have fresh: "kebab g \<notin> set (map (kebab \<circ> fst) st)" by simp
  show ?case
  proof (cases "(f, v) = x")
    case True
    moreover have "map_of (on_line S st) (kebab g) = None"
      using on_line_keys [OF fresh, of S] by (simp add: map_of_eq_None_iff)
    ultimately show ?thesis by (auto simp: x)
  next
    case False
    with Cons.prems(2) have mem: "(f, v) \<in> set st" by simp
    then have "kebab f \<in> set (map (kebab \<circ> fst) st)" by force
    with fresh have "kebab f \<noteq> kebab g" by metis
    with Cons mem show ?thesis by (simp add: x map_add_def)
  qed
qed simp

lemma on_line_distinct:
  "distinct (map (kebab \<circ> fst) st) \<Longrightarrow> distinct (map fst (on_line S st))"
proof (induction st)
  case (Cons x st)
  then show ?case using on_line_keys [of _ st S] by (cases x) auto
qed simp

lemma effective_supplied:
  assumes "distinct (map (kebab \<circ> fst) st)" and "(arg_field a, v) \<in> set st" and "supplied S env a v"
  shows "effective (on_line S st) env a = v"
  using on_line_lookup [OF assms(1,2), of S] assms(3)
  by (auto simp: effective_def long_name_def supplied_def split: option.splits if_splits)

text \<open>What the program reads is what was written.\<close>

lemma command_reads_settings:
  assumes "reads_decimal (value_u16 c)" and "reads_decimal (value_u32 c)" and "reads_decimal (value_u64 c)"
    and "\<forall>p. p \<noteq> [] \<longrightarrow> value_path c p = Inr p" and "writable fee cmd"
    and "\<forall>(f, v) \<in> set (settings fee cmd). m f = v"
  shows "command_from_matches c (command_name cmd) m = Inr cmd"
proof -
  note words = assms(1-3) [THEN reads_word_text]
  note texts = optional_text optional_word [OF assms(1)] optional_word [OF assms(3)]
  show ?thesis
  proof (cases cmd)
    case (RelayerCommand conf)
    with assms(4-6) words show ?thesis
      by (simp add: command_from_matches_def relayer_from_matches_def texts
          uint_from_str_decimal f64_from_str_def)
  next
    case (BackendCommand conf)
    with assms(4-6) words show ?thesis
      by (simp add: command_from_matches_def backend_from_matches_def texts)
  next
    case (DeriveAddress dest recip token hook meta)
    with assms(6) words show ?thesis
      by (simp add: command_from_matches_def texts)
  next
    case (DerivePrivateKey ws)
    with assms(6) show ?thesis by (simp add: command_from_matches_def)
  qed
qed

section \<open>What the command line and the environment give\<close>

lemma clap_matches:
  assumes "clap_documented c" and "map_of subcommands sub = Some args" and "well_given args given"
  shows "if required_given args given env
    then \<exists>m. get_matches c subcommands (prog # sub # flags given) env = Inr (sub, m)
      \<and> (\<forall>a \<in> set args. m (arg_field a) = effective given env a)
    else \<exists>e. get_matches c subcommands (prog # sub # flags given) env = Inl e"
  using assms unfolding clap_documented_def by blast

lemma clap_values:
  assumes "clap_documented c"
  shows "reads_decimal (value_u16 c)" and "reads_decimal (value_u32 c)" and "reads_decimal (value_u64 c)"
    and "\<forall>p. p \<noteq> [] \<longrightarrow> value_path c p = Inr p"
  using assms unfolding clap_documented_def by blast+

lemma arg_texts_arg: "(a, v) \<in> set (arg_texts fee cmd) \<Longrightarrow> a \<in> set (command_args cmd)"
  using arg_texts_settings(2) [of fee cmd] by (metis fst_conv image_eqI list.set_map)

lemma distinct_settings: "distinct (map (kebab \<circ> fst) (settings fee cmd))"
  using distinct_long_names [OF subcommand_args] by (simp add: long_names_settings)

lemma on_line_well_given:
  assumes "\<forall>(a, v) \<in> set (arg_texts fee cmd). supplied S env a v"
  shows "well_given (command_args cmd) (on_line S (settings fee cmd))"
proof -
  have "n \<in> long_name ` set (command_args cmd) \<and> plain_value t"
    if "(n, t) \<in> set (on_line S (settings fee cmd))" for n t
  proof -
    from that obtain f where f: "(f, Some t) \<in> set (settings fee cmd)" "f \<in> S" "n = kebab f"
      by (auto simp: on_line_def)
    then obtain a where a: "(a, Some t) \<in> set (arg_texts fee cmd)" "arg_field a = f"
      unfolding arg_texts_settings(1) by auto
    with assms f(2) have "plain_value t" by (fastforce simp: supplied_def)
    with a f(3) arg_texts_arg [OF a(1)] show ?thesis by (auto simp: long_name_def)
  qed
  with on_line_distinct [OF distinct_settings] show ?thesis by (auto simp: well_given_def)
qed

lemma parse_written:
  assumes "clap_documented c" and "writable fee cmd"
    and "\<forall>(a, v) \<in> set (arg_texts fee cmd). supplied S env a v"
  shows "parse_cli c (command_line prog S fee cmd) env = Inr cmd"
proof -
  let ?st = "settings fee cmd" and ?args = "command_args cmd"
  let ?given = "on_line S ?st"
  have eff: "effective ?given env a = v" if "(a, v) \<in> set (arg_texts fee cmd)" for a v
  proof -
    have "(arg_field a, v) \<in> set ?st" using that unfolding arg_texts_settings(1) by force
    with effective_supplied [OF distinct_settings this] assms(3) that show ?thesis by fastforce
  qed
  have "effective ?given env a \<noteq> None" if "a \<in> set ?args" "arg_presence a = Required" for a
  proof -
    have "a \<in> fst ` set (arg_texts fee cmd)"
      using that(1) by (simp only: arg_texts_settings(2) [of fee, symmetric] list.set_map)
    then obtain v where v: "(a, v) \<in> set (arg_texts fee cmd)" by auto
    with assms(3) have "supplied S env a v" by blast
    with that(2) have "v \<noteq> None" by (auto simp: supplied_def split: option.splits)
    with eff [OF v] show ?thesis by simp
  qed
  with clap_matches [OF assms(1) subcommand_args on_line_well_given [OF assms(3)], of env prog]
  obtain m where m: "get_matches c subcommands (command_line prog S fee cmd) env = Inr (command_name cmd, m)"
    "\<forall>a \<in> set ?args. m (arg_field a) = effective ?given env a"
    by (auto simp: command_line_def required_given_def)
  have "m f = v" if mem: "(f, v) \<in> set ?st" for f v
  proof -
    obtain a where a: "(a, v) \<in> set (arg_texts fee cmd)" "arg_field a = f"
      using mem unfolding arg_texts_settings(1) by auto
    with m(2) eff [OF a(1)] arg_texts_arg [OF a(1)] show ?thesis by auto
  qed
  then have "command_from_matches c (command_name cmd) m = Inr cmd"
    using command_reads_settings [OF clap_values [OF assms(1)] assms(2)] by blast
  with m(1) show ?thesis by (simp add: parse_cli_def)
qed

text \<open>
  The environment variable of a field: its name in upper case, the metrics port with the program
  in front, as the two programs may share an environment. The derivations read none.
\<close>

definition upper :: "string \<Rightarrow> string" where
  "upper = map (\<lambda>c. let n = (of_char c :: nat) in if 97 \<le> n \<and> n \<le> 122 then char_of (n - 32) else c)"

fun variable :: "command \<Rightarrow> string \<Rightarrow> string option" where
  "variable (RelayerCommand _) f = Some (if f = ''metrics_port'' then ''RELAYER_METRICS_PORT'' else upper f)"
| "variable (BackendCommand _) f = Some (if f = ''metrics_port'' then ''BACKEND_METRICS_PORT'' else upper f)"
| "variable _ f = None"

definition from_variable :: "environment \<Rightarrow> command \<Rightarrow> string \<Rightarrow> string option" where
  "from_variable env cmd f = Option.bind (variable cmd f) env"

definition given_either :: "string set \<Rightarrow> environment \<Rightarrow> command \<Rightarrow> string \<times> string option \<Rightarrow> bool" where
  "given_either S env cmd fv \<longleftrightarrow>
     (case fv of
        (f, Some t) \<Rightarrow> if f \<in> S then plain_value t else from_variable env cmd f = Some t
      | (f, None) \<Rightarrow> from_variable env cmd f = None)"

lemma variable_of_arg: "a \<in> set (command_args cmd) \<Longrightarrow> from_env env a = from_variable env cmd (arg_field a)"
proof -
  have relayer: "list_all (\<lambda>a. arg_env a = Some (if arg_field a = ''metrics_port'' then ''RELAYER_METRICS_PORT''
      else upper (arg_field a))) relayer_args"
    and backend: "list_all (\<lambda>a. arg_env a = Some (if arg_field a = ''metrics_port'' then ''BACKEND_METRICS_PORT''
      else upper (arg_field a))) backend_args"
    and derive: "list_all (\<lambda>a. arg_env a = None) (derive_address_args @ derive_private_key_args)"
    by code_simp+
  assume "a \<in> set (command_args cmd)"
  with relayer backend derive have "arg_env a = variable cmd (arg_field a)"
    unfolding list_all_iff by (cases cmd) auto
  then show ?thesis by (simp add: from_env_def from_variable_def)
qed

lemma left_out_optional: "(a, None) \<in> set (arg_texts fee cmd) \<Longrightarrow> arg_presence a = Optional"
  by (cases cmd) (auto simp: arg_texts_def relayer_args_def backend_args_def derive_address_args_def
      derive_private_key_args_def env_arg_def plain_arg_def)

lemma given_either_supplied:
  assumes "\<forall>fv \<in> set (settings fee cmd). given_either S env cmd fv"
  shows "\<forall>(a, v) \<in> set (arg_texts fee cmd). supplied S env a v"
proof clarify
  fix a v
  assume av: "(a, v) \<in> set (arg_texts fee cmd)"
  then have "(arg_field a, v) \<in> set (settings fee cmd)" unfolding arg_texts_settings(1) by force
  with assms have "given_either S env cmd (arg_field a, v)" by blast
  with variable_of_arg [OF arg_texts_arg [OF av], of env] left_out_optional [of a fee cmd] av
  show "supplied S env a v"
    by (cases v) (auto simp: given_either_def supplied_def)
qed

text \<open>Nothing else in the environment of a test sets an argument.\<close>

definition unset :: "environment \<Rightarrow> bool" where
  "unset env \<longleftrightarrow> (\<forall>a \<in> set (relayer_args @ backend_args). from_env env a = None)"

text \<open>What the relayer runs with when nothing but its key is given.\<close>

definition default_config :: "string \<Rightarrow> relayer_config" where
  "default_config key = \<lparr>celestia_grpc = ''http://localhost:9090'', celestia_rpc = ''http://localhost:26657'',
     backend_url = ''http://localhost:8080'', private_key_hex = key, custom_igp_hook = None,
     poll_interval = 6, maintenance_interval = 30, balance_poll_interval = 3600,
     forward_concurrency = 64, block_scan_start_height = None, block_confirmation_depth = 2,
     scan_timeout = 1800, igp_fee_buffer = Finite 4953959590107546 (- 52),
     max_request_age_seconds = 86400, max_address_inactivity_seconds = 604800,
     retry_state_db_path = ''storage/relayer-retry.db'', metrics_port = None\<rparr>"

lemma default_buffer: "f64_parse ''1.1'' = Some (Finite 4953959590107546 (- 52))"
  using example_buffer by (simp add: example_config_def)

lemma default_configuration:
  assumes "clap_documented c" and "unset env"
  shows "parse_cli c [prog, ''relayer''] (env(''PRIVATE_KEY_HEX'' \<mapsto> key)) = Inr (RelayerCommand (default_config key))"
proof -
  let ?cmd = "RelayerCommand (default_config key)"
  have "\<forall>(a, v) \<in> set (arg_texts ''1.1'' ?cmd). supplied {} (env(''PRIVATE_KEY_HEX'' \<mapsto> key)) a v"
    using assms(2)
    by (simp add: arg_texts_def relayer_args_def default_config_def supplied_def env_arg_def
        from_env_def unset_def word_text_def decimal_numeral)
  moreover have "writable ''1.1'' ?cmd" by (simp add: default_config_def default_buffer)
  moreover have "command_line prog {} ''1.1'' ?cmd = [prog, ''relayer'']"
    by (simp add: command_line_def on_line_def flags_def)
  ultimately show ?thesis using parse_written [OF assms(1), of "''1.1''" ?cmd "{}" _ prog] by simp
qed

text \<open>C35: every option can be given on the command line or in its environment variable. Write any
  command out, each argument that has a value on the command line or in the environment: the
  program reads that command back, whatever the environment says of what the command line gives.
  With nothing but the key, the relayer has the documented defaults.\<close>

theorem options_from_either_source:
  assumes "clap_documented c" and "writable fee cmd"
    and "\<forall>fv \<in> set (settings fee cmd). given_either S env cmd fv" and "unset env'"
  shows "parse_cli c (command_line prog S fee cmd) env = Inr cmd
    \<and> parse_cli c [prog, ''relayer''] (env'(''PRIVATE_KEY_HEX'' \<mapsto> key)) = Inr (RelayerCommand (default_config key))"
  using parse_written [OF assms(1,2) given_either_supplied [OF assms(3)]] default_configuration [OF assms(1,4)]
  by simp

text \<open>The arguments that are read as integers, with the widths of their types.\<close>

definition number_fields :: "(string \<times> string \<times> nat) list" where
  "number_fields =
     map (\<lambda>f. (''relayer'', f, 64))
       [''poll_interval'', ''maintenance_interval'', ''balance_poll_interval'', ''forward_concurrency'',
        ''block_scan_start_height'', ''block_confirmation_depth'', ''scan_timeout'',
        ''max_request_age_seconds'', ''max_address_inactivity_seconds'']
     @ [(''relayer'', ''metrics_port'', 16), (''backend'', ''port'', 16), (''backend'', ''metrics_port'', 16),
        (''derive-address'', ''dest_domain'', 32)]"

lemma relayer_reads:
  assumes "relayer_from_matches c m = Inr conf"
  shows "given_field m (value_u64 c) ''poll_interval'' = Inr (poll_interval conf)"
    "given_field m (value_u64 c) ''maintenance_interval'' = Inr (maintenance_interval conf)"
    "given_field m (value_u64 c) ''balance_poll_interval'' = Inr (balance_poll_interval conf)"
    "given_field m usize_from_str ''forward_concurrency'' = Inr (forward_concurrency conf)"
    "optional_field m (value_u64 c) ''block_scan_start_height'' = Inr (block_scan_start_height conf)"
    "given_field m (value_u64 c) ''block_confirmation_depth'' = Inr (block_confirmation_depth conf)"
    "given_field m (value_u64 c) ''scan_timeout'' = Inr (scan_timeout conf)"
    "given_field m (value_u64 c) ''max_request_age_seconds'' = Inr (max_request_age_seconds conf)"
    "given_field m (value_u64 c) ''max_address_inactivity_seconds'' = Inr (max_address_inactivity_seconds conf)"
    "optional_field m (value_u16 c) ''metrics_port'' = Inr (metrics_port conf)"
    "optional_field m Inr ''custom_igp_hook'' = Inr (custom_igp_hook conf)"
  using assms by (auto simp: relayer_from_matches_def bind_result_Inr_iff)

lemma optional_field_large:
  "m f = Some v \<Longrightarrow> p v = Inl e \<Longrightarrow> optional_field m p f \<noteq> Inr opt"
  by simp

lemma large_number_refused:
  assumes "clap_documented c" and "(sub, f, w) \<in> set number_fields" and "m f = Some (decimal n)" and "2 ^ w \<le> n"
  shows "command_from_matches c sub m \<noteq> Inr cmd"
proof
  assume ok: "command_from_matches c sub m = Inr cmd"
  note large = clap_values(1-3) [OF assms(1), THEN reads_decimal_large, of n]
  have word: "value_u64 c (decimal n) \<noteq> Inr x" "usize_from_str (decimal n) \<noteq> Inr y" if "w = 64" for x y
    using large(3) assms(4) that by (auto simp: uint_from_str_decimal)
  have short: "value_u16 c (decimal n) \<noteq> Inr x" if "w = 16" for x
    using large(1) assms(4) that by auto
  consider (relayer) "sub = ''relayer''" | (backend) "sub = ''backend''" | (derive) "sub = ''derive-address''"
    using assms(2) by (auto simp: number_fields_def)
  then show False
  proof cases
    case relayer
    with ok obtain conf where "relayer_from_matches c m = Inr conf"
      by (auto simp: command_from_matches_def map_sum_def split: sum.splits)
    note reads = relayer_reads [OF this]
    have large: "given_field m (value_u64 c) f \<noteq> Inr x" "given_field m usize_from_str f \<noteq> Inr y"
      "optional_field m (value_u64 c) f \<noteq> Inr z" if "w = 64" for x y z
      using word [OF that] assms(3) by (auto simp: map_sum_def split: sum.splits)
    have "optional_field m (value_u16 c) f \<noteq> Inr z" if "w = 16" for z
      using short [OF that] assms(3) by (auto simp: map_sum_def split: sum.splits)
    with large reads assms(2) relayer show False by (fastforce simp: number_fields_def)
  next
    case backend
    then have "w = 16" using assms(2) by (auto simp: number_fields_def)
    then obtain e where "value_u16 c (decimal n) = Inl e" using large(1) assms(4) by auto
    with backend ok assms(2,3) show False
      by (auto simp: command_from_matches_def backend_from_matches_def bind_result_Inr_iff map_sum_def
          number_fields_def split: sum.splits)
  next
    case derive
    with ok assms(2-4) large(2) show False
      by (auto simp: command_from_matches_def bind_result_Inr_iff number_fields_def)
  qed
qed

lemma parse_cli_refuses:
  assumes "clap_documented c" and "map_of subcommands sub = Some args" and "well_given args given" and "a \<in> set args"
    and "arg_presence a = Required \<and> effective given env a = None
      \<or> (\<exists>w n. (sub, arg_field a, w) \<in> set number_fields \<and> effective given env a = Some (decimal n) \<and> 2 ^ w \<le> n)"
  shows "\<exists>e. parse_cli c (prog # sub # flags given) env = Inl e"
proof (cases "required_given args given env")
  case True
  with clap_matches [OF assms(1-3), of env prog] obtain m where
    m: "get_matches c subcommands (prog # sub # flags given) env = Inr (sub, m)"
      "m (arg_field a) = effective given env a"
    using assms(4) by auto
  have "effective given env a \<noteq> None" if "arg_presence a = Required"
    using True assms(4) that by (auto simp: required_given_def)
  then have "command_from_matches c sub m \<noteq> Inr cmd" for cmd
    using assms(5) large_number_refused [OF assms(1), of sub "arg_field a" _ m] m(2) by auto
  with m(1) show ?thesis by (cases "command_from_matches c sub m") (auto simp: parse_cli_def)
next
  case False
  with clap_matches [OF assms(1-3), of env prog] show ?thesis by (auto simp: parse_cli_def)
qed

text \<open>C21: a mistaken configuration starts nothing. When a required argument has no value, on
  the command line or in its environment variable, or the value of an argument that is read as an integer is too
  large for its type, then \<^verbatim>\<open>main\<close> ends with an error and neither the metrics exporter nor the
  relayer nor the backend has been started.\<close>

theorem faulty_options_start_nothing:
  assumes "clap_documented c" and "map_of subcommands sub = Some args" and "well_given args given" and "a \<in> set args"
    and "arg_presence a = Required \<and> effective given env a = None
      \<or> (\<exists>w n. (sub, arg_field a, w) \<in> set number_fields \<and> effective given env a = Some (decimal n) \<and> 2 ^ w \<le> n)"
  shows "\<exists>e. main_program c h now (prog # sub # flags given) env m = (Inl e, m)"
  using parse_cli_refuses [OF assms, of prog] by (auto simp: main_program_def)

lemma client_new_ok: "client_new cr fs ai en tb pa urls key = Inr cl \<Longrightarrow> client_ok cl"
  by (auto simp: client_new_def client_ok_def split: sum.splits prod.splits if_splits)

lemma run_command_relaying: "run_command h now cmd m = (Inr (Relaying r), m') \<Longrightarrow> \<exists>conf. cmd = RelayerCommand conf"
  by (cases cmd) (auto simp: run_command_def bind_io_def map_sum_def split: prod.splits sum.splits)

lemma run_command_serving: "run_command h now cmd m = (Inr (Serving b), m') \<Longrightarrow> \<exists>conf. cmd = BackendCommand conf"
  by (cases cmd) (auto simp: run_command_def bind_io_def map_sum_def split: prod.splits sum.splits)

lemma main_program_runs:
  "main_program c h now argv env m = (Inr out, m')
     \<Longrightarrow> \<exists>cmd. parse_cli c argv env = Inr cmd \<and> run_command h now cmd m = (Inr out, m')"
  by (auto simp: main_program_def split: sum.splits)

lemma command_line_hook:
  assumes "clap_documented c" and "well_given relayer_args given"
    and "parse_cli c (prog # ''relayer'' # flags given) env = Inr (RelayerCommand conf)"
  shows "custom_igp_hook conf
    = (case map_of given ''custom-igp-hook'' of Some v \<Rightarrow> Some v | None \<Rightarrow> env ''CUSTOM_IGP_HOOK'')"
proof -
  let ?a = "env_arg ''custom_igp_hook'' ''CUSTOM_IGP_HOOK'' Optional"
  have sub: "map_of subcommands ''relayer'' = Some relayer_args" by (simp add: subcommands_def)
  have a: "?a \<in> set relayer_args" by (simp add: relayer_args_def)
  from clap_matches [OF assms(1) sub assms(2), of env prog] assms(3) a obtain m where
    m: "get_matches c subcommands (prog # ''relayer'' # flags given) env = Inr (''relayer'', m)"
      "m ''custom_igp_hook'' = effective given env ?a"
    by (auto simp: parse_cli_def env_arg_def split: if_splits)
  then have "relayer_from_matches c m = Inr conf"
    using assms(3) by (auto simp: parse_cli_def command_from_matches_def map_sum_def split: sum.splits)
  from relayer_reads(11) [OF this] have "custom_igp_hook conf = m ''custom_igp_hook''"
    by (cases "m ''custom_igp_hook''") simp_all
  with m(2) show ?thesis
    by (simp add: effective_def from_env_def env_arg_def long_name_def kebab_def split: option.splits)
qed

text \<open>C4: from the command line to the chain. Launch the relayer without \<^verbatim>\<open>--custom-igp-hook\<close> and without
  \<^verbatim>\<open>CUSTOM_IGP_HOOK\<close>, whatever its other options, and the backend with any options on a database
  whose rows are valid: if both start, then whatever clients and tasks do, in any interleaving, the
  fields of every message submitted derive the address it forwards.\<close>

theorem launched_programs_submit_matching:
  assumes "clap_documented c" and "well_given relayer_args given"
    and "''custom-igp-hook'' \<notin> fst ` set given" and "env ''CUSTOM_IGP_HOOK'' = None"
    and "main_program c h now (prog # ''relayer'' # flags given) env m = (Inr (Relaying r), m')"
    and "main_program c h' now' argv env' mb = (Inr (Serving b), mb')"
    and "\<forall>p conn. open_backend_db h' p = Inr conn \<longrightarrow> sql_healthy conn \<and> file_ok cr (tables conn)"
    and "run (world_step cr ch) (run_relayer r b) acts s"
  shows "\<forall>(url, msg) \<in> set (submissions (celestia (shared s))).
    derive_forwarding_address cr (mf_dest_domain msg) (mf_dest_recipient msg) (mf_token_id msg)
      (Some (mf_custom_hook_id msg)) (Some (mf_custom_hook_metadata msg)) = Inr (mf_forward_addr msg)"
proof -
  obtain conf where conf: "parse_cli c (prog # ''relayer'' # flags given) env = Inr (RelayerCommand conf)"
    and r: "run_command h now (RelayerCommand conf) m = (Inr (Relaying r), m')"
    using main_program_runs [OF assms(5)] run_command_relaying by blast
  have "map_of given ''custom-igp-hook'' = None" using assms(3) by (simp add: map_of_eq_None_iff)
  with command_line_hook [OF assms(1,2) conf] assms(4) have hook: "custom_igp_hook conf = None" by simp
  obtain client where started: "celestia r = client" "config r = conf" "live r = []" "submissions client = []"
    and client: "client_new (hashes h) (from_slice h) (account_id h) (endpoint_new h) (tx_build h)
      (parse_ascii h) (celestia_grpc conf) (private_key_hex conf) = Inr client"
    using started_relayer [OF r] .
  obtain bconf where b: "run_command h' now' (BackendCommand bconf) mb = (Inr (Serving b), mb')"
    using main_program_runs [OF assms(6)] run_command_serving by blast
  obtain s0 conn where "start_backend h' bconf = Inr s0" "open_backend_db h' (db_path bconf) = Inr conn"
    using run_backend_command [OF b] start_backend_cases by (metis outcome.inject(2))
  with assms(7) started_backend [OF b] have "registry_ok cr b" by blast
  then have "world_ok cr (config r) (run_relayer r b)"
    using started client_new_ok [OF client] by (intro world_ok_init) simp_all
  from world_ok_run [OF assms(8) this] started(2) hook show ?thesis
    by (force simp: world_ok_def message_ok_def)
qed

section \<open>An implementation of the documentation\<close>

fun unflag :: "string list \<Rightarrow> (string \<times> string) list option" where
  "unflag [] = Some []"
| "unflag [_] = None"
| "unflag (n # v # ws) =
     (case strip_prefix ''--'' n of
        None \<Rightarrow> None
      | Some k \<Rightarrow> map_option (\<lambda>given. (k, v) # given) (unflag ws))"

definition example_matches ::
  "(string \<times> arg list) list \<Rightarrow> string list \<Rightarrow> environment \<Rightarrow> (string \<times> arg_matches) result" where
  "example_matches commands argv env =
     (case argv of
        prog # sub # ws \<Rightarrow>
          (case (map_of commands sub, unflag ws) of
             (Some args, Some given) \<Rightarrow>
               if required_given args given env
               then Inr (sub, \<lambda>f. Option.bind (find (\<lambda>a. arg_field a = f) args) (effective given env))
               else Inl ''missing argument''
           | _ \<Rightarrow> Inl ''usage'')
      | _ \<Rightarrow> Inl ''usage'')"

definition example_word :: "string \<Rightarrow> 'a::len word result" where
  "example_word s =
     bind_result (usize_from_str s) (\<lambda>n. if n < 2 ^ LENGTH('a) then Inr (of_nat n) else Inl ''out of range'')"

definition example_clap :: clap where
  "example_clap = \<lparr>get_matches = example_matches, value_u16 = example_word, value_u32 = example_word,
     value_u64 = example_word, value_path = (\<lambda>p. if p = [] then Inl ''empty'' else Inr p)\<rparr>"

lemma unflag_flags [simp]: "unflag (flags given) = Some given"
  by (induction given) (auto simp: flags_def)

lemma find_distinct:
  "distinct (map g xs) \<Longrightarrow> x \<in> set xs \<Longrightarrow> find (\<lambda>y. g y = g x) xs = Some x"
  by (induction xs) (auto simp: rev_image_eqI)

lemma distinct_fields: "map_of subcommands sub = Some args \<Longrightarrow> distinct (map arg_field args)"
  using distinct_long_names [of sub args]
  by (simp add: long_name_def distinct_map inj_on_def)

lemma example_word_reads: "LENGTH('a::len) \<le> 64 \<Longrightarrow> reads_decimal (example_word :: string \<Rightarrow> 'a word result)"
proof -
  assume "LENGTH('a) \<le> 64"
  then have "(2::nat) ^ LENGTH('a) \<le> 2 ^ 64" by (rule power_increasing) simp
  then show ?thesis
    unfolding reads_decimal_def by (auto simp: example_word_def uint_from_str_decimal)
qed

lemma example_clap_documented: "clap_documented example_clap"
  unfolding clap_documented_def
proof (intro conjI allI impI)
  fix prog sub args given env
  assume sub: "map_of subcommands sub = Some args"
  have "find (\<lambda>b. arg_field b = arg_field a) args = Some a" if "a \<in> set args" for a
    using find_distinct [OF distinct_fields [OF sub] that] .
  then show "if required_given args given env
         then \<exists>m. get_matches example_clap subcommands (prog # sub # flags given) env = Inr (sub, m)
           \<and> (\<forall>a \<in> set args. m (arg_field a) = effective given env a)
         else \<exists>e. get_matches example_clap subcommands (prog # sub # flags given) env = Inl e"
    using sub by (simp add: example_clap_def example_matches_def)
qed (simp_all add: example_clap_def example_word_reads)

section \<open>The repository's tests of the command line\<close>

definition test_backend_metrics_port_cli_parse :: "clap \<Rightarrow> environment \<Rightarrow> bool" where
  "test_backend_metrics_port_cli_parse c env =
     (case parse_cli c [''forwarding-relayer'', ''backend'', ''--port'', ''8080'', ''--metrics-port'', ''9091''] env of
        Inr (BackendCommand conf) \<Rightarrow> backend_port conf = 8080 \<and> backend_metrics_port conf = Some 9091
      | _ \<Rightarrow> False)"

definition test_relayer_metrics_port_env_parse :: "clap \<Rightarrow> environment \<Rightarrow> bool" where
  "test_relayer_metrics_port_env_parse c env =
     (let env = env(''PRIVATE_KEY_HEX'' \<mapsto> ''abcd'', ''RELAYER_METRICS_PORT'' \<mapsto> ''9191'') in
      case parse_cli c [''forwarding-relayer'', ''relayer''] env of
        Inr (RelayerCommand conf) \<Rightarrow> metrics_port conf = Some 9191 \<and> private_key_hex conf = ''abcd''
      | _ \<Rightarrow> False)"

definition test_backend_metrics_port_env_parse :: "clap \<Rightarrow> environment \<Rightarrow> bool" where
  "test_backend_metrics_port_env_parse c env =
     (let env = env(''BACKEND_METRICS_PORT'' \<mapsto> ''9292'') in
      case parse_cli c [''forwarding-relayer'', ''backend''] env of
        Inr (BackendCommand conf) \<Rightarrow> backend_metrics_port conf = Some 9292
      | _ \<Rightarrow> False)"

lemma command_line_tests_pass:
  assumes "clap_documented c" and "unset env"
  shows "test_backend_metrics_port_cli_parse c env" and "test_relayer_metrics_port_env_parse c env"
    and "test_backend_metrics_port_env_parse c env"
proof -
  note ready = arg_texts_def backend_args_def relayer_args_def supplied_def env_arg_def from_env_def unset_def
    word_text_def decimal_numeral plain_value_def default_config_def
  let ?b = "BackendCommand \<lparr>backend_port = 8080, db_path = ''storage/backend.db'', backend_metrics_port = Some 9091\<rparr>"
  let ?line = "{''port'', ''metrics_port''}"
  have "\<forall>(a, v) \<in> set (arg_texts [] ?b). supplied ?line env a v"
    using assms(2) by (simp add: ready)
  from parse_written [OF assms(1) _ this, of "''forwarding-relayer''"]
  show "test_backend_metrics_port_cli_parse c env"
    by (simp add: test_backend_metrics_port_cli_parse_def command_line_def flags_def kebab_def word_text_def
        decimal_numeral)
  let ?env = "env(''PRIVATE_KEY_HEX'' \<mapsto> ''abcd'', ''RELAYER_METRICS_PORT'' \<mapsto> ''9191'')"
  let ?r = "RelayerCommand (default_config ''abcd'' \<lparr>metrics_port := Some 9191\<rparr>)"
  have "\<forall>(a, v) \<in> set (arg_texts ''1.1'' ?r). supplied {} ?env a v"
    using assms(2) by (simp add: ready)
  moreover have "writable ''1.1'' ?r" by (simp add: default_config_def default_buffer)
  ultimately have "parse_cli c (command_line ''forwarding-relayer'' {} ''1.1'' ?r) ?env = Inr ?r"
    by (intro parse_written [OF assms(1)])
  then show "test_relayer_metrics_port_env_parse c env"
    by (simp add: test_relayer_metrics_port_env_parse_def command_line_def on_line_def flags_def default_config_def)
  let ?env = "env(''BACKEND_METRICS_PORT'' \<mapsto> ''9292'')"
  let ?b = "BackendCommand \<lparr>backend_port = 8080, db_path = ''storage/backend.db'', backend_metrics_port = Some 9292\<rparr>"
  have "\<forall>(a, v) \<in> set (arg_texts [] ?b). supplied {} ?env a v"
    using assms(2) by (simp add: ready)
  from parse_written [OF assms(1) _ this, of "''forwarding-relayer''"]
  show "test_backend_metrics_port_env_parse c env"
    by (simp add: test_backend_metrics_port_env_parse_def command_line_def on_line_def flags_def)
qed

lemma buffer_accepted:
  assumes "clap_documented c" and "unset env" and "f64_parse v = Some buffer"
  shows "parse_cli c [prog, ''relayer''] (env(''PRIVATE_KEY_HEX'' \<mapsto> key, ''IGP_FEE_BUFFER'' \<mapsto> v))
    = Inr (RelayerCommand ((default_config key)\<lparr>igp_fee_buffer := buffer\<rparr>))"
proof -
  let ?cmd = "RelayerCommand ((default_config key)\<lparr>igp_fee_buffer := buffer\<rparr>)"
    and ?env = "env(''PRIVATE_KEY_HEX'' \<mapsto> key, ''IGP_FEE_BUFFER'' \<mapsto> v)"
  have "\<forall>(a, v) \<in> set (arg_texts v ?cmd). supplied {} ?env a v"
    using assms(2)
    by (simp add: arg_texts_def relayer_args_def default_config_def supplied_def env_arg_def
        from_env_def unset_def word_text_def decimal_numeral)
  moreover have "writable v ?cmd" using assms(3) by (simp add: default_config_def)
  ultimately have "parse_cli c (command_line prog {} v ?cmd) ?env = Inr ?cmd"
    by (intro parse_written [OF assms(1)])
  then show ?thesis by (simp add: command_line_def on_line_def flags_def default_config_def)
qed

text \<open>
  The fee buffer is not checked: one that is not a number is accepted, and then the fee cap of every
  forward is zero, whatever the quote.
\<close>

theorem fee_buffer_is_unchecked:
  assumes "clap_documented c" and "unset env"
  shows "\<exists>conf. parse_cli c [prog, ''relayer''] (env(''PRIVATE_KEY_HEX'' \<mapsto> key, ''IGP_FEE_BUFFER'' \<mapsto> ''nan''))
      = Inr (RelayerCommand conf) \<and> (\<forall>quote. fee_text quote (igp_fee_buffer conf) = ''0utia'')"
proof -
  have nan: "f64_parse ''nan'' = Some NaN" and zero: "decimal 0 = ''0''" by code_simp+
  have "quote * NaN = NaN" for quote :: f64 by (cases quote) simp_all
  then have "fee_text quote NaN = ''0utia''" for quote by (simp add: fee_text_def f64_as_u64_def zero)
  with buffer_accepted [OF assms nan, of prog key] show ?thesis by auto
qed

section \<open>Examples\<close>

definition example_env :: environment where
  "example_env = [''CELESTIA_GRPC'' \<mapsto> ''http://stale'', ''PORT'' \<mapsto> ''9090'', ''DB_PATH'' \<mapsto> ''/var/lib/backend.db'',
     ''BACKEND_METRICS_PORT'' \<mapsto> ''1'']"

lemma unset_empty [simp]: "unset (\<lambda>_. None)"
  by (simp add: unset_def from_env_def bind_eq_None_conv)

text \<open>The ports and the path from the environment, but the metrics port from the command line in spite of it.\<close>

theorem options_from_either_source_witness:
  "parse_cli example_clap [''forwarding-relayer'', ''backend'', ''--metrics-port'', ''9091''] example_env
     = Inr (BackendCommand \<lparr>backend_port = 9090, db_path = ''/var/lib/backend.db'', backend_metrics_port = Some 9091\<rparr>)
   \<and> parse_cli example_clap [''forwarding-relayer'', ''relayer''] [''PRIVATE_KEY_HEX'' \<mapsto> ''00ff'']
     = Inr (RelayerCommand (default_config ''00ff''))"
proof -
  let ?cmd = "BackendCommand \<lparr>backend_port = 9090, db_path = ''/var/lib/backend.db'', backend_metrics_port = Some 9091\<rparr>"
  have names: "upper ''port'' = ''PORT''" "upper ''db_path'' = ''DB_PATH''" by code_simp+
  have "\<forall>fv \<in> set (settings [] ?cmd). given_either {''metrics_port''} example_env ?cmd fv"
    by (simp add: given_either_def from_variable_def names plain_value_def example_env_def word_text_def decimal_numeral)
  moreover have "writable [] ?cmd" by simp
  moreover have "command_line ''forwarding-relayer'' {''metrics_port''} [] ?cmd
      = [''forwarding-relayer'', ''backend'', ''--metrics-port'', ''9091'']"
    by (simp add: command_line_def flags_def kebab_def word_text_def decimal_numeral)
  ultimately show ?thesis
    using options_from_either_source [OF example_clap_documented, of "[]" ?cmd "{''metrics_port''}" example_env
        "\<lambda>_. None" "''forwarding-relayer''" "''00ff''"]
    by simp
qed

theorem faulty_options_start_nothing_witness:
  "\<exists>e. main_program example_clap example_host 3 [''forwarding-relayer'', ''backend'', ''--port'', ''65536''] example_env
     new_process = (Inl e, new_process)"
proof -
  let ?a = "env_arg ''port'' ''PORT'' (Default ''8080'')"
  have "map_of subcommands ''backend'' = Some backend_args" by (simp add: subcommands_def)
  moreover have "well_given backend_args [(''port'', ''65536'')]"
    by (simp add: well_given_def backend_args_def env_arg_def long_name_def kebab_def plain_value_def)
  moreover have "?a \<in> set backend_args" by (simp add: backend_args_def)
  moreover have "\<exists>w n. (''backend'', arg_field ?a, w) \<in> set number_fields
      \<and> effective [(''port'', ''65536'')] example_env ?a = Some (decimal n) \<and> 2 ^ w \<le> n"
    by (intro exI [of _ 16] exI [of _ 65536])
      (simp add: number_fields_def effective_def env_arg_def long_name_def kebab_def decimal_numeral)
  ultimately have "\<exists>e. main_program example_clap example_host 3
      (''forwarding-relayer'' # ''backend'' # flags [(''port'', ''65536'')]) example_env new_process
    = (Inl e, new_process)"
    by (intro faulty_options_start_nothing [OF example_clap_documented, where a = ?a]) auto
  then show ?thesis by (simp add: flags_def)
qed

lemma case_outcome_ex:
  "(case x of (Inr (Relaying r), _) \<Rightarrow> P r | _ \<Rightarrow> False) \<longleftrightarrow> (\<exists>r m. x = (Inr (Relaying r), m) \<and> P r)"
  "(case y of (Inr (Serving b), _) \<Rightarrow> Q b | _ \<Rightarrow> False) \<longleftrightarrow> (\<exists>b m. y = (Inr (Serving b), m) \<and> Q b)"
  by (auto split: prod.splits sum.splits outcome.splits)

text \<open>
  Both programs are launched; a client registers an address, a tick finds it, a worker forwards it.
\<close>

lemma example_launch:
  "\<exists>r b m mb s. main_program example_clap example_host 3 [''forwarding-relayer'', ''relayer'', ''--celestia-grpc'', ''http://a'']
      [''PRIVATE_KEY_HEX'' \<mapsto> ''00ff''] new_process = (Inr (Relaying r), m)
   \<and> main_program example_clap example_host 3 [''forwarding-relayer'', ''backend''] (\<lambda>_. None) new_process
      = (Inr (Serving b), mb)
   \<and> run (world_step example_crypto tally_chrono) (run_relayer r b)
       (RelayerStep (Some 3) (Ticked 3) # map (RelayerStep None) ([TickOn, Send Maintenance, Accept, Spawn]
          @ example_pieces (c_forward_addr example_post) (request_of example_post ''|''))) s
   \<and> length (submissions (celestia (shared s))) = 1"
proof -
  let ?b = "BackendCommand \<lparr>backend_port = 8080, db_path = ''storage/backend.db'', backend_metrics_port = None\<rparr>"
    and ?r = "RelayerCommand ((default_config ''00ff'')\<lparr>celestia_grpc := ''http://a''\<rparr>)"
  let ?acts = "RelayerStep (Some 3) (Ticked 3) # map (RelayerStep None) ([TickOn, Send Maintenance, Accept, Spawn]
          @ example_pieces (c_forward_addr example_post) (request_of example_post ''|''))"
  have "\<forall>(a, v) \<in> set (arg_texts [] ?b). supplied {} (\<lambda>_. None) a v"
    by (simp add: arg_texts_def backend_args_def supplied_def env_arg_def from_env_def word_text_def decimal_numeral)
  from parse_written [OF example_clap_documented _ this, of "''forwarding-relayer''"]
  have b: "parse_cli example_clap [''forwarding-relayer'', ''backend''] (\<lambda>_. None) = Inr ?b"
    by (simp add: command_line_def on_line_def flags_def)
  have "\<forall>(a, v) \<in> set (arg_texts ''1.1'' ?r). supplied {''celestia_grpc''} [''PRIVATE_KEY_HEX'' \<mapsto> ''00ff''] a v"
    by (simp add: arg_texts_def relayer_args_def default_config_def supplied_def env_arg_def plain_value_def
        from_env_def word_text_def decimal_numeral)
  from parse_written [OF example_clap_documented _ this, of "''forwarding-relayer''"]
  have r: "parse_cli example_clap [''forwarding-relayer'', ''relayer'', ''--celestia-grpc'', ''http://a'']
      [''PRIVATE_KEY_HEX'' \<mapsto> ''00ff''] = Inr ?r"
    by (simp add: command_line_def flags_def default_config_def default_buffer kebab_def)
  have "case run_command example_host 3 ?r new_process of
      (Inr (Relaying r), _) \<Rightarrow>
        (case run_command example_host 3 ?b new_process of
           (Inr (Serving b), _) \<Rightarrow>
             (case world_run example_crypto tally_chrono ?acts (run_relayer r b) of
                Some s \<Rightarrow> length (submissions (celestia (shared s))) = 1
              | None \<Rightarrow> False)
         | _ \<Rightarrow> False)
    | _ \<Rightarrow> False"
    by code_simp
  then show ?thesis
    unfolding run_world_run main_program_def b r case_outcome_ex case_option_ex sum.case by blast
qed

theorem launched_programs_submit_matching_witness:
  "\<exists>r b m mb acts s url msg.
     main_program example_clap example_host 3 [''forwarding-relayer'', ''relayer'', ''--celestia-grpc'', ''http://a'']
       [''PRIVATE_KEY_HEX'' \<mapsto> ''00ff''] new_process = (Inr (Relaying r), m)
   \<and> main_program example_clap example_host 3 [''forwarding-relayer'', ''backend''] (\<lambda>_. None) new_process
       = (Inr (Serving b), mb)
   \<and> run (world_step example_crypto tally_chrono) (run_relayer r b) acts s
   \<and> submissions (celestia (shared s)) = [(url, msg)]
   \<and> derive_forwarding_address example_crypto (mf_dest_domain msg) (mf_dest_recipient msg) (mf_token_id msg)
       (Some (mf_custom_hook_id msg)) (Some (mf_custom_hook_metadata msg)) = Inr (mf_forward_addr msg)"
proof -
  obtain r b m mb acts s where
    r: "main_program example_clap example_host 3 [''forwarding-relayer'', ''relayer'', ''--celestia-grpc'', ''http://a'']
      [''PRIVATE_KEY_HEX'' \<mapsto> ''00ff''] new_process = (Inr (Relaying r), m)"
    and b: "main_program example_clap example_host 3 [''forwarding-relayer'', ''backend''] (\<lambda>_. None) new_process
      = (Inr (Serving b), mb)"
    and s: "run (world_step example_crypto tally_chrono) (run_relayer r b) acts s"
    and one: "length (submissions (celestia (shared s))) = 1"
    using example_launch by blast
  obtain url msg where msg: "submissions (celestia (shared s)) = [(url, msg)]"
    using one by (metis length_0_conv length_Suc_conv One_nat_def surj_pair)
  have "well_given relayer_args [(''celestia-grpc'', ''http://a'')]"
    by (simp add: well_given_def relayer_args_def env_arg_def long_name_def kebab_def plain_value_def)
  moreover have "main_program example_clap example_host 3 (''forwarding-relayer'' # ''relayer'' # flags [(''celestia-grpc'', ''http://a'')])
      [''PRIVATE_KEY_HEX'' \<mapsto> ''00ff''] new_process = (Inr (Relaying r), m)"
    using r by (simp add: flags_def)
  moreover have "\<forall>p conn. open_backend_db example_host p = Inr conn
      \<longrightarrow> sql_healthy conn \<and> file_ok example_crypto (tables conn)"
    using old_database_ok by (simp add: example_host_def)
  ultimately have "\<forall>(url, msg) \<in> set (submissions (celestia (shared s))).
    derive_forwarding_address example_crypto (mf_dest_domain msg) (mf_dest_recipient msg) (mf_token_id msg)
      (Some (mf_custom_hook_id msg)) (Some (mf_custom_hook_metadata msg)) = Inr (mf_forward_addr msg)"
    by (intro launched_programs_submit_matching [OF example_clap_documented _ _ _ _ b _ s]) simp_all
  with r b s msg show ?thesis by (intro exI conjI) (assumption | simp)+
qed

end
