(* ===== verification/Http.thy ===== *)
theory Http
  imports Config Json
begin

text \<open>
  HTTP between the programs: the routes of \<^verbatim>\<open>Backend::serve\<close> and the query of
  \<^verbatim>\<open>GET /forwarding-address\<close> (\<^verbatim>\<open>src/backend.rs\<close>), and the URLs the relayer makes of \<^verbatim>\<open>BACKEND_URL\<close>
  (\<^verbatim>\<open>src/relayer.rs\<close>). Bodies are JSON values, as in \<open>Json\<close>; axum and the URL parser are parameters.
\<close>

section \<open>The routes\<close>

datatype handler = Health | ForwardingAddress | ListRequests | CreateRequest | CompleteRequest

definition routes :: "(string \<times> (string \<times> handler) list) list" where
  "routes =
     [(''/health'', [(''GET'', Health)]),
      (''/forwarding-address'', [(''GET'', ForwardingAddress)]),
      (''/forwarding-requests'', [(''GET'', ListRequests), (''POST'', CreateRequest)]),
      (''/forwarding-requests/:addr'', [(''DELETE'', CompleteRequest)])]"

text \<open>
  What axum does: match a path against a route, giving the segments it captures; decode a query;
  answer what its extractors reject.
\<close>

record axum =
  match_route :: "string \<Rightarrow> string \<Rightarrow> string list option"
  decode_query :: "string \<Rightarrow> (string \<times> string) list option"
  reject_query :: "string \<Rightarrow> response"
  reject_json :: "string \<Rightarrow> response"

record http_message =
  verb :: string
  path :: string
  query :: string
  payload :: json

section \<open>The query of a derivation\<close>

definition query_fields :: "string list" where
  "query_fields = [''dest_domain'', ''dest_recipient'', ''token_id'', ''custom_hook_id'', ''custom_hook_metadata'']"

definition u32_from_str :: "string \<Rightarrow> u32 result" where
  "u32_from_str s = map_sum id of_nat (uint_from_str 32 s)"

text \<open>The fields in the order they come: an unknown one is skipped, a second one of a name is an error.\<close>

fun visit_query :: "(string \<times> string) list \<Rightarrow> (string \<times> string) list \<Rightarrow> (string \<times> string) list result" where
  "visit_query [] seen = Inr seen"
| "visit_query ((k, v) # ps) seen =
     (if k \<notin> set query_fields then visit_query ps seen
      else if k \<in> fst ` set seen then Inl (''duplicate field `'' @ k @ ''`'')
      else if k = ''dest_domain'' then bind_result (u32_from_str v) (\<lambda>_. visit_query ps ((k, v) # seen))
      else visit_query ps ((k, v) # seen))"

definition required_text :: "(string \<times> string) list \<Rightarrow> string \<Rightarrow> string result" where
  "required_text fs k =
     (case map_of fs k of Some v \<Rightarrow> Inr v | None \<Rightarrow> Inl (''missing field `'' @ k @ ''`''))"

definition query_of_pairs :: "(string \<times> string) list \<Rightarrow> forwarding_address_query result" where
  "query_of_pairs ps =
     bind_result (visit_query ps []) (\<lambda>fs.
     bind_result (bind_result (required_text fs ''dest_domain'') u32_from_str) (\<lambda>dest.
     bind_result (required_text fs ''dest_recipient'') (\<lambda>recip.
     bind_result (required_text fs ''token_id'') (\<lambda>token.
       Inr \<lparr>q_dest_domain = dest, q_dest_recipient = recip, q_token_id = token,
            q_custom_hook_id = map_of fs ''custom_hook_id'',
            q_custom_hook_metadata = map_of fs ''custom_hook_metadata''\<rparr>))))"

section \<open>The router\<close>

fun find_route ::
  "axum \<Rightarrow> string \<Rightarrow> (string \<times> (string \<times> handler) list) list \<Rightarrow> ((string \<times> handler) list \<times> string list) option" where
  "find_route ax p [] = None"
| "find_route ax p ((pat, methods) # rs) =
     (case match_route ax pat p of
        Some segs \<Rightarrow> Some (methods, segs)
      | None \<Rightarrow> find_route ax p rs)"

definition run_handler ::
  "axum \<Rightarrow> crypto \<Rightarrow> chrono \<Rightarrow> int \<Rightarrow> int \<Rightarrow> handler \<Rightarrow> string list \<Rightarrow> http_message \<Rightarrow> backend_state
     \<Rightarrow> response \<times> backend_state" where
  "run_handler ax cr ch now now' h segs msg s =
     (case h of
        Health \<Rightarrow> serve cr ch now now' GetHealth s
      | ForwardingAddress \<Rightarrow>
          (case decode_query ax (query msg) of
             None \<Rightarrow> (reject_query ax ''invalid query'', s)
           | Some ps \<Rightarrow>
               (case query_of_pairs ps of
                  Inl e \<Rightarrow> (reject_query ax e, s)
                | Inr q \<Rightarrow> serve cr ch now now' (GetForwardingAddress q) s))
      | ListRequests \<Rightarrow> serve cr ch now now' GetForwardingRequests s
      | CreateRequest \<Rightarrow> post_json (reject_json ax) cr ch now now' (payload msg) s
      | CompleteRequest \<Rightarrow> serve cr ch now now' (DeleteForwardingRequest (hd segs)) s)"

text \<open>
  No route: 404. A route without the method: 405. \<^verbatim>\<open>get\<close> takes \<^verbatim>\<open>HEAD\<close> as well, and the body is dropped.
\<close>

definition find_method :: "(string \<times> handler) list \<Rightarrow> string \<Rightarrow> handler option" where
  "find_method methods v = map_of methods (if v = ''HEAD'' then ''GET'' else v)"

definition drop_body :: "string \<Rightarrow> response \<times> backend_state \<Rightarrow> response \<times> backend_state" where
  "drop_body v reply = (if v = ''HEAD'' then ((fst (fst reply), NoBody), snd reply) else reply)"

definition route ::
  "axum \<Rightarrow> crypto \<Rightarrow> chrono \<Rightarrow> int \<Rightarrow> int \<Rightarrow> http_message \<Rightarrow> backend_state \<Rightarrow> response \<times> backend_state" where
  "route ax cr ch now now' msg s =
     (case find_route ax (path msg) routes of
        None \<Rightarrow> ((404, NoBody), s)
      | Some (methods, segs) \<Rightarrow>
          (case find_method methods (verb msg) of
             None \<Rightarrow> ((405, NoBody), s)
           | Some h \<Rightarrow> drop_body (verb msg) (run_handler ax cr ch now now' h segs msg s)))"

section \<open>The relayer's calls\<close>

definition list_url :: "relayer_config \<Rightarrow> string" where
  "list_url conf = backend_url conf @ ''/forwarding-requests''"

definition complete_url :: "relayer_config \<Rightarrow> string \<Rightarrow> string" where
  "complete_url conf addr = backend_url conf @ ''/forwarding-requests/'' @ addr"

text \<open>
  \<open>resolve\<close> is the path with which a URL reaches the backend; \<open>None\<close> if it does not. The message has no
  query, and no body the handlers look at.
\<close>

definition send ::
  "(string \<Rightarrow> string option) \<Rightarrow> axum \<Rightarrow> crypto \<Rightarrow> chrono \<Rightarrow> int \<Rightarrow> string \<Rightarrow> string \<Rightarrow> backend_state
     \<Rightarrow> response option \<times> backend_state" where
  "send resolve ax cr ch now method url b =
     (case resolve url of
        None \<Rightarrow> (None, b)
      | Some p \<Rightarrow>
          (case route ax cr ch now now \<lparr>verb = method, path = p, query = [], payload = JNull\<rparr> b of
             (resp, b') \<Rightarrow> (Some resp, b')))"

definition wired ::
  "(string \<Rightarrow> string option) \<Rightarrow> axum \<Rightarrow> crypto \<Rightarrow> chrono \<Rightarrow> int \<Rightarrow> relayer_config \<Rightarrow> backend_state backend_link" where
  "wired resolve ax cr ch now conf = \<lparr>
     http_get = send resolve ax cr ch now ''GET'' (list_url conf),
     http_delete = (\<lambda>addr. send resolve ax cr ch now ''DELETE'' (complete_url conf addr))\<rparr>"

section \<open>Documented behaviour\<close>

text \<open>
  A segment of ASCII letters and digits needs no encoding. A route without a parameter matches
  itself only; one that ends in a parameter matches one segment in its place. \<open>encode_query\<close> is a
  client's encoding of the fields of a form.
\<close>

definition plain_segment :: "string \<Rightarrow> bool" where
  "plain_segment s \<longleftrightarrow> s \<noteq> [] \<and> (\<forall>c \<in> set s. is_alphanumeric c)"

definition axum_documented :: "axum \<Rightarrow> ((string \<times> string) list \<Rightarrow> string) \<Rightarrow> bool" where
  "axum_documented ax encode_query \<longleftrightarrow>
     (\<forall>pat p. CHR '':'' \<notin> set pat \<longrightarrow> match_route ax pat p = (if p = pat then Some [] else None))
     \<and> (\<forall>pre name p. CHR '':'' \<notin> set pre \<longrightarrow> strip_prefix pre p = None \<longrightarrow> match_route ax (pre @ CHR '':'' # name) p = None)
     \<and> (\<forall>pre name seg. CHR '':'' \<notin> set pre \<longrightarrow> plain_segment seg \<longrightarrow> match_route ax (pre @ CHR '':'' # name) (pre @ seg) = Some [seg])
     \<and> (\<forall>ps. decode_query ax (encode_query ps) = Some ps)"

text \<open>\<open>base\<close> is a scheme and an authority, such as \<^verbatim>\<open>http://localhost:8080\<close>: what follows is the path.\<close>

definition path_char :: "char \<Rightarrow> bool" where
  "path_char c \<longleftrightarrow> is_alphanumeric c \<or> c = CHR ''/'' \<or> c = CHR ''-''"

definition base_url :: "(string \<Rightarrow> string option) \<Rightarrow> string \<Rightarrow> bool" where
  "base_url resolve base \<longleftrightarrow>
     (\<forall>p. list_all path_char p \<longrightarrow> resolve (base @ CHR ''/'' # p) = Some (CHR ''/'' # p))"

section \<open>Requests reach their handlers\<close>

definition opt_pair :: "string \<Rightarrow> string option \<Rightarrow> (string \<times> string) list" where
  "opt_pair k v = (case v of None \<Rightarrow> [] | Some t \<Rightarrow> [(k, t)])"

definition query_pairs :: "forwarding_address_query \<Rightarrow> (string \<times> string) list" where
  "query_pairs q =
     [(''dest_domain'', decimal (unat (q_dest_domain q))), (''dest_recipient'', q_dest_recipient q),
      (''token_id'', q_token_id q)]
     @ opt_pair ''custom_hook_id'' (q_custom_hook_id q)
     @ opt_pair ''custom_hook_metadata'' (q_custom_hook_metadata q)"

text \<open>A request as a client writes it.\<close>

fun message :: "((string \<times> string) list \<Rightarrow> string) \<Rightarrow> http_request \<Rightarrow> http_message" where
  "message enc GetHealth = \<lparr>verb = ''GET'', path = ''/health'', query = [], payload = JNull\<rparr>"
| "message enc (GetForwardingAddress q) =
     \<lparr>verb = ''GET'', path = ''/forwarding-address'', query = enc (query_pairs q), payload = JNull\<rparr>"
| "message enc GetForwardingRequests =
     \<lparr>verb = ''GET'', path = ''/forwarding-requests'', query = [], payload = JNull\<rparr>"
| "message enc (PostForwardingRequests r) =
     \<lparr>verb = ''POST'', path = ''/forwarding-requests'', query = [], payload = create_json r\<rparr>"
| "message enc (DeleteForwardingRequest addr) =
     \<lparr>verb = ''DELETE'', path = ''/forwarding-requests/'' @ addr, query = [], payload = JNull\<rparr>"

fun addressable :: "http_request \<Rightarrow> bool" where
  "addressable (DeleteForwardingRequest addr) = plain_segment addr"
| "addressable _ = True"

lemma query_roundtrip: "query_of_pairs (query_pairs q) = Inr q"
proof -
  have dest: "u32_from_str (decimal (unat d)) = Inr d" for d :: u32
    using unsigned_less [of d, where 'a = nat] by (simp add: u32_from_str_def uint_from_str_decimal)
  show ?thesis
    by (cases "q_custom_hook_id q"; cases "q_custom_hook_metadata q")
      (simp_all add: query_of_pairs_def query_pairs_def opt_pair_def query_fields_def required_text_def dest)
qed

lemma find_routes:
  assumes "axum_documented ax enc"
  shows "find_route ax p routes =
    (if p = ''/health'' then Some ([(''GET'', Health)], [])
     else if p = ''/forwarding-address'' then Some ([(''GET'', ForwardingAddress)], [])
     else if p = ''/forwarding-requests'' then Some ([(''GET'', ListRequests), (''POST'', CreateRequest)], [])
     else map_option (\<lambda>segs. ([(''DELETE'', CompleteRequest)], segs)) (match_route ax ''/forwarding-requests/:addr'' p))"
proof -
  have "match_route ax pat p = (if p = pat then Some [] else None)" if "CHR '':'' \<notin> set pat" for pat
    using assms that unfolding axum_documented_def by blast
  then show ?thesis by (simp add: routes_def split: option.splits)
qed

lemma captured_addr:
  assumes "axum_documented ax enc"
  shows "strip_prefix ''/forwarding-requests/'' p = None \<Longrightarrow> match_route ax ''/forwarding-requests/:addr'' p = None"
    and "plain_segment seg \<Longrightarrow> match_route ax ''/forwarding-requests/:addr'' (''/forwarding-requests/'' @ seg) = Some [seg]"
proof -
  let ?pre = "''/forwarding-requests/''"
  have pat: "''/forwarding-requests/:addr'' = ?pre @ CHR '':'' # ''addr''" and pre: "CHR '':'' \<notin> set ?pre"
    by simp_all
  show "strip_prefix ?pre p = None \<Longrightarrow> match_route ax ''/forwarding-requests/:addr'' p = None"
    using assms pre unfolding axum_documented_def pat by blast
  show "plain_segment seg \<Longrightarrow> match_route ax ''/forwarding-requests/:addr'' (?pre @ seg) = Some [seg]"
    using assms pre unfolding axum_documented_def pat by blast
qed

lemma route_message:
  assumes "axum_documented ax enc" and "addressable req"
  shows "route ax cr ch now now' (message enc req) s = serve cr ch now now' req s"
proof -
  have "decode_query ax (enc ps) = Some ps" for ps
    using assms(1) unfolding axum_documented_def by blast
  then show ?thesis
    using captured_addr(2) [OF assms(1)] assms(2)
    by (cases req) (simp_all add: route_def find_routes [OF assms(1)] find_method_def drop_body_def run_handler_def query_roundtrip
        post_json_def)
qed


section \<open>The relayer reaches the backend\<close>

lemma tick_link_cong:
  assumes "http_get l b = http_get l' b"
    and "\<And>reqs r. fetch_forwarding_requests (fst (http_get l' b)) = Inr reqs \<Longrightarrow> r \<in> set reqs
      \<Longrightarrow> http_delete l (forward_addr r) = http_delete l' (forward_addr r)"
  shows "maintenance_tick l ch now (s, b) = maintenance_tick l' ch now (s, b)"
proof (cases "fetch_forwarding_requests (fst (http_get l' b))")
  case (Inl e)
  then show ?thesis by (cases "http_get l' b") (simp add: maintenance_tick_def assms(1))
next
  case (Inr reqs)
  have "retire_one l rr = retire_one l' rr"
    if "rr \<in> set (retirements ch conf now activity reqs)" for rr conf activity
  proof -
    obtain r reason where rr: "rr = (r, reason)" by fastforce
    with that have "r \<in> set reqs" by (simp add: retirements_mem)
    from assms(2) [OF Inr this] show ?thesis by (simp add: retire_one_def rr fun_eq_iff)
  qed
  then have "fold (retire_one l) (retirements ch conf now activity reqs) x
      = fold (retire_one l') (retirements ch conf now activity reqs) x" for conf activity x
    by (intro fold_cong) simp_all
  with Inr show ?thesis by (cases "http_get l' b") (simp add: maintenance_tick_def assms(1) Let_def)
qed

lemma resolve_base:
  "base_url resolve base \<Longrightarrow> list_all path_char p \<Longrightarrow> resolve (base @ CHR ''/'' # p) = Some (CHR ''/'' # p)"
  by (simp add: base_url_def)

lemma path_chars:
  "list_all path_char ''forwarding-requests''" "list_all path_char ''/forwarding-requests''"
  "plain_segment addr \<Longrightarrow> list_all path_char (''forwarding-requests/'' @ addr)"
proof -
  show "list_all path_char ''forwarding-requests''" "list_all path_char ''/forwarding-requests''" by code_simp+
  have "list_all path_char ''forwarding-requests/''" by code_simp
  then show "plain_segment addr \<Longrightarrow> list_all path_char (''forwarding-requests/'' @ addr)"
    by (simp only: list_all_append) (simp add: plain_segment_def list_all_iff path_char_def)
qed

lemma resolved_urls:
  assumes "base_url resolve (backend_url conf)"
  shows "resolve (list_url conf) = Some ''/forwarding-requests''"
    and "plain_segment addr \<Longrightarrow> resolve (complete_url conf addr) = Some (''/forwarding-requests/'' @ addr)"
  using resolve_base [OF assms path_chars(1)] resolve_base [OF assms path_chars(3), of addr]
  by (simp_all add: list_url_def complete_url_def)

lemma wired_over_http:
  assumes "axum_documented ax enc" and "base_url resolve (backend_url conf)"
  shows "http_get (wired resolve ax cr ch now conf) = http_get (over_http cr ch now)"
    and "plain_segment addr
      \<Longrightarrow> http_delete (wired resolve ax cr ch now conf) addr = http_delete (over_http cr ch now) addr"
proof -
  note urls = resolved_urls [OF assms(2)]
  show "http_get (wired resolve ax cr ch now conf) = http_get (over_http cr ch now)"
    using route_message [OF assms(1), of GetForwardingRequests]
    by (simp add: wired_def over_http_def send_def urls(1) fun_eq_iff)
  show "http_delete (wired resolve ax cr ch now conf) addr = http_delete (over_http cr ch now) addr"
    if "plain_segment addr"
    using route_message [OF assms(1), of "DeleteForwardingRequest addr"] that
    by (simp add: wired_def over_http_def send_def urls(2) [OF that] fun_eq_iff)
qed


text \<open>a slash at the end of \<^verbatim>\<open>BACKEND_URL\<close> cuts the relayer off: the paths begin with two slashes, no
  route matches them, and every tick fails to list, sends nothing, keeps the live list as it
  is and leaves the backend as it is.\<close>

theorem trailing_slash_starves_relayer:
  assumes "axum_documented ax enc" and "base_url resolve base" and "backend_url conf = base @ ''/''"
  shows "maintenance_tick (wired resolve ax cr ch t conf) ch now (s, b)
    = ([], log_metric (Counter ''backend_request_fetch_total'' [(''status'', ''failure'')] 1) s, b)"
proof -
  have "resolve (base @ CHR ''/'' # ''/forwarding-requests'') = Some (CHR ''/'' # ''/forwarding-requests'')"
    using resolve_base [OF assms(2) path_chars(2)] .
  then have "resolve (list_url conf) = Some ''//forwarding-requests''" by (simp add: list_url_def assms(3))
  moreover have "match_route ax ''/forwarding-requests/:addr'' ''//forwarding-requests'' = None"
    by (rule captured_addr(1) [OF assms(1)]) simp
  ultimately have "http_get (wired resolve ax cr ch t conf) b = (Some (404, NoBody), b)"
    by (simp add: wired_def send_def route_def find_routes [OF assms(1)])
  then show ?thesis
    by (simp add: maintenance_tick_def fetch_forwarding_requests_def is_success_def)
qed

section \<open>Examples\<close>

text \<open>An implementation of what is documented of axum, and a client's encoding.\<close>

definition example_match :: "string \<Rightarrow> string \<Rightarrow> string list option" where
  "example_match pat p =
     (case split_once CHR '':'' pat of
        None \<Rightarrow> if p = pat then Some [] else None
      | Some (pre, _) \<Rightarrow>
          (case strip_prefix pre p of
             None \<Rightarrow> None
           | Some seg \<Rightarrow> if plain_segment seg then Some [seg] else None))"

definition escaped :: "string \<Rightarrow> string" where
  "escaped t = concat (map (\<lambda>c. [CHR ''.'', c]) t)"

fun example_encode :: "(string \<times> string) list \<Rightarrow> string" where
  "example_encode [] = []"
| "example_encode ((k, v) # ps) = escaped k @ CHR ''='' # escaped v @ CHR ''&'' # example_encode ps"

fun unescape :: "char \<Rightarrow> string \<Rightarrow> (string \<times> string) option" where
  "unescape stop [] = None"
| "unescape stop [d] = (if d = stop then Some ([], []) else None)"
| "unescape stop (d # c # ds) =
     (if d = stop then Some ([], c # ds) else map_option (\<lambda>(t, r). (c # t, r)) (unescape stop ds))"

fun example_decode :: "nat \<Rightarrow> string \<Rightarrow> (string \<times> string) list option" where
  "example_decode n [] = Some []"
| "example_decode 0 (c # cs) = None"
| "example_decode (Suc n) (c # cs) =
     Option.bind (unescape CHR ''='' (c # cs)) (\<lambda>(k, r).
     Option.bind (unescape CHR ''&'' r) (\<lambda>(v, r').
     map_option (\<lambda>ps. (k, v) # ps) (example_decode n r')))"

definition example_axum :: axum where
  "example_axum = \<lparr>match_route = example_match, decode_query = (\<lambda>s. example_decode (length s) s),
     reject_query = (\<lambda>e. (400, TextBody e)), reject_json = (\<lambda>e. (422, TextBody e))\<rparr>"

definition example_resolve :: "string \<Rightarrow> string option" where
  "example_resolve = strip_prefix ''http://localhost:8080''"

lemma unescape_escaped: "stop \<noteq> CHR ''.'' \<Longrightarrow> unescape stop (escaped t @ stop # r) = Some (t, r)"
proof (induction t)
  case Nil
  then show ?case by (cases r) (simp_all add: escaped_def)
next
  case (Cons c t)
  moreover have "escaped (c # t) = CHR ''.'' # c # escaped t" by (simp add: escaped_def)
  ultimately show ?case by simp
qed

lemma example_decode_encode: "length (example_encode ps) \<le> n \<Longrightarrow> example_decode n (example_encode ps) = Some ps"
proof (induction ps arbitrary: n)
  case (Cons p ps)
  obtain k v where p: "p = (k, v)" by fastforce
  with Cons.prems obtain n' where n: "n = Suc n'" "length (example_encode ps) \<le> n'" by (cases n) auto
  obtain c cs where c: "escaped k @ CHR ''='' # escaped v @ CHR ''&'' # example_encode ps = c # cs"
    by (cases "escaped k") auto
  have "unescape CHR ''='' (c # cs) = Some (k, escaped v @ CHR ''&'' # example_encode ps)"
    unfolding c [symmetric] by (rule unescape_escaped) simp
  moreover have "unescape CHR ''&'' (escaped v @ CHR ''&'' # example_encode ps) = Some (v, example_encode ps)"
    by (rule unescape_escaped) simp
  ultimately show ?case using Cons.IH [OF n(2)] by (simp add: p c n(1))
qed simp

lemma example_axum_documented: "axum_documented example_axum example_encode"
  unfolding axum_documented_def
proof (intro conjI allI impI)
  fix pat p :: string
  assume "CHR '':'' \<notin> set pat"
  then have "split_once CHR '':'' pat = None" by (simp add: split_once_None_iff)
  then show "match_route example_axum pat p = (if p = pat then Some [] else None)"
    by (simp add: example_axum_def example_match_def)
next
  fix pre name p :: string
  assume "CHR '':'' \<notin> set pre" and none: "strip_prefix pre p = None"
  then have "split_once CHR '':'' (pre @ CHR '':'' # name) = Some (pre, name)" by (simp add: split_once_Some_iff)
  with none show "match_route example_axum (pre @ CHR '':'' # name) p = None"
    by (simp add: example_axum_def example_match_def)
next
  fix pre name seg :: string
  assume "CHR '':'' \<notin> set pre" and seg: "plain_segment seg"
  then have "split_once CHR '':'' (pre @ CHR '':'' # name) = Some (pre, name)" by (simp add: split_once_Some_iff)
  with seg show "match_route example_axum (pre @ CHR '':'' # name) (pre @ seg) = Some [seg]"
    by (simp add: example_axum_def example_match_def)
qed (simp_all add: example_axum_def example_decode_encode)

lemma example_base: "base_url example_resolve ''http://localhost:8080''"
proof -
  have "strip_prefix ''http://localhost:8080'' (''http://localhost:8080'' @ q) = Some q" for q
    by (rule strip_prefix_append)
  then show ?thesis by (simp only: base_url_def example_resolve_def) simp
qed


definition plain_backend :: backend_state where
  "plain_backend = \<lparr>storage = \<lparr>tables = \<lparr>schema = Some request_columns,
       forwarding_requests = [example_request ''celestia1q'']\<rparr>, sql_fault = (\<lambda>_. None), sql_count = 0\<rparr>,
     metrics_enabled = False, metrics_log = []\<rparr>"


theorem trailing_slash_starves_relayer_witness:
  "fst (maintenance_tick (wired example_resolve example_axum example_crypto tally_chrono 3
     (example_config\<lparr>backend_url := ''http://localhost:8080/''\<rparr>)) tally_chrono 3 (example_relayer, plain_backend)) = []"
proof -
  have "backend_url (example_config\<lparr>backend_url := ''http://localhost:8080/''\<rparr>) = ''http://localhost:8080'' @ ''/''"
    by simp
  from trailing_slash_starves_relayer [OF example_axum_documented example_base this] show ?thesis by simp
qed

end
