(* ===== verification/Metrics.thy ===== *)
theory Metrics
  imports Tests
begin

text \<open>
  The backend's metrics as a reader of the exporter sees them: the last value of a gauge and how often
  a counter was incremented, over the trace the operations of \<open>Backend\<close> leave; and the
  repository's test of the metrics endpoint (\<^verbatim>\<open>src/tests/integration_test.rs\<close>).
\<close>

section \<open>Reading the trace\<close>

fun gauge_of :: "string \<Rightarrow> metric \<Rightarrow> f64 option" where
  "gauge_of name (Gauge n _ v) = (if n = name then Some v else None)"
| "gauge_of name (Counter _ _ _) = None"

fun gauge_value :: "string \<Rightarrow> metric list \<Rightarrow> f64 option" where
  "gauge_value name [] = None"
| "gauge_value name (m # ms) = (case gauge_value name ms of Some v \<Rightarrow> Some v | None \<Rightarrow> gauge_of name m)"

definition counter_value :: "string \<Rightarrow> string \<Rightarrow> metric list \<Rightarrow> nat" where
  "counter_value name res ms = length (filter (\<lambda>l. l = res) (counted name ''result'' ms))"

lemma gauge_value_append [simp]:
  "gauge_value name (xs @ ys) = (case gauge_value name ys of Some v \<Rightarrow> Some v | None \<Rightarrow> gauge_value name xs)"
  by (induction xs) (auto split: option.splits)

lemma counter_value_simps [simp]:
  "counter_value name res [] = 0"
  "counter_value name res (m # ms)
     = (if counter_label name ''result'' m = Some res then 1 else 0) + counter_value name res ms"
  "counter_value name res (xs @ ys) = counter_value name res xs + counter_value name res ys"
  by (simp_all add: counter_value_def split: option.splits)

section \<open>What the handlers leave in it\<close>

definition pending_shown :: "backend_state \<Rightarrow> bool" where
  "pending_shown s \<longleftrightarrow> gauge_value ''pending_requests'' (metrics_log s) = Some (f64_of_int (int (length (rows s))))"

lemma emit_log [simp]: "metrics_log (emit m s) = metrics_log s @ [m]"
  by (simp add: emit_def)

lemma on_storage_log [simp]: "metrics_log (snd (on_storage m s)) = metrics_log s"
  by (simp add: on_storage_def split: prod.splits)

lemma count_result_log [simp]:
  "metrics_enabled s \<Longrightarrow> metrics_log (count_result name res s) = metrics_log s @ [Counter name [(''result'', res)] 1]"
  by (simp add: count_result_def)

lemma refresh_counters [simp]:
  "counter_value name res (metrics_log (snd (refresh_metrics ch now s))) = counter_value name res (metrics_log s)"
proof (cases "metrics_enabled s")
  case True
  obtain r s1 where 1: "on_storage pending_metrics_snapshot s = (r, s1)" by fastforce
  then have "metrics_log s1 = metrics_log s" by (metis on_storage_log snd_conv)
  with True 1 show ?thesis
    by (cases r) (simp_all add: refresh_metrics_def bind_io_def update_pending_request_metrics_def Let_def
        split: sum.splits)
qed (simp add: refresh_metrics_def)

lemma refresh_enabled [simp]: "metrics_enabled (snd (refresh_metrics ch now s)) = metrics_enabled s"
  by (auto simp: refresh_metrics_def bind_io_def on_storage_def update_pending_request_metrics_def Let_def
      backend_simps split: prod.splits sum.splits)

lemma refresh_shows_pending:
  assumes "metrics_enabled s" and "sql_healthy (storage s)"
  shows "pending_shown (snd (refresh_metrics ch now s))"
  using assms
  by (simp add: pending_shown_def refresh_metrics_def bind_io_def on_storage_def pending_metrics_snapshot_def
      context_io_def sql_query_healthy return_io_def update_pending_request_metrics_def Let_def backend_simps
      split: sum.splits)


definition account :: "nat \<Rightarrow> backend_state \<Rightarrow> bool" where
  "account n s \<longleftrightarrow>
     n + counter_value ''requests_created_total'' ''created'' (metrics_log s)
     = length (rows s) + counter_value ''requests_completed_total'' ''removed'' (metrics_log s)"

text \<open>What a handler does to the registry and says in the trace, with a working database.\<close>

lemma pending_shown_counted:
  assumes "pending_shown s" and "metrics_enabled s1" and "metrics_log s1 = metrics_log s" and "tables (storage s1) = tables (storage s)"
  shows "pending_shown (count_result name res s1)"
  using assms by (simp add: pending_shown_def backend_simps)

lemma refreshed_shown:
  assumes "refresh_metrics ch now t = (r, s')" and "metrics_enabled t" and "sql_healthy (storage t)" and "account n t"
  shows "metrics_enabled s' \<and> pending_shown s' \<and> account n s'"
  using assms refresh_shows_pending [OF assms(2,3), of ch now] refresh_enabled [of ch now t]
    refresh_metrics_tables [of ch now t] refresh_counters [of _ _ ch now t]
  by (simp add: account_def)

lemma create_request_shown:
  assumes "create_request cr ch now now' req s = ((code, body), s')"
    and "metrics_enabled s" and "sql_healthy (storage s)" and "pending_shown s" and "account n s"
  shows "metrics_enabled s' \<and> pending_shown s' \<and> account n s'"
proof -
  obtain r s1 where op: "on_storage (storage_create_request (to_rfc3339 ch now) req) s = (r, s1)" by fastforce
  have log: "metrics_log s1 = metrics_log s" "metrics_enabled s1" using op assms(2) on_storage_log on_storage_frame(3)
    by (metis snd_conv)+
  have healthy: "sql_healthy (storage s1)"
    using on_storage_fault [OF keeps_fault_storage(1) op] assms(3) by (simp add: sql_healthy_def)
  have refused: ?thesis if "derive_created cr req \<noteq> Inr (c_forward_addr req)"
    using that assms pending_shown_counted [OF assms(4,2)]
    by (auto simp: create_request_def account_def backend_simps split: sum.splits if_splits)
  show ?thesis
  proof (cases "derive_created cr req = Inr (c_forward_addr req)")
    case True
    obtain c where c: "storage_create_request (to_rfc3339 ch now) req (storage s) = (r, c)" "s1 = s\<lparr>storage := c\<rparr>"
      using op by (auto simp: on_storage_iff)
    from c(1) show ?thesis
    proof (cases rule: storage_create_cases)
      case (failed e)
      with assms op c log True pending_shown_counted [OF assms(4) log(2,1)] show ?thesis
        by (auto simp: create_request_def account_def backend_simps)
    next
      case (existing rq)
      with assms op c log healthy True show ?thesis
        by (auto simp: create_request_def backend_simps split: prod.splits dest!: refreshed_shown [where n = n])
          (auto simp: account_def backend_simps)
    next
      case inserted
      with assms op c log healthy True show ?thesis
        by (auto simp: create_request_def backend_simps split: prod.splits dest!: refreshed_shown [where n = n])
          (auto simp: account_def backend_simps)
    qed
  qed (rule refused)
qed


lemma length_tbl_delete:
  "tbl_wf key t \<Longrightarrow> tbl_get key t k = Some r \<Longrightarrow> Suc (length (tbl_delete key k t)) = length t"
proof (induction t)
  case (Cons x t)
  then show ?case
    using tbl_delete_absent [of key t k] tbl_get_None_iff [of key t k]
    by (auto simp: tbl_get_def tbl_delete_def split: if_splits)
qed simp

lemma complete_request_shown:
  assumes "complete_request ch now addr s = ((code, body), s')" and "tbl_wf forward_addr (rows s)"
    and "metrics_enabled s" and "sql_healthy (storage s)" and "pending_shown s" and "account n s"
  shows "metrics_enabled s' \<and> pending_shown s' \<and> account n s'"
proof -
  obtain r c where c: "storage_remove_by_addr addr (storage s) = (r, c)" by fastforce
  then have op: "on_storage (storage_remove_by_addr addr) s = (r, s\<lparr>storage := c\<rparr>)" by (simp add: on_storage_def)
  have healthy: "sql_healthy c"
    using on_storage_fault [OF keeps_fault_storage(5) op] assms(4) by (simp add: sql_healthy_def)
  have kept: "metrics_enabled (count_result name res (s\<lparr>storage := c\<rparr>)) \<and> pending_shown (count_result name res (s\<lparr>storage := c\<rparr>))"
    if "tables c = tables (storage s)" for name res
    using pending_shown_counted [OF assms(5), of "s\<lparr>storage := c\<rparr>"] assms(3) that by (simp add: backend_simps)
  from c show ?thesis
  proof (cases rule: storage_remove_cases)
    case (failed e)
    with assms op kept show ?thesis
      by (auto simp: complete_request_def account_def backend_simps)
  next
    case absent
    with assms op kept show ?thesis
      by (auto simp: complete_request_def account_def backend_simps)
  next
    case (removed rq)
    have "Suc (length (tbl_delete forward_addr addr (rows s))) = length (rows s)"
      using length_tbl_delete [OF assms(2) removed(2)] .
    with removed assms op healthy show ?thesis
      by (auto simp: complete_request_def backend_simps split: prod.splits dest!: refreshed_shown [where n = n])
        (auto simp: account_def backend_simps)
  qed
qed

lemma quiet_shown:
  assumes "metrics_log s' = metrics_log s" and "tables (storage s') = tables (storage s)"
    and "metrics_enabled s' = metrics_enabled s"
    and "metrics_enabled s" and "pending_shown s" and "account n s"
  shows "metrics_enabled s' \<and> pending_shown s' \<and> account n s'"
  using assms by (simp add: pending_shown_def account_def)

lemma serve_shown:
  assumes "serve cr ch now now' req s = (resp, s')" and "registry_ok cr s"
    and "metrics_enabled s" and "sql_healthy (storage s)" and "pending_shown s" and "account n s"
  shows "metrics_enabled s' \<and> pending_shown s' \<and> account n s'"
proof (cases req)
  case (PostForwardingRequests r)
  obtain code body where "resp = (code, body)" by fastforce
  with PostForwardingRequests assms(1) have "create_request cr ch now now' r s = ((code, body), s')" by simp
  from create_request_shown [OF this assms(3-6)] show ?thesis .
next
  case (DeleteForwardingRequest addr)
  obtain code body where "resp = (code, body)" by fastforce
  with DeleteForwardingRequest assms(1) have "complete_request ch now' addr s = ((code, body), s')" by simp
  from complete_request_shown [OF this _ assms(3-6)] assms(2) show ?thesis by (simp add: registry_ok_def)
next
  case GetHealth
  with assms(1) have "s' = snd (on_storage storage_health_check s)"
    by (auto simp: health_def split: prod.splits sum.splits)
  then show ?thesis
    by (intro quiet_shown [OF _ _ _ assms(3,5,6)]) (simp_all add: backend_simps)
next
  case GetForwardingRequests
  with assms(1) have "s' = snd (on_storage storage_list_requests s)"
    by (auto simp: list_requests_def split: prod.splits sum.splits)
  then show ?thesis
    by (intro quiet_shown [OF _ _ _ assms(3,5,6)]) (simp_all add: backend_simps)
qed (use assms in simp)

lemma serve_all_shown:
  "serve_all cr ch reqs s = (resps, s') \<Longrightarrow> registry_ok cr s \<Longrightarrow> metrics_enabled s \<Longrightarrow> sql_healthy (storage s)
     \<Longrightarrow> pending_shown s \<Longrightarrow> account n s \<Longrightarrow> pending_shown s' \<and> account n s'"
proof (induction reqs arbitrary: s resps)
  case (Cons q reqs)
  obtain now now' req where q: "q = (now, now', req)" by (cases q)
  obtain resp s1 where 1: "serve cr ch now now' req s = (resp, s1)" by fastforce
  note shown = serve_shown [OF 1 Cons.prems(2-6)]
  have "registry_ok cr s1" using serve_registry_ok [OF Cons.prems(2), of ch now now' req] 1 by simp
  moreover have "sql_healthy (storage s1)"
    using serve_fault [of cr ch now now' req s] 1 Cons.prems(4) by (simp add: sql_healthy_def)
  ultimately show ?case
    using Cons.IH [of s1] Cons.prems(1) shown 1 by (auto simp: q split: prod.splits)
qed simp

text \<open>C8: the backend's metrics tell the truth about its registry. A server with metrics on a working
  database refreshes them once and then serves any requests: afterwards the gauge
  \<^verbatim>\<open>pending_requests\<close> is the number of requests in the registry, and the counters of creations and
  removals account for every request that was there, came or went.\<close>

theorem metrics_account_for_registry:
  assumes "registry_ok cr s" and "sql_healthy (storage s)" and "metrics_enabled s" and "metrics_log s = []"
    and "refresh_metrics ch now s = (r, s0)" and "serve_all cr ch reqs s0 = (resps, s')"
  shows "gauge_value ''pending_requests'' (metrics_log s') = Some (f64_of_int (int (length (rows s'))))
    \<and> length (rows s) + counter_value ''requests_created_total'' ''created'' (metrics_log s')
      = length (rows s') + counter_value ''requests_completed_total'' ''removed'' (metrics_log s')"
proof -
  have "account (length (rows s)) s" by (simp add: account_def assms(4))
  note shown = refreshed_shown [OF assms(5,3,2) this]
  have "tables (storage s0) = tables (storage s)" using refresh_metrics_tables [of ch now s] assms(5) by simp
  then have "registry_ok cr s0" using assms(1) by (simp add: registry_ok_def)
  moreover have "sql_healthy (storage s0)"
    using refresh_metrics_fault [of ch now s] assms(2,5) by (simp add: sql_healthy_def)
  ultimately show ?thesis
    using serve_all_shown [OF assms(6), of "length (rows s)"] shown by (simp add: pending_shown_def account_def)
qed


text \<open>A registration, its repetition, and a deletion of an address that is not there.\<close>

definition example_traffic :: "(int \<times> int \<times> http_request) list" where
  "example_traffic = [(1, 1, PostForwardingRequests example_post), (2, 2, PostForwardingRequests example_post),
     (3, 3, DeleteForwardingRequest ''celestia1other'')]"

theorem metrics_account_for_registry_witness:
  "\<exists>s'. snd (serve_all example_crypto tally_chrono example_traffic (snd (refresh_metrics tally_chrono 0 idle_backend))) = s'
    \<and> gauge_value ''pending_requests'' (metrics_log s') = Some (f64_of_int 1)
    \<and> counter_value ''requests_created_total'' ''created'' (metrics_log s')
      = 1 + counter_value ''requests_completed_total'' ''removed'' (metrics_log s')"
proof -
  obtain r s0 where s0: "refresh_metrics tally_chrono 0 idle_backend = (r, s0)" by fastforce
  obtain resps s' where s': "serve_all example_crypto tally_chrono example_traffic s0 = (resps, s')" by fastforce
  have "length (rows (snd (serve_all example_crypto tally_chrono example_traffic
      (snd (refresh_metrics tally_chrono 0 idle_backend))))) = 1"
    by code_simp
  then have "length (rows s') = 1" by (simp add: s0 s')
  moreover have "registry_ok example_crypto idle_backend" "sql_healthy (storage idle_backend)"
    "metrics_enabled idle_backend" "metrics_log idle_backend = []" "length (rows idle_backend) = 0"
    by (simp_all add: idle_backend_def registry_ok_def sql_healthy_def)
  ultimately show ?thesis
    using metrics_account_for_registry [of example_crypto idle_backend tally_chrono 0 r s0 example_traffic resps s']
    by (simp add: s0 s')
qed

section \<open>The test of the metrics endpoint\<close>

text \<open>
  The values the test reads off the rendered metrics, after a creation and after the deletion; when
  metrics are disabled nothing is recorded.
\<close>

definition metrics_backend :: "bool \<Rightarrow> backend_state result" where
  "metrics_backend enabled =
     backend_state_new
       (backend_storage_new (\<lambda>_. Inr ()) (\<lambda>_. Inr fresh_database) (Some ''storage'')
          ''storage/test_backend_3004.db'') enabled"

definition METRICS_RECIPIENT :: string where
  "METRICS_RECIPIENT = ''0x000000000000000000000000f39Fd6e51aad88F6F4ce6aB8827279cffFb92266''"

definition metrics_post :: "string \<Rightarrow> create_forwarding_request" where
  "metrics_post addr =
     \<lparr>c_forward_addr = addr, c_dest_domain = 1234, c_dest_recipient = METRICS_RECIPIENT, c_token_id = TOKEN_A,
      c_custom_hook_id = None, c_custom_hook_metadata = None\<rparr>"

definition test_backend_metrics_endpoint :: "chrono \<Rightarrow> int \<Rightarrow> int \<Rightarrow> bool" where
  "test_backend_metrics_endpoint ch now now' \<longleftrightarrow>
     (case (derive_forwarding_address standard_crypto 1234 METRICS_RECIPIENT TOKEN_A None None, metrics_backend True) of
        (Inr addr, Inr s0) \<Rightarrow>
          (case serve standard_crypto ch now now' (PostForwardingRequests (metrics_post addr))
                  (snd (refresh_metrics ch now s0)) of
             ((code1, _), s1) \<Rightarrow>
               code1 = 201
               \<and> gauge_value ''pending_requests'' (metrics_log s1) = Some (f64_of_int 1)
               \<and> counter_value ''requests_created_total'' ''created'' (metrics_log s1) = 1
               \<and> gauge_value ''oldest_pending_request_age_seconds'' (metrics_log s1) \<noteq> None
               \<and> (case serve standard_crypto ch now now' (DeleteForwardingRequest addr) s1 of
                    ((code2, _), s2) \<Rightarrow>
                      code2 = 200
                      \<and> gauge_value ''pending_requests'' (metrics_log s2) = Some (f64_of_int 0)
                      \<and> counter_value ''requests_completed_total'' ''removed'' (metrics_log s2) = 1
                      \<and> gauge_value ''oldest_pending_request_age_seconds'' (metrics_log s2) = Some (f64_of_int 0)))
      | _ \<Rightarrow> False)"

lemma metrics_address:
  "derive_forwarding_address standard_crypto 1234 METRICS_RECIPIENT TOKEN_A None None
   = Inr ''celestia1hw3rfssdvyxmun4mqx8n9w9ykt7auexmpkzezc''"
  by code_simp

lemma metrics_backend_eq:
  "metrics_backend enabled = Inr
     \<lparr>storage = \<lparr>tables = \<lparr>schema = Some request_columns, forwarding_requests = []\<rparr>,
        sql_fault = (\<lambda>_. None), sql_count = 6\<rparr>,
      metrics_enabled = enabled, metrics_log = []\<rparr>"
  by (simp add: metrics_backend_def fresh_database_def backend_state_new_def backend_storage_new_def
      backend_storage_init_def migrate_column_def add_column_def create_requests_table_def
      request_columns_def storage_list_requests_def ordered_requests_def contains_str_def
      io_defs with_context_def)

lemma metrics_endpoint_test: "test_backend_metrics_endpoint ch now now'"
  by (simp add: test_backend_metrics_endpoint_def metrics_address metrics_backend_eq on_storage_def io_defs
      Let_def refresh_metrics_def count_result_def create_request_def derive_created_def metrics_post_def
      storage_create_request_def insert_request_def request_of_def tbl_insert_ignore_def tbl_get_def
      complete_request_def storage_remove_by_addr_def tbl_delete_def pending_metrics_snapshot_def
      min_created_at_def update_pending_request_metrics_def oldest_pending_request_age_seconds_def emit_def
      split: option.splits)

end
