(* ===== verification/Spec2Isabelle.thy ===== *)
theory Spec2Isabelle
  imports Program Tests Grpc Pool Json Config Http Metrics
begin

text \<open>
  A model of the Celestia forwarding relayer, \<^verbatim>\<open>src/src\<close>, and of what makes it correct.

  The program. A client registers with the backend (\<^verbatim>\<open>backend.rs\<close>) an address it has derived
  from a destination domain, recipient, token and hook (\<^verbatim>\<open>lib.rs\<close>). The relayer
  (\<^verbatim>\<open>relayer.rs\<close>) keeps the pending addresses as its live list, watches the chain for deposits to
  them (\<^verbatim>\<open>scanner.rs\<close>) and submits for each a \<^verbatim>\<open>MsgForward\<close> through a pool of gRPC endpoints
  (\<^verbatim>\<open>client.rs\<close>, \<^verbatim>\<open>auth.rs\<close>). Addresses to try travel through one bounded queue: the scanner, the
  maintenance ticker and the balance poll send, a dispatcher receives and spawns workers.
  Backoff, activity and the scan height are kept in SQLite, so that a restart resumes.

  The theories, bottom up.

  \<^item> \<open>Prelude\<close>: results (\<open>Inl\<close> is an error), strings as character lists with the trimming,
    splitting and printing operations of \<^verbatim>\<open>str\<close>, saturating arithmetic, hash maps as association
    lists (only the map they represent matters: iteration order is the insertion order), and
    the locale of keyed stores.
  \<^item> \<open>Sql\<close>: a connection whose n-th statement may fail (\<open>sql_fault\<close>), statements as functions
    on tables, tables with a primary key. \<open>sql_healthy\<close>: no statement fails.
  \<^item> \<open>F64\<close>: binary64 numbers as far as the fee computation needs them: rounding to nearest
    even, \<^verbatim>\<open>str::parse\<close>, multiplication, \<^verbatim>\<open>as u64\<close>. \<open>Types\<close>: requests, balances, metrics.
  \<^item> \<open>Auth\<close>: \<^verbatim>\<open>auth.rs\<close>. \<open>Address\<close>: \<^verbatim>\<open>lib.rs\<close>, the derivations, over the record \<open>crypto\<close> of the
    library functions (hex, SHA-256, bech32).
  \<^item> \<open>Retry_Store\<close>: \<^verbatim>\<open>RetryStore\<close> of \<^verbatim>\<open>relayer.rs\<close>; \<open>chrono\<close> stands for RFC 3339 printing and
    parsing.
  \<^item> \<open>Backend\<close>: \<^verbatim>\<open>backend.rs\<close>: schema and migration, storage operations, handlers, router.
  \<^item> \<open>Failover\<close>, \<open>Client\<close>: \<^verbatim>\<open>client.rs\<close>. The nodes are the record \<open>grpc_env\<close>. \<open>Pool\<close>: its calls cut at
    their awaits, for tasks that share the client.
  \<^item> \<open>Wire\<close>, \<open>Grpc\<close>: \<^verbatim>\<open>proto/\<close>: the protobuf messages with their encoding, and the generated stubs
    of clients and servers over the records \<open>tonic_client\<close>, \<open>tonic_server\<close> and \<open>tonic_link\<close> of what
    tonic does. \<open>Json\<close>: the JSON of the HTTP interface, as the derived serde implementations
    write and accept it.
  \<^item> \<open>Relayer\<close>: \<^verbatim>\<open>RelayerState\<close>, \<^verbatim>\<open>Relayer::new\<close>, \<^verbatim>\<open>forward_address\<close>, \<^verbatim>\<open>resolve_max_igp_fee\<close>.
    \<open>Maintenance\<close>: \<^verbatim>\<open>retirement_reason\<close>, \<^verbatim>\<open>maintenance_tick\<close>, the balance poll.
    \<open>Steps\<close>: a forward and a tick cut at their awaits, with the proof that the pieces in a row are
    the functions.
  \<^item> \<open>Events\<close>, \<open>Scanner\<close>: \<^verbatim>\<open>scanner.rs\<close>. The RPC nodes are the record \<open>rpc_env\<close>, given anew for
    every part of a session.
  \<^item> \<open>Dispatcher\<close>: \<^verbatim>\<open>Relayer::run\<close> and \<^verbatim>\<open>run_dispatcher\<close> as a labelled step relation that
    interleaves producers, dispatcher and workers; \<open>World\<close> adds the backend and its clients.
  \<^item> \<open>Program\<close>: \<^verbatim>\<open>main.rs\<close> and \<^verbatim>\<open>metrics.rs\<close>: the subcommands, over the record \<open>host\<close> of all
    libraries, and the metrics exporter with concurrent callers. \<open>Config\<close>: the arguments of the
    command line with their environment variables and defaults, the typed configurations, and
    \<^verbatim>\<open>main\<close>, over the record \<open>clap\<close>. \<open>Http\<close>: the backend's routes and query, the relayer's URLs, over
    the record \<open>axum\<close>.
  \<^item> \<open>Standards\<close>: SHA-256 and bech32 computed as their standards define them, an instance of
    \<open>crypto\<close>. \<open>Tests\<close>: the repository's own tests, run on the model. \<open>Metrics\<close>: the backend's gauges
    and counters as a reader sees them.

  What is shown. Addresses commit to everything they are derived from (\<open>Address\<close>); the
  backend's handlers implement a map of pending requests whatever statement fails, and the
  registry holds only rows whose address is derived from their columns (\<open>Backend\<close>); queries
  fail over to the first working endpoint, failing submissions visit the whole pool
  (\<open>Client\<close>); a forward counts one outcome, which determines backoff and submissions, and
  the fee cap covers the quote (\<open>Relayer\<close>); memory and disk agree after every step, so that
  a restart resumes (\<open>mirrored\<close> in \<open>Relayer\<close>, \<open>Maintenance\<close>, \<open>Dispatcher\<close>); the scanner accounts
  for every height and skips only what the nodes prove gone (\<open>Scanner\<close>); no address is
  forwarded twice at a time, no trigger is lost, nothing deadlocks (\<open>Dispatcher\<close>, from the
  locale \<open>draining\<close> of systems whose work decreases); and here, that relayer and backend
  agree after a tick, that what is submitted matches its address, and that a registered
  address gets its forward, also when the relayer stops at any point and is started again;
  \<open>Program\<close> shows that the programs as \<^verbatim>\<open>main\<close> starts them satisfy what these theorems
  assume of the initial state, and \<open>Config\<close> that this is so from the command line on: every option is
  read from either of its sources, a mistaken one starts nothing. That the parts fit together at their boundaries is shown too:
  the derivation computes the addresses that celestia-app's Go implementation gives (\<open>Tests\<close>);
  protobuf messages are read back as written, by older and newer readers (\<open>Wire\<close>), a stub calls
  the handler of its name and the fee query asks the nodes (\<open>Grpc\<close>), concurrent calls on the
  pool answer as they do alone (\<open>Pool\<close>), requests cross the HTTP interface unchanged
  (\<open>Json\<close>) and reach their handlers, so that a tick over URLs and routes is a tick on the handlers
  (\<open>Http\<close>), and the backend's metrics account for its registry (\<open>Metrics\<close>). The locales are interfaces: \<open>keyed_store\<close>, \<open>cursor_store\<close>, \<open>registry\<close>,
  \<open>endpoint_pool\<close>, \<open>draining\<close>, \<open>message_codec\<close>, \<open>unary_codec\<close>, each interpreted on the model's own
  definitions.

  What the model shows to be wrong or surprising is stated as theorems too: a configured
  \<^verbatim>\<open>CUSTOM_IGP_HOOK\<close> breaks requests without a hook; a fee outage submits a fee of zero; the
  fee cache ignores the hook; a long token id aliases a bound address; limits of \<open>2 ^ 63\<close>
  seconds retire everything; a persisted height that cannot be read is overwritten by the tip
  of the chain, and a scanner that finds neither a height nor a node at its start is gone; a fee
  buffer that is not a number is accepted; a slash at the end of \<^verbatim>\<open>BACKEND_URL\<close> cuts the relayer off.

  Bounds. Heights and limits are \<open>u64\<close>; the theorems about the scanner and the stored height
  assume heights below \<open>2 ^ 63\<close>, the range of SQLite's integers and of tendermint's heights.
  Instants are integers in nanoseconds; \<open>clock_ok\<close> says that they and an hour later print as
  RFC 3339. There is no fuel: \<open>scan_to\<close> terminates by the distance to its target, the loops
  of the tasks are lists of rounds or runs of steps. A protobuf message is parsed with as many
  rounds as it has bytes, each field taking one at least; lengths fit 64 bits. The theorems
  about the stubs are for messages of at most 4 MB, tonic's default limit.

  Not modelled. Logging; sleeps (a task may take its next step at any time); the text the
  Prometheus library renders, how \<^verbatim>\<open>clap\<close> takes a command line apart (its documentation is a
  hypothesis, \<open>clap_documented\<close>; so is axum's, \<open>axum_documented\<close>) and the text of JSON values; the
  tests that exercise only these libraries or sockets, and the end-to-end driver; the order in which
  a Rust hash map is iterated; shutdown. In the system of \<open>Dispatcher\<close> a call of the client is
  one step; \<open>Pool\<close> shows that its inner awaits change no answer but the endpoint a query starts
  from. The interleaving is as fine as the
  awaits: a forward is cut into four pieces and a tick into its listing, one piece per
  request to retire, the swap of the live list and the due retries (\<open>Steps\<close>). What a piece does
  between two awaits, its lock sections included, is one step, and so is an await with what
  it waits for (a reply is computed when it is used).
\<close>

section \<open>Backend and relayer agree\<close>

text \<open>C23: on a working database a maintenance tick brings the two programs together: afterwards the
  relayer's live list is exactly the backend's registry, which has lost the expired
  requests and nothing else.\<close>

theorem tick_syncs_registry:
  assumes "maintenance_tick (over_http cr ch t) ch now (s, b) = (sent, s', b')"
    and "registry_ok cr b" and "sql_healthy (storage b)"
  shows "map_of (live s') = reg b'
    \<and> reg b' = (\<lambda>a. case reg b a of None \<Rightarrow> None
        | Some r \<Rightarrow>
            if retirement_reason ch (created_at r) (map_of (last_activity s) a) now
                (max_request_age_seconds (config s)) (max_address_inactivity_seconds (config s)) = None
            then Some r else None)"
  using assms by (rule tick_sync)

text \<open>C3: no message is submitted that the chain must refuse. Whatever clients register and whatever
  the relayer's tasks do, in any interleaving, with a backend that answers or does not:
  without a configured \<^verbatim>\<open>CUSTOM_IGP_HOOK\<close> the fields of every message ever submitted derive
  the very address it forwards.\<close>

theorem submissions_match_their_address:
  assumes "run (world_step cr ch) (run_relayer r b) acts s"
    and "registry_ok cr b" and "live r = []" and "client_ok (celestia r)"
    and "submissions (celestia r) = []" and "custom_igp_hook (config r) = None"
  shows "\<forall>(url, m) \<in> set (submissions (celestia (shared s))).
    derive_forwarding_address cr (mf_dest_domain m) (mf_dest_recipient m) (mf_token_id m)
      (Some (mf_custom_hook_id m)) (Some (mf_custom_hook_metadata m)) = Inr (mf_forward_addr m)"
  using world_ok_run [OF assms(1) world_ok_init [OF assms(2-5)]] assms(6)
  by (force simp: world_ok_def message_ok_def)

lemma parse_hook_nonzero: "parse_hook cr h = Inr (Some hb) \<Longrightarrow> hb \<noteq> replicate 32 0"
  by (auto simp: parse_hook_def split: option.splits sum.splits if_splits)

lemma commitment_hook_differs:
  assumes "commitment cr d r t None m = Some c" and "commitment cr d r t (Some h) m = Some c'"
    and "parse_hook cr (Some h) = Inr (Some hb)"
  shows "c \<noteq> c' \<and> fst (snd (snd c')) = fst (snd (snd c))"
  using assms parse_hook_nonzero [OF assms(3)]
  by (auto simp: commitment_def hook_pair_def parse_hook_def [of cr None] split: sum.splits option.splits)

text \<open>C26: with \<^verbatim>\<open>CUSTOM_IGP_HOOK\<close> set that fails for every request registered without a hook: the
  message names the configured hook while the address commits to the default one, so its
  fields derive another address, unless SHA-256 collides.\<close>

theorem fallback_hook_breaks_commitment:
  assumes "hm_get (live s) a = Some rq" and "forward_addr rq = a" and "row_valid cr rq"
    and "custom_hook_id rq = None" and "custom_igp_hook (config s) = Some h"
    and "parse_hook cr (Some h) = Inr (Some hb)"
    and "commitment cr (dest_domain rq) (dest_recipient rq) (token_id rq) None (custom_hook_metadata rq)
      = Some c"
    and "commitment cr (dest_domain rq) (dest_recipient rq) (token_id rq) (Some h)
      (custom_hook_metadata rq) = Some c'"
    and "length (fst (snd (snd c))) = 32"
    and "collision_free cr (preimage c) (preimage c')" and "bech32_injective cr"
    and "client_ok (celestia s)"
    and "submissions (celestia (forward_address env ch clk a s)) = submissions (celestia s) @ [(url, m)]"
  shows "mf_forward_addr m = a
    \<and> derive_forwarding_address cr (mf_dest_domain m) (mf_dest_recipient m) (mf_token_id m)
        (Some (mf_custom_hook_id m)) (Some (mf_custom_hook_metadata m)) \<noteq> Inr a"
proof -
  from forward_submission [OF assms(12,13)] assms(1,4,5) have m: "mf_forward_addr m = a"
    "mf_dest_domain m = dest_domain rq" "mf_dest_recipient m = dest_recipient rq"
    "mf_token_id m = token_id rq" "mf_custom_hook_id m = unwrap_or_default (Some h)"
    "mf_custom_hook_metadata m = unwrap_or_default (custom_hook_metadata rq)"
    by (auto simp: hook_binding_of_def)
  note differs = commitment_hook_differs [OF assms(7,8,6)]
  have "derive_forwarding_address cr (dest_domain rq) (dest_recipient rq) (token_id rq) (Some h)
      (custom_hook_metadata rq) \<noteq> Inr a"
  proof
    assume "derive_forwarding_address cr (dest_domain rq) (dest_recipient rq) (token_id rq) (Some h)
      (custom_hook_metadata rq) = Inr a"
    then have "address_of_preimage cr (preimage c') = Inr a" using assms(8) by (simp add: derive_commitment)
    moreover have "address_of_preimage cr (preimage c) = Inr a"
      using assms(2,3,4,7) by (simp add: row_valid_def derive_commitment)
    ultimately have "preimage c = preimage c'"
      using address_of_preimage_inject [OF assms(10,11)] by blast
    with commitment_wf [OF assms(7)] commitment_wf [OF assms(8)] assms(9) differs show False
      using preimage_inject [of c c'] by simp
  qed
  then show ?thesis unfolding m derive_unwrap by simp
qed

text \<open>C11: a registered address gets its forward. An address that is pending at the backend, not
  expired and not yet known to the relayer is attempted: after the next tick that reaches
  the backend, whatever else happens, by the time the relayer is idle.\<close>

theorem registered_address_is_attempted:
  assumes "run (world_step cr ch) (run_relayer r b) acts s"
    and "registry_ok cr b" and "live r = []" and "client_ok (celestia r)" and "submissions (celestia r) = []"
    and "reg (backend s) a = Some rq" and "hm_get (live (shared s)) a = None"
    and "sql_healthy (storage (backend s))"
    and "retirement_reason ch (created_at rq) (hm_get (last_activity (shared s)) a) now
      (max_request_age_seconds (config r)) (max_address_inactivity_seconds (config r)) = None"
    and "world_step cr ch s (RelayerStep (Some t) (Ticked now)) s1"
    and "run (world_step cr ch) s1 acts' s'" and "system_idle s'"
  shows "\<exists>act \<in> set acts'. world_attempts act a"
proof -
  have "world_ok cr (config r) s" using world_ok_run [OF assms(1) world_ok_init [OF assms(2-5)]] .
  then have "owed s1 a"
    using ticked_owes [OF assms(10) _ assms(8,6,7)] assms(9) by (simp add: world_ok_def)
  with owed_world [OF assms(11) system_ok_world_step [OF assms(10) system_ok_world [OF assms(1) system_ok_init]]]
  show ?thesis using dispatcher.idle_owes [OF assms(12)] by blast
qed


text \<open>C14: no crash strands a registered address. Let the relayer run from any sound database, with
  the backend and its clients, and stop at any point, triggers still queued and forwards half
  done; start it again on what it left on disk. After its first tick that reaches the backend,
  an address that is registered and whose last activity, as it was before the crash, has not
  expired is attempted by the time the relayer is idle.\<close>

theorem registered_address_survives_crash:
  assumes "relayer_new ch conf (Inr cl) (Inr c) = Inr r" and "sql_healthy c" and "store_wf (tables c)"
    and "client_ok cl" and "chrono_roundtrip ch" and "registry_ok cr b" and "sql_healthy (storage b)"
    and "run (world_step cr ch) (run_relayer r b) acts s" and "list_all world_clock_ok acts"
    and "relayer_new ch conf' (Inr cl') (Inr (store (shared s))) = Inr r'" and "client_ok cl'"
    and "reg (backend s) a = Some rq"
    and "retirement_reason ch (created_at rq) (hm_get (last_activity (shared s)) a) now
      (max_request_age_seconds conf') (max_address_inactivity_seconds conf') = None"
    and "world_step cr ch (run_relayer r' (backend s)) (RelayerStep (Some t) (Ticked now)) s1"
    and "run (world_step cr ch) s1 acts' s'" and "system_idle s'"
  shows "\<exists>act \<in> set acts'. world_attempts act a"
proof -
  have "relayer_ok ch (shared (run_relayer r b))"
    using relayer_new_loads [OF assms(1-4)] by (simp add: run_relayer_def)
  from relayer_ok_world_run [OF assms(8) this assms(5,9)] have m: "mirrored ch (shared s)"
    by (simp add: relayer_ok_def)
  then have store: "sql_healthy (store (shared s))" "store_wf (tables (store (shared s)))"
    by (simp_all add: mirrored_def)
  have activity: "map_of (last_activity r') = map_of (last_activity (shared s))"
    using relayer_new_loads [OF assms(10) store assms(11)] m by (simp add: mirrored_def)
  have r': "live r' = []" "config r' = conf'"
    using assms(10) by (auto simp: relayer_new_def Let_def split: prod.splits)
  have "registry_ok cr (backend s) \<and> sql_healthy (storage (backend s))"
    using world_backend_ok_run [OF assms(8)] assms(6,7) by (simp add: run_relayer_def)
  then have "owed s1 a"
    using ticked_owes [OF assms(14), of a rq] assms(12,13) r' activity by (simp add: run_relayer_def)
  with owed_world [OF assms(15) system_ok_world_step [OF assms(14) system_ok_init]]
  show ?thesis using dispatcher.idle_owes [OF assms(16)] by blast
qed

section \<open>Examples\<close>

definition empty_backend :: backend_state where
  "empty_backend = \<lparr>storage = \<lparr>tables = \<lparr>schema = Some request_columns, forwarding_requests = []\<rparr>,
       sql_fault = (\<lambda>_. None), sql_count = 0\<rparr>, metrics_enabled = False, metrics_log = []\<rparr>"

definition fresh_relayer :: relayer_state where
  "fresh_relayer = example_relayer\<lparr>live := []\<rparr>"

definition forward_actions :: "string \<Rightarrow> world_action list" where
  "forward_actions a = map (RelayerStep None) ([TickOn, Send Maintenance, Accept, Spawn]
     @ example_pieces a (request_of example_post ''|'') @ [Finish a, Release a False])"

definition example_addr :: string where
  "example_addr = c_forward_addr example_post"

definition one_backend :: backend_state where
  "one_backend = empty_backend\<lparr>storage := (storage empty_backend)\<lparr>tables :=
     \<lparr>schema = Some request_columns, forwarding_requests = [request_of example_post ''|'']\<rparr>\<rparr>\<rparr>"

lemma empty_backend_ok: "registry_ok example_crypto empty_backend" "sql_healthy (storage empty_backend)"
  by (simp_all add: registry_ok_def empty_backend_def sql_healthy_def)

lemma one_backend_ok: "registry_ok example_crypto one_backend" "sql_healthy (storage one_backend)"
  using example_post_derives
  by (simp_all add: registry_ok_def one_backend_def empty_backend_def sql_healthy_def row_valid_def
      request_of_def derive_created_def)

lemma fresh_relayer_ok: "live fresh_relayer = []" "client_ok (celestia fresh_relayer)"
  "submissions (celestia fresh_relayer) = []" "custom_igp_hook (config fresh_relayer) = None"
  using example_relayer_client
  by (simp_all add: fresh_relayer_def example_relayer_def example_client_def example_config_def)

theorem tick_syncs_registry_witness:
  "map_of (live (fst (snd (maintenance_tick (over_http example_crypto tally_chrono 3) tally_chrono 3
     (fresh_relayer, one_backend))))) = [example_addr \<mapsto> request_of example_post ''|'']"
proof -
  obtain sent s' b' where tick: "maintenance_tick (over_http example_crypto tally_chrono 3) tally_chrono 3
      (fresh_relayer, one_backend) = (sent, s', b')"
    by (metis prod.exhaust)
  have "reg one_backend = [example_addr \<mapsto> request_of example_post ''|'']"
    by (rule ext) (simp add: reg_def one_backend_def tbl_get_single example_addr_def request_of_def)
  moreover have "retirement_reason tally_chrono ''|'' (map_of (last_activity fresh_relayer) example_addr) 3
      (max_request_age_seconds (config fresh_relayer)) (max_address_inactivity_seconds (config fresh_relayer))
      = None"
    by (simp add: retirement_reason_def fresh_relayer_def example_relayer_def example_config_def
        tally_chrono_def num_seconds_def)
  moreover have "created_at (request_of example_post ''|'') = ''|''" by (simp add: request_of_def)
  ultimately show ?thesis
    using tick_syncs_registry [OF tick one_backend_ok] by (simp add: tick fun_eq_iff)
qed

text \<open>A client registers the address, a tick finds it, and a worker forwards it.\<close>

lemma example_world:
  "\<exists>s0 s1 s. run (world_step example_crypto tally_chrono) (run_relayer fresh_relayer empty_backend)
       [ClientCall 1 1 (PostForwardingRequests example_post)] s0
     \<and> world_step example_crypto tally_chrono s0 (RelayerStep (Some 3) (Ticked 3)) s1
     \<and> run (world_step example_crypto tally_chrono) s1 (forward_actions example_addr) s
     \<and> reg (backend s0) example_addr = Some (request_of example_post ''|'')
     \<and> system_idle s \<and> length (submissions (celestia (shared s))) = 1"
proof -
  let ?run = "world_run example_crypto tally_chrono"
  have "case ?run [ClientCall 1 1 (PostForwardingRequests example_post)]
      (run_relayer fresh_relayer empty_backend) of
      None \<Rightarrow> False
    | Some s0 \<Rightarrow> reg (backend s0) example_addr = Some (request_of example_post ''|'') \<and>
        (case ?run [RelayerStep (Some 3) (Ticked 3)] s0 of
          None \<Rightarrow> False
        | Some s1 \<Rightarrow>
            (case ?run (forward_actions example_addr) s1 of
              None \<Rightarrow> False
            | Some s \<Rightarrow> is_idle s \<and> length (submissions (celestia (shared s))) = 1))"
    by code_simp
  then obtain s0 s1 s where
    "?run [ClientCall 1 1 (PostForwardingRequests example_post)] (run_relayer fresh_relayer empty_backend)
      = Some s0"
    "reg (backend s0) example_addr = Some (request_of example_post ''|'')"
    "?run [RelayerStep (Some 3) (Ticked 3)] s0 = Some s1"
    "?run (forward_actions example_addr) s1 = Some s" "is_idle s"
    "length (submissions (celestia (shared s))) = 1"
    unfolding case_option_ex by blast
  then show ?thesis unfolding run_world_run [symmetric] is_idle run_Cons_iff run_Nil_iff by blast
qed


theorem submissions_match_their_address_witness:
  "\<exists>acts s url m. run (world_step example_crypto tally_chrono) (run_relayer fresh_relayer empty_backend) acts s
     \<and> submissions (celestia (shared s)) = [(url, m)]
     \<and> derive_forwarding_address example_crypto (mf_dest_domain m) (mf_dest_recipient m) (mf_token_id m)
         (Some (mf_custom_hook_id m)) (Some (mf_custom_hook_metadata m)) = Inr (mf_forward_addr m)"
proof -
  obtain s0 s1 s where
    r: "run (world_step example_crypto tally_chrono) (run_relayer fresh_relayer empty_backend)
        [ClientCall 1 1 (PostForwardingRequests example_post)] s0"
      "world_step example_crypto tally_chrono s0 (RelayerStep (Some 3) (Ticked 3)) s1"
      "run (world_step example_crypto tally_chrono) s1 (forward_actions example_addr) s"
    and one: "length (submissions (celestia (shared s))) = 1"
    using example_world by blast
  from r have all: "run (world_step example_crypto tally_chrono) (run_relayer fresh_relayer empty_backend)
      ([ClientCall 1 1 (PostForwardingRequests example_post)]
       @ RelayerStep (Some 3) (Ticked 3) # forward_actions example_addr) s"
    unfolding run_append run_Cons_iff by blast
  obtain url m where m: "submissions (celestia (shared s)) = [(url, m)]"
    using one by (metis length_0_conv length_Suc_conv One_nat_def surj_pair)
  from submissions_match_their_address [OF all empty_backend_ok(1) fresh_relayer_ok] m
  have "derive_forwarding_address example_crypto (mf_dest_domain m) (mf_dest_recipient m) (mf_token_id m)
         (Some (mf_custom_hook_id m)) (Some (mf_custom_hook_metadata m)) = Inr (mf_forward_addr m)"
    by simp
  with all m show ?thesis by blast
qed

theorem registered_address_is_attempted_witness:
  "\<exists>s0 s1. world_step example_crypto tally_chrono s0 (RelayerStep (Some 3) (Ticked 3)) s1
     \<and> reg (backend s0) example_addr \<noteq> None
     \<and> (\<exists>act \<in> set (forward_actions example_addr). world_attempts act example_addr)"
proof -
  obtain s0 s1 s where
    r: "run (world_step example_crypto tally_chrono) (run_relayer fresh_relayer empty_backend)
        [ClientCall 1 1 (PostForwardingRequests example_post)] s0"
      "world_step example_crypto tally_chrono s0 (RelayerStep (Some 3) (Ticked 3)) s1"
      "run (world_step example_crypto tally_chrono) s1 (forward_actions example_addr) s"
    and reg: "reg (backend s0) example_addr = Some (request_of example_post ''|'')"
    and idle: "system_idle s"
    using example_world by blast
  have h: "shared s0 = fresh_relayer" "sql_healthy (storage (backend s0))"
    using r(1) world_backend_ok_run [OF r(1)] empty_backend_ok
    by (auto simp: run_Cons_iff run_relayer_def elim!: client_callE)
  have live: "hm_get (live (shared s0)) example_addr = None"
    "retirement_reason tally_chrono (created_at (request_of example_post ''|''))
      (hm_get (last_activity (shared s0)) example_addr) 3
      (max_request_age_seconds (config fresh_relayer)) (max_address_inactivity_seconds (config fresh_relayer))
      = None"
    by (simp_all add: h fresh_relayer_def example_relayer_def example_config_def retirement_reason_def
        tally_chrono_def num_seconds_def request_of_def)
  from registered_address_is_attempted [OF r(1) empty_backend_ok(1) fresh_relayer_ok(1-3) reg live(1) h(2)
      live(2) r(2,3) idle] reg r(2)
  show ?thesis by blast
qed

text \<open>The relayer stops in the middle of a forward, having seen the balance.\<close>

definition half_forward :: "string \<Rightarrow> world_action list" where
  "half_forward a = RelayerStep (Some 3) (Ticked 3) # take 6 (forward_actions a)"

lemma example_crash:
  "\<exists>r s r' s1 s'. relayer_new tally_chrono example_config (Inr example_client) (Inr example_store) = Inr r
     \<and> run (world_step example_crypto tally_chrono) (run_relayer r one_backend) (half_forward example_addr) s
     \<and> relayer_new tally_chrono example_config (Inr example_client) (Inr (store (shared s))) = Inr r'
     \<and> reg (backend s) example_addr = Some (request_of example_post ''|'')
     \<and> hm_get (last_activity (shared s)) example_addr = Some 3
     \<and> world_step example_crypto tally_chrono (run_relayer r' (backend s)) (RelayerStep (Some 3) (Ticked 3)) s1
     \<and> run (world_step example_crypto tally_chrono) s1 (forward_actions example_addr) s' \<and> system_idle s'"
proof -
  let ?new = "relayer_new tally_chrono example_config (Inr example_client)"
    and ?run = "world_run example_crypto tally_chrono"
  have "case ?new (Inr example_store) of Inl _ \<Rightarrow> False | Inr r \<Rightarrow>
      (case ?run (half_forward example_addr) (run_relayer r one_backend) of None \<Rightarrow> False | Some s \<Rightarrow>
        reg (backend s) example_addr = Some (request_of example_post ''|'') \<and>
        hm_get (last_activity (shared s)) example_addr = Some 3 \<and>
        (case ?new (Inr (store (shared s))) of Inl _ \<Rightarrow> False | Inr r' \<Rightarrow>
          (case ?run [RelayerStep (Some 3) (Ticked 3)] (run_relayer r' (backend s)) of None \<Rightarrow> False | Some s1 \<Rightarrow>
            (case ?run (forward_actions example_addr) s1 of None \<Rightarrow> False | Some s' \<Rightarrow> is_idle s'))))"
    by code_simp
  then obtain r s r' s1 s' where
    "?new (Inr example_store) = Inr r" "?run (half_forward example_addr) (run_relayer r one_backend) = Some s"
    "reg (backend s) example_addr = Some (request_of example_post ''|'')"
    "hm_get (last_activity (shared s)) example_addr = Some 3" "?new (Inr (store (shared s))) = Inr r'"
    "?run [RelayerStep (Some 3) (Ticked 3)] (run_relayer r' (backend s)) = Some s1"
    "?run (forward_actions example_addr) s1 = Some s'" "is_idle s'"
    unfolding case_option_ex case_result_ex by blast
  then show ?thesis unfolding run_world_run [symmetric] is_idle run_Cons_iff run_Nil_iff by blast
qed

theorem registered_address_survives_crash_witness:
  "\<exists>r s r' s1. run (world_step example_crypto tally_chrono) (run_relayer r one_backend)
       (half_forward example_addr) s
     \<and> relayer_new tally_chrono example_config (Inr example_client) (Inr (store (shared s))) = Inr r'
     \<and> world_step example_crypto tally_chrono (run_relayer r' (backend s)) (RelayerStep (Some 3) (Ticked 3)) s1
     \<and> (\<exists>act \<in> set (forward_actions example_addr). world_attempts act example_addr)"
proof -
  obtain r s r' s1 s' where
    r: "relayer_new tally_chrono example_config (Inr example_client) (Inr example_store) = Inr r"
      "run (world_step example_crypto tally_chrono) (run_relayer r one_backend) (half_forward example_addr) s"
      "relayer_new tally_chrono example_config (Inr example_client) (Inr (store (shared s))) = Inr r'"
    and reg: "reg (backend s) example_addr = Some (request_of example_post ''|'')"
      "hm_get (last_activity (shared s)) example_addr = Some 3"
    and s1: "world_step example_crypto tally_chrono (run_relayer r' (backend s)) (RelayerStep (Some 3) (Ticked 3)) s1"
      "run (world_step example_crypto tally_chrono) s1 (forward_actions example_addr) s'" "system_idle s'"
    using example_crash by blast
  have clock: "list_all world_clock_ok (half_forward example_addr)"
    by (simp add: half_forward_def forward_actions_def example_pieces_def example_clock_def clock_ok_def)
  have live: "retirement_reason tally_chrono (created_at (request_of example_post ''|''))
      (hm_get (last_activity (shared s)) example_addr) 3
      (max_request_age_seconds example_config) (max_address_inactivity_seconds example_config) = None"
    by (simp add: reg(2) example_config_def retirement_reason_def tally_chrono_def num_seconds_def request_of_def)
  from registered_address_survives_crash [OF r(1) example_store_ok example_client_ok tally_chrono_roundtrip
      one_backend_ok r(2) clock r(3) example_client_ok reg(1) live s1] r s1
  show ?thesis by blast
qed

text \<open>A hash that tells the two commitments apart.\<close>

definition summing_crypto :: crypto where
  "summing_crypto = example_crypto\<lparr>sha256 := (\<lambda>bs. [fold (+) bs 0])\<rparr>"

definition summing_addr :: string where
  "summing_addr = (case derive_forwarding_address summing_crypto 7 example_recipient example_token None None of
     Inr a \<Rightarrow> a | Inl _ \<Rightarrow> [])"

definition hooked_relayer :: relayer_state where
  "hooked_relayer = fresh_relayer\<lparr>config := example_config\<lparr>custom_igp_hook := Some example_hook\<rparr>,
     live := [(summing_addr, (example_request summing_addr))]\<rparr>"

theorem fallback_hook_breaks_commitment_witness:
  "\<exists>url m. submissions (celestia (forward_address example_grpc tally_chrono (example_clock 3) summing_addr
       hooked_relayer)) = [(url, m)]
     \<and> derive_forwarding_address summing_crypto (mf_dest_domain m) (mf_dest_recipient m) (mf_token_id m)
         (Some (mf_custom_hook_id m)) (Some (mf_custom_hook_metadata m)) \<noteq> Inr (mf_forward_addr m)"
proof -
  let ?s' = "forward_address example_grpc tally_chrono (example_clock 3) summing_addr hooked_relayer"
  let ?rb = "replicate 31 0 @ [0xa1 :: u8]" and ?tb = "replicate 31 0 @ [0xb2 :: u8]"
    and ?hb = "replicate 31 0 @ [0xc3 :: u8]"
  have "length (submissions (celestia ?s')) = 1" by code_simp
  then obtain url m where m: "submissions (celestia ?s') = [(url, m)]"
    by (metis length_0_conv length_Suc_conv One_nat_def surj_pair)
  have c: "commitment summing_crypto 7 example_recipient example_token None None = Some (7, ?rb, ?tb, None)"
    "commitment summing_crypto 7 example_recipient example_token (Some example_hook) None
      = Some (7, ?rb, ?tb, Some (?hb, []))"
    "parse_hook summing_crypto (Some example_hook) = Inr (Some ?hb)"
    by code_simp+
  have "collision_free summing_crypto (preimage (7, ?rb, ?tb, None)) (preimage (7, ?rb, ?tb, Some (?hb, [])))"
    by code_simp
  moreover have "row_valid summing_crypto (example_request summing_addr)"
    using c(1) by (auto simp: row_valid_def example_request_def summing_addr_def derive_commitment
        address_of_preimage_def summing_crypto_def example_crypto_def Let_def)
  moreover have "bech32_injective summing_crypto"
    using example_bech32_injective by (simp add: bech32_injective_def summing_crypto_def)
  moreover have "submissions (celestia ?s') = submissions (celestia hooked_relayer) @ [(url, m)]"
    using m fresh_relayer_ok(3) by (simp add: hooked_relayer_def)
  moreover have "client_ok (celestia hooked_relayer)"
    using fresh_relayer_ok(2) by (simp add: hooked_relayer_def)
  ultimately have "mf_forward_addr m = summing_addr
    \<and> derive_forwarding_address summing_crypto (mf_dest_domain m) (mf_dest_recipient m) (mf_token_id m)
         (Some (mf_custom_hook_id m)) (Some (mf_custom_hook_metadata m)) \<noteq> Inr summing_addr"
    using fallback_hook_breaks_commitment [of hooked_relayer summing_addr "example_request summing_addr"
        summing_crypto example_hook ?hb "(7, ?rb, ?tb, None)" "(7, ?rb, ?tb, Some (?hb, []))"] c
    by (simp add: hooked_relayer_def example_request_def)
  with m show ?thesis by metis
qed

end
